(* ===== verification/Prelude.thy ===== *)
theory Prelude
  imports Main "HOL-Library.Word"
begin

text \<open>
  Shared vocabulary of the development: the machine integer types of the C sources, the
  faults that stand for undefined behaviour or a machine that never returns, counted
  loops over \<open>uint64_t\<close> indices, and the generic lemmas on words, masks and alignment
  that the components use.
\<close>

unbundle bit_operations_syntax

type_synonym u8 = "8 word"
type_synonym u16 = "16 word"
type_synonym u32 = "32 word"
type_synonym u64 = "64 word"

named_theorems hw_defs \<open>definitions of the hardware access primitives\<close>
named_theorems frame_simps \<open>which part of the state an operation leaves alone\<close>
named_theorems addr_simps \<open>arithmetic of page and table addresses\<close>

text \<open>
  A run of the C code that does not return a value: a machine fault, undefined behaviour
  of the language, or a deliberate halt.
\<close>

datatype fault =
    BufferOverflow
  | DivideError
  | BadVaArg
  | ReadPastEnd
  | IntOverflow
  | NullDeref
  | Halted

type_synonym 'a outcome = "fault + 'a"

definition bind_outcome :: "'a outcome \<Rightarrow> ('a \<Rightarrow> 'b outcome) \<Rightarrow> 'b outcome" where
  "bind_outcome x f = (case x of Inl e \<Rightarrow> Inl e | Inr a \<Rightarrow> f a)"

lemma bind_outcome_simps [simp]:
  "bind_outcome (Inl e) f = Inl e"
  "bind_outcome (Inr a) f = f a"
  by (simp_all add: bind_outcome_def)

lemma bind_outcome_Inr_iff:
  "bind_outcome x f = Inr b \<longleftrightarrow> (\<exists>a. x = Inr a \<and> f a = Inr b)"
  by (cases x) simp_all

section \<open>Words and natural numbers\<close>

lemma unat_Suc_less: "unat (i + 1) = Suc (unat i)"
  if "i < n" for i n :: "'a::len word"
proof -
  have "unat n < 2 ^ LENGTH('a)" by (rule unsigned_less)
  with that have "unat i + 1 < 2 ^ LENGTH('a)"
    unfolding word_less_nat_alt by linarith
  then show ?thesis by (simp add: unat_word_ariths)
qed

lemma inc_le_of_less: "i < n \<Longrightarrow> i + 1 \<le> n" for i n :: "'a::len word"
  by (simp add: word_le_nat_alt word_less_nat_alt unat_Suc_less Suc_le_eq)

lemma less_Suc_word: "i < n \<Longrightarrow> (k < i + 1) = (k < i \<or> k = i)" for i n k :: u64
  by (auto simp: word_less_nat_alt unat_Suc_less less_Suc_eq word_unat_eq_iff)

lemma unat_of_nat_u64: "n < 2 ^ 64 \<Longrightarrow> unat (of_nat n :: u64) = n"
  by (simp add: unat_of_nat take_bit_nat_eq_self)

lemma of_nat_inj_u64:
  "(of_nat a :: u64) = of_nat b \<Longrightarrow> a < 2 ^ 64 \<Longrightarrow> b < 2 ^ 64 \<Longrightarrow> a = b"
  by (metis unat_of_nat_u64)

lemma unat_less_u64: "unat (x :: u64) < 2 ^ 64"
  using unsigned_less [of x] by simp

lemma unat_add_no_wrap:
  "unat a + unat b < 2 ^ 64 \<Longrightarrow> unat (a + b) = unat a + unat b" for a b :: u64
  by (simp add: unat_word_ariths)

lemma unat_mult_no_wrap:
  "unat a * unat b < 2 ^ 64 \<Longrightarrow> unat (a * b) = unat a * unat b" for a b :: u64
  by (simp add: unat_word_ariths)

lemma unat_sub_le: "b \<le> a \<Longrightarrow> unat (a - b) = unat a - unat b" for a b :: "'a::len word"
  by (simp add: unat_sub)

lemma unat_ucast_up:
  fixes w :: "'a::len word"
  assumes "LENGTH('a) \<le> LENGTH('b)"
  shows "unat (ucast w :: 'b::len word) = unat w"
proof -
  have "unat w < 2 ^ LENGTH('a)" by (rule unsigned_less)
  also have "(2::nat) ^ LENGTH('a) \<le> 2 ^ LENGTH('b)" using assms by simp
  finally show ?thesis by (simp add: unsigned_ucast_eq take_bit_nat_eq_self)
qed

section \<open>Masks, shifts and alignment\<close>

lemma and_not_mask_push_drop: "x AND NOT (mask n) = push_bit n (drop_bit n x)"
  for x :: "'a::len word"
  by (rule bit_word_eqI) (auto simp: bit_simps)

lemma unat_drop_bit: "unat (drop_bit n x) = unat x div 2 ^ n" for x :: "'a::len word"
  by (subst unat_drop_bit_eq) (rule drop_bit_eq_div)

lemma unat_push_drop: "unat (push_bit n (drop_bit n x)) = unat x div 2 ^ n * 2 ^ n"
  for x :: "'a::len word"
proof -
  have "unat x div 2 ^ n * 2 ^ n < 2 ^ LENGTH('a)"
    by (rule le_less_trans [OF div_times_less_eq_dividend]) (rule unsigned_less)
  then have "take_bit LENGTH('a) (push_bit n (unat x div 2 ^ n)) = unat x div 2 ^ n * 2 ^ n"
    by (simp add: push_bit_eq_mult take_bit_nat_eq_self)
  then show ?thesis
    by (simp only: unsigned_push_bit_eq unat_drop_bit)
qed

lemma unat_and_not_mask: "unat (x AND NOT (mask n)) = unat x div 2 ^ n * 2 ^ n"
  for x :: "'a::len word"
  by (simp add: and_not_mask_push_drop unat_push_drop)

lemma unat_and_mask: "unat (x AND mask n) = unat x mod 2 ^ n" for x :: "'a::len word"
proof -
  have "unat (x AND mask n) = take_bit n (unat x)"
    by (simp only: take_bit_eq_mask [symmetric] unsigned_take_bit_eq)
  then show ?thesis by (simp only: take_bit_eq_mod)
qed

lemma word_and_1_eq_0: "(x AND 1 = 0) = (\<not> bit x 0)" for x :: "'a::len word"
  by (simp add: and_one_eq bit_0 odd_iff_mod_2_eq_one)

text \<open>
  A base address aligned to \<open>2 ^ n\<close> and an offset below \<open>2 ^ n\<close> determine each
  other: windows of aligned objects are equal or disjoint.
\<close>

definition aligned :: "nat \<Rightarrow> 'a::len word \<Rightarrow> bool" where
  "aligned n a \<longleftrightarrow> a AND mask n = 0"

lemma aligned_unat: "aligned n a \<longleftrightarrow> unat a mod 2 ^ n = 0" for a :: "'a::len word"
  unfolding aligned_def unat_and_mask [symmetric] by (simp add: unat_eq_0)

lemma aligned_add_unat:
  fixes a k :: "'a::len word"
  assumes "aligned n a" "unat k < 2 ^ n" "n \<le> LENGTH('a)"
  shows "unat (a + k) = unat a + unat k"
proof -
  from assms(1) obtain q where q: "unat a = 2 ^ n * q"
    by (auto simp: aligned_unat mod_eq_0_iff_dvd)
  have split: "(2::nat) ^ LENGTH('a) = 2 ^ n * 2 ^ (LENGTH('a) - n)"
    using assms(3) by (simp flip: power_add)
  have "unat a < 2 ^ LENGTH('a)" by (rule unsigned_less)
  then have "q < 2 ^ (LENGTH('a) - n)" by (simp add: q split)
  then have "Suc q * 2 ^ n \<le> 2 ^ LENGTH('a)"
    by (simp only: split mult.commute [of "2 ^ n"] mult_le_mono1 Suc_le_eq)
  with assms(2) have "unat a + unat k < 2 ^ LENGTH('a)" by (simp add: q mult.commute)
  then show ?thesis by (simp add: unat_word_ariths)
qed

lemma aligned_add_div:
  fixes a k :: "'a::len word"
  assumes "aligned n a" "unat k < 2 ^ n" "n \<le> LENGTH('a)"
  shows "unat (a + k) div 2 ^ n = unat a div 2 ^ n"
  using assms(1,2) by (auto simp: aligned_add_unat [OF assms] aligned_unat mod_eq_0_iff_dvd)

lemma aligned_window_unique:
  fixes a b k l :: "'a::len word"
  assumes "a + k = b + l" "aligned n a" "aligned n b" "unat k < 2 ^ n" "unat l < 2 ^ n"
    "n \<le> LENGTH('a)"
  shows "a = b \<and> k = l"
proof -
  have "unat a div 2 ^ n = unat b div 2 ^ n"
    using aligned_add_div [OF assms(2,4,6)] aligned_add_div [OF assms(3,5,6)] assms(1) by simp
  with assms(2,3) have "unat a = unat b"
    by (auto simp: aligned_unat mod_eq_0_iff_dvd)
  then have "a = b" by (rule word_unat_eq_iff [THEN iffD2])
  with assms(1) show ?thesis by simp
qed

lemma aligned_add: "aligned n a \<Longrightarrow> aligned n b \<Longrightarrow> n \<le> LENGTH('a) \<Longrightarrow> aligned n (a + b)"
  for a b :: "'a::len word"
  by (simp add: aligned_unat unat_word_ariths)
    (metis (no_types, lifting) add_0 mod_add_eq mod_mod_cancel le_imp_power_dvd mod_0)

lemma aligned_mono: "aligned n a \<Longrightarrow> m \<le> n \<Longrightarrow> aligned m a" for a :: "'a::len word"
  unfolding aligned_unat by (metis le_imp_power_dvd mod_0_imp_dvd mod_eq_0_iff_dvd dvd_trans)

section \<open>Counted loops\<close>

text \<open>
  \<open>for (uint64_t j = i; j < n; j++) f(j);\<close> with the loop body as a state transformer.
  The index never wraps, because it stays below \<open>n\<close>.
\<close>

function for_u64 :: "u64 \<Rightarrow> u64 \<Rightarrow> (u64 \<Rightarrow> 's \<Rightarrow> 's) \<Rightarrow> 's \<Rightarrow> 's" where
  "for_u64 i n f s = (if i < n then for_u64 (i + 1) n f (f i s) else s)"
  by pat_completeness auto
termination
  by (relation "measure (\<lambda>(i, n, f, s). unat n - unat i)")
    (auto simp: unat_Suc_less word_less_nat_alt)

declare for_u64.simps [simp del]

lemma for_u64_done: "\<not> i < n \<Longrightarrow> for_u64 i n f s = s"
  by (simp add: for_u64.simps)

lemma for_u64_step: "i < n \<Longrightarrow> for_u64 i n f s = for_u64 (i + 1) n f (f i s)"
  by (simp add: for_u64.simps [of i n f s])

text \<open>The loop rule: an invariant indexed by the loop counter.\<close>

lemma for_u64_inv:
  assumes "P i s" "i \<le> n"
    and "\<And>j s. i \<le> j \<Longrightarrow> j < n \<Longrightarrow> P j s \<Longrightarrow> P (j + 1) (f j s)"
  shows "P n (for_u64 i n f s)"
  using assms
proof (induction i n f s rule: for_u64.induct)
  case (1 i n f s)
  show ?case
  proof (cases "i < n")
    case True
    have le: "i \<le> i + 1"
      using True by (simp add: word_le_nat_alt unat_Suc_less)
    have "P n (for_u64 (i + 1) n f (f i s))"
      using 1(1) [OF True] 1(2,4) True inc_le_of_less [OF True] order_trans [OF le]
      by blast
    with True show ?thesis by (simp add: for_u64_step)
  next
    case False
    with 1(2,3) show ?thesis by (simp add: for_u64_done)
  qed
qed

text \<open>The loop as a fold over the indices it visits.\<close>

lemma upt_unat_step:
  "i < n \<Longrightarrow> [unat i..<unat n] = unat i # [unat (i + 1)..<unat n]" for i n :: u64
  by (simp add: unat_Suc_less word_less_nat_alt upt_conv_Cons)

lemma for_u64_fold: "for_u64 i n f s = fold (\<lambda>k. f (of_nat k)) [unat i..<unat n] s"
proof (induction i n f s rule: for_u64.induct)
  case (1 i n f s)
  then show ?case
    by (cases "i < n") (simp_all add: for_u64_step for_u64_done upt_unat_step word_less_nat_alt)
qed

end
