(* ===== verification/Machine.thy ===== *)
theory Machine
  imports Prelude
begin

text \<open>
  The machine underneath the kernel: physical memory as the kernel sees it (a byte per
  virtual address), the control register CR3, the model-specific registers, and the trace
  of the interactions with devices. The inline assembly of \<open>io.h\<close>, \<open>msr.h\<close>,
  \<open>cpuid.h\<close>, \<open>tsc.h\<close>, the accessors of \<open>mmio.h\<close> and the control-register helpers of
  \<open>vmm.c\<close> are the operations. What a device answers is a parameter: a function of the
  trace of everything that happened before the read.
\<close>

section \<open>State\<close>

record cpuid_regs =
  r_eax :: u32
  r_ebx :: u32
  r_ecx :: u32
  r_edx :: u32

datatype hw_event =
    EvOut u16 u8
  | EvIn u16 u8
  | EvWrmsr u32 u64
  | EvTsc u64
  | EvMmioW32 u64 u32
  | EvMmioR32 u64 u32
  | EvMmioW64 u64 u64
  | EvMmioR64 u64 u64
  | EvCr3 u64
  | EvInvlpg u64
  | EvPause
  | EvTpause u64
  | EvLgdt u64
  | EvLidt u16 u64
  | EvSti
  | EvCli
  | EvSegs u64
  | EvIretq u64 u64 u64 u64 u64

type_synonym history = "hw_event list"

text \<open>The devices: what a port, the time-stamp counter, a device register or \<open>cpuid\<close>
  reads, given the history so far (oldest event first).\<close>

record devices =
  port_in :: "history \<Rightarrow> u16 \<Rightarrow> u8"
  tsc_in :: "history \<Rightarrow> u64"
  mmio_in :: "history \<Rightarrow> u64 \<Rightarrow> u32"
  mmio64_in :: "history \<Rightarrow> u64 \<Rightarrow> u64"
  cpuid_in :: "u32 \<Rightarrow> u32 \<Rightarrow> cpuid_regs"

record machine =
  trace :: history
  mem :: "u64 \<Rightarrow> u8"
  cr3 :: u64
  msrs :: "u32 \<Rightarrow> u64"

definition emit :: "hw_event \<Rightarrow> 'a machine_scheme \<Rightarrow> 'a machine_scheme" where
  "emit e s = s\<lparr>trace := trace s @ [e]\<rparr>"

section \<open>Port input and output\<close>

definition outb :: "u16 \<Rightarrow> u8 \<Rightarrow> 'a machine_scheme \<Rightarrow> 'a machine_scheme" where
  "outb port v s = emit (EvOut port v) s"

definition inb :: "devices \<Rightarrow> u16 \<Rightarrow> 'a machine_scheme \<Rightarrow> u8 \<times> 'a machine_scheme" where
  "inb d port s = (let v = port_in d (trace s) port in (v, emit (EvIn port v) s))"

definition io_wait :: "'a machine_scheme \<Rightarrow> 'a machine_scheme" where
  "io_wait s = outb 0x80 0 s"

section \<open>Processor registers\<close>

definition rdmsr :: "u32 \<Rightarrow> 'a machine_scheme \<Rightarrow> u64" where
  "rdmsr r s = msrs s r"

definition wrmsr :: "u32 \<Rightarrow> u64 \<Rightarrow> 'a machine_scheme \<Rightarrow> 'a machine_scheme" where
  "wrmsr r v s = (emit (EvWrmsr r v) s)\<lparr>msrs := (msrs s)(r := v)\<rparr>"

definition read_cr3 :: "'a machine_scheme \<Rightarrow> u64" where
  "read_cr3 s = cr3 s"

definition rdcr3 :: "'a machine_scheme \<Rightarrow> u64" where
  "rdcr3 s = cr3 s"

definition write_cr3 :: "u64 \<Rightarrow> 'a machine_scheme \<Rightarrow> 'a machine_scheme" where
  "write_cr3 v s = (emit (EvCr3 v) s)\<lparr>cr3 := v\<rparr>"

definition invlpg_local :: "u64 \<Rightarrow> 'a machine_scheme \<Rightarrow> 'a machine_scheme" where
  "invlpg_local va s = emit (EvInvlpg va) s"

definition cpuid :: "devices \<Rightarrow> u32 \<Rightarrow> u32 \<Rightarrow> cpuid_regs" where
  "cpuid d leaf subleaf = cpuid_in d leaf subleaf"

definition cpuid_max_leaf :: "devices \<Rightarrow> u32" where
  "cpuid_max_leaf d = r_eax (cpuid d 0 0)"

definition cpuid_max_ext_leaf :: "devices \<Rightarrow> u32" where
  "cpuid_max_ext_leaf d = r_eax (cpuid d 0x80000000 0)"

definition rdtsc :: "devices \<Rightarrow> 'a machine_scheme \<Rightarrow> u64 \<times> 'a machine_scheme" where
  "rdtsc d s = (let t = tsc_in d (trace s) in (t, emit (EvTsc t) s))"

definition mm_pause :: "'a machine_scheme \<Rightarrow> 'a machine_scheme" where
  "mm_pause s = emit EvPause s"

section \<open>Device registers in memory\<close>

text \<open>
  Accesses to registers that are mapped. Before the registers of a device are mapped its driver has to
  say what happens; the local controller does so in \<open>lapic_store\<close>.
\<close>

definition mmio_read32 :: "devices \<Rightarrow> u64 \<Rightarrow> u64 \<Rightarrow> 'a machine_scheme \<Rightarrow> u32 \<times> 'a machine_scheme" where
  "mmio_read32 d base off s =
     (let v = mmio_in d (trace s) (base + off) in (v, emit (EvMmioR32 (base + off) v) s))"

definition mmio_write32 :: "u64 \<Rightarrow> u64 \<Rightarrow> u32 \<Rightarrow> 'a machine_scheme \<Rightarrow> 'a machine_scheme" where
  "mmio_write32 base off v s = emit (EvMmioW32 (base + off) v) s"

definition mmio_read64 :: "devices \<Rightarrow> u64 \<Rightarrow> u64 \<Rightarrow> 'a machine_scheme \<Rightarrow> u64 \<times> 'a machine_scheme" where
  "mmio_read64 d base off s =
     (let v = mmio64_in d (trace s) (base + off) in (v, emit (EvMmioR64 (base + off) v) s))"

definition mmio_write64 :: "u64 \<Rightarrow> u64 \<Rightarrow> u64 \<Rightarrow> 'a machine_scheme \<Rightarrow> 'a machine_scheme" where
  "mmio_write64 base off v s = emit (EvMmioW64 (base + off) v) s"

lemmas hw_prims [hw_defs] =
  emit_def outb_def inb_def io_wait_def rdmsr_def wrmsr_def read_cr3_def write_cr3_def
  invlpg_local_def cpuid_def cpuid_max_leaf_def cpuid_max_ext_leaf_def rdtsc_def mm_pause_def
  mmio_read32_def mmio_write32_def mmio_read64_def mmio_write64_def rdcr3_def

section \<open>Quadwords in memory\<close>

text \<open>A \<open>uint64_t\<close> object occupies eight bytes, least significant first.\<close>

definition rd64 :: "(u64 \<Rightarrow> u8) \<Rightarrow> u64 \<Rightarrow> u64" where
  "rd64 m a =
     ucast (m a) OR push_bit 8 (ucast (m (a + 1))) OR push_bit 16 (ucast (m (a + 2)))
     OR push_bit 24 (ucast (m (a + 3))) OR push_bit 32 (ucast (m (a + 4)))
     OR push_bit 40 (ucast (m (a + 5))) OR push_bit 48 (ucast (m (a + 6)))
     OR push_bit 56 (ucast (m (a + 7)))"

definition wr64 :: "(u64 \<Rightarrow> u8) \<Rightarrow> u64 \<Rightarrow> u64 \<Rightarrow> (u64 \<Rightarrow> u8)" where
  "wr64 m a v =
     (\<lambda>x. if unat (x - a) < 8 then ucast (drop_bit (8 * unat (x - a)) v) else m x)"

lemma bit_rd64:
  assumes "q < 8" "r < 8"
  shows "bit (rd64 m a) (8 * q + r) = bit (m (a + of_nat q)) r"
proof -
  have "q = 0 \<or> q = 1 \<or> q = 2 \<or> q = 3 \<or> q = 4 \<or> q = 5 \<or> q = 6 \<or> q = 7"
    using assms(1) by arith
  moreover have "8 \<le> k \<Longrightarrow> \<not> bit (x :: u8) k" for x k
    using bit_imp_le_length [of x k] by auto
  ultimately show ?thesis
    using assms(2) by (elim disjE) (simp_all add: rd64_def bit_simps)
qed

lemma rd64_cong:
  assumes eq: "\<And>k. unat k < 8 \<Longrightarrow> m (a + k) = m' (b + k)"
  shows "rd64 m a = rd64 m' b"
  unfolding rd64_def
  using eq [of 0] eq [of 1] eq [of 2] eq [of 3] eq [of 4] eq [of 5] eq [of 6] eq [of 7]
  by simp

lemma wr64_other: "\<not> unat (x - a) < 8 \<Longrightarrow> wr64 m a v x = m x"
  by (simp add: wr64_def)

lemma rd64_wr64_same: "rd64 (wr64 m a v) a = v"
proof (rule bit_word_eqI)
  fix n
  assume "n < LENGTH(64)"
  then have q: "n div 8 < 8" by simp
  have r: "n mod 8 < 8" by simp
  have "bit (rd64 (wr64 m a v) a) (8 * (n div 8) + n mod 8) = bit v (8 * (n div 8) + n mod 8)"
    using q unfolding bit_rd64 [OF q r] by (simp add: wr64_def unat_of_nat_u64 bit_simps)
  then show "bit (rd64 (wr64 m a v) a) n = bit v n" by simp
qed

lemma rd64_wr64_other:
  assumes "aligned 3 a" "aligned 3 b" "a \<noteq> b"
  shows "rd64 (wr64 m a v) b = rd64 m b"
proof (rule rd64_cong)
  fix k :: u64
  assume k: "unat k < 8"
  have "\<not> unat (b + k - a) < 8"
  proof
    assume "unat (b + k - a) < 8"
    then have w: "unat (b + k - a) < 2 ^ 3" and k3: "unat k < 2 ^ 3"
      using k by simp_all
    have "a + (b + k - a) = b + k" by simp
    from aligned_window_unique [OF this assms(1,2) w k3] assms(3)
    show False by simp
  qed
  then show "wr64 m a v (b + k) = m (b + k)" by (rule wr64_other)
qed

section \<open>Tables of 512 quadwords\<close>

text \<open>
  The interface between memory and its clients that keep page-aligned tables of 512
  entries in it: reading back what was written, and writes to one aligned cell leaving
  the other cells alone. The lemmas for tables follow from these two laws only.
\<close>

definition cell :: "u64 \<Rightarrow> u64 \<Rightarrow> u64" where
  "cell tbl i = tbl + 8 * i"

lemma unat_cell_offset: "unat i < 512 \<Longrightarrow> unat (8 * i) = 8 * unat i" for i :: u64
  by (simp add: unat_mult_no_wrap)

lemma cell_inj:
  assumes "cell p i = cell q j" "aligned 12 p" "aligned 12 q" "unat i < 512" "unat j < 512"
  shows "p = q \<and> i = j"
proof -
  have "p = q \<and> 8 * i = 8 * j"
    using assms by (intro aligned_window_unique [where n = 12])
      (simp_all add: cell_def unat_cell_offset)
  moreover from this have "unat (8 * i) = unat (8 * j)" by simp
  ultimately show ?thesis
    using assms(4,5) by (simp add: unat_cell_offset word_unat_eq_iff)
qed

lemma aligned_cell: "aligned 12 p \<Longrightarrow> unat i < 512 \<Longrightarrow> aligned 3 (cell p i)"
  unfolding cell_def
  by (intro aligned_add) (auto simp: aligned_unat unat_cell_offset dest: aligned_mono [of 12 p 3])

locale quad_store =
  fixes rd :: "'m \<Rightarrow> u64 \<Rightarrow> u64"
    and wr :: "'m \<Rightarrow> u64 \<Rightarrow> u64 \<Rightarrow> 'm"
  assumes rd_wr_same: "rd (wr m a v) a = v"
    and rd_wr_other: "aligned 3 a \<Longrightarrow> aligned 3 b \<Longrightarrow> a \<noteq> b \<Longrightarrow> rd (wr m a v) b = rd m b"
begin

lemma table_rd_wr:
  assumes "aligned 12 p" "aligned 12 q" "unat i < 512" "unat j < 512"
  shows "rd (wr m (cell p i) v) (cell q j) = (if p = q \<and> i = j then v else rd m (cell q j))"
  using assms cell_inj [of p i q j]
  by (auto simp: rd_wr_same intro!: rd_wr_other aligned_cell)

lemma table_fill:
  assumes p: "aligned 12 p" and q: "aligned 12 q" and j: "unat j < 512"
    and n: "unat n \<le> 512" and i: "i \<le> n"
  shows "rd (for_u64 i n (\<lambda>k m. wr m (cell p k) (g k)) m) (cell q j) =
    (if p = q \<and> i \<le> j \<and> j < n then g j else rd m (cell q j))"
  using n i
proof (induction i n "\<lambda>k m. wr m (cell p k) (g k)" m rule: for_u64.induct)
  case (1 i n m)
  show ?case
  proof (cases "i < n")
    case True
    with 1(2) have i512: "unat i < 512" by (simp add: word_less_nat_alt)
    have "i + 1 \<le> n" using True by (rule inc_le_of_less)
    then have IH: "rd (for_u64 (i + 1) n (\<lambda>k m. wr m (cell p k) (g k)) (wr m (cell p i) (g i)))
        (cell q j) =
      (if p = q \<and> i + 1 \<le> j \<and> j < n then g j else rd (wr m (cell p i) (g i)) (cell q j))"
      using 1(1) [OF True 1(2)] by blast
    have "j \<noteq> i \<Longrightarrow> (i + 1 \<le> j) = (i \<le> j)"
      using True by (auto simp: word_le_nat_alt unat_Suc_less word_unat_eq_iff)
    moreover have "\<not> i + 1 \<le> i"
      using True by (simp add: word_le_nat_alt unat_Suc_less)
    ultimately show ?thesis
      unfolding for_u64_step [OF True] IH table_rd_wr [OF p q i512 j]
      using True by (cases "j = i") simp_all
  next
    case False
    then show ?thesis by (auto simp: for_u64_done)
  qed
qed

end

interpretation ram: quad_store rd64 wr64
  by unfold_locales (simp_all add: rd64_wr64_same rd64_wr64_other)

end
