(* ===== verification/Boot_Info.thy ===== *)
theory Boot_Info
  imports Machine
begin

text \<open>
  The boot information of \<open>kernel/boot/boot_info.h\<close> and \<open>boot_info_init\<close>. The response
  structures come from the Limine protocol header, which is not part of the repository;
  the records below hold exactly the members the kernel reads. A pointer that may be NULL
  is an option, a pointer to an array of pointers is an optional function from the index
  to an optional element. The numeric values of the protocol's constants are a parameter
  (\<open>limine_consts\<close>).
\<close>

section \<open>Limine responses\<close>

record limine_consts =
  MEMMAP_USABLE :: u64
  MEMMAP_RESERVED :: u64
  MEMMAP_ACPI_RECLAIMABLE :: u64
  MEMMAP_ACPI_NVS :: u64
  MEMMAP_BAD_MEMORY :: u64
  MEMMAP_BOOTLOADER_RECLAIMABLE :: u64
  MEMMAP_EXECUTABLE_AND_MODULES :: u64
  MEMMAP_FRAMEBUFFER :: u64
  MEMMAP_ACPI_TABLES :: u64
  FIRMWARE_TYPE_X86BIOS :: u64
  FIRMWARE_TYPE_EFI32 :: u64
  FIRMWARE_TYPE_EFI64 :: u64
  FIRMWARE_TYPE_SBI :: u64
  PAGING_MODE_X86_64_4LVL :: u64
  PAGING_MODE_X86_64_5LVL :: u64
  MEDIA_TYPE_GENERIC :: u32
  MEDIA_TYPE_OPTICAL :: u32
  MEDIA_TYPE_TFTP :: u32
  FRAMEBUFFER_RGB :: u8
  MP_RESPONSE_X86_64_X2APIC :: u32

record limine_uuid =
  uuid_a :: u32
  uuid_b :: u16
  uuid_c :: u16
  uuid_d :: "nat \<Rightarrow> u8"

record limine_file =
  file_revision :: u64
  file_address :: u64
  file_size :: u64
  file_path :: "string option"
  file_string :: "string option"
  file_media_type :: u32
  file_unused :: u32
  file_tftp_ip :: u32
  file_tftp_port :: u32
  file_partition_index :: u32
  file_mbr_disk_id :: u32
  file_gpt_disk_uuid :: limine_uuid
  file_gpt_part_uuid :: limine_uuid
  file_part_uuid :: limine_uuid

record limine_video_mode =
  vm_pitch :: u64
  vm_width :: u64
  vm_height :: u64
  vm_bpp :: u16
  vm_memory_model :: u8
  vm_red_mask_size :: u8
  vm_red_mask_shift :: u8
  vm_green_mask_size :: u8
  vm_green_mask_shift :: u8
  vm_blue_mask_size :: u8
  vm_blue_mask_shift :: u8

record limine_framebuffer =
  fb_address :: u64
  fb_width :: u64
  fb_height :: u64
  fb_pitch :: u64
  fb_bpp :: u16
  fb_memory_model :: u8
  fb_red_mask_size :: u8
  fb_red_mask_shift :: u8
  fb_green_mask_size :: u8
  fb_green_mask_shift :: u8
  fb_blue_mask_size :: u8
  fb_blue_mask_shift :: u8
  fb_edid_size :: u64
  fb_edid :: u64
  fb_mode_count :: u64
  fb_modes :: "(u64 \<Rightarrow> limine_video_mode option) option"

record limine_memmap_entry =
  e_base :: u64
  e_length :: u64
  e_type :: u64

record limine_mp_info =
  mp_processor_id :: u32
  mp_lapic_id :: u32
  mp_reserved :: u64
  mp_goto_address :: u64
  mp_extra_argument :: u64

record bootloader_info_response =
  bli_revision :: u64
  bli_name :: "string option"
  bli_version :: "string option"

record cmdline_response =
  cmd_revision :: u64
  cmd_cmdline :: "string option"

record firmware_type_response =
  fw_revision :: u64
  fw_firmware_type :: u64

record stack_size_response =
  ss_revision :: u64

record paging_mode_response =
  pm_revision :: u64
  pm_mode :: u64

record entry_point_response =
  ep_revision :: u64

record executable_file_response =
  ef_revision :: u64
  ef_executable_file :: "limine_file option"

record module_response =
  mod_revision :: u64
  mod_module_count :: u64
  mod_modules :: "(u64 \<Rightarrow> limine_file option) option"

record smbios_response =
  smb_revision :: u64
  smb_entry_32 :: u64
  smb_entry_64 :: u64

record efi_system_table_response =
  est_revision :: u64
  est_address :: u64

record efi_memmap_response =
  em_revision :: u64
  em_memmap :: u64
  em_memmap_size :: u64
  em_desc_size :: u64
  em_desc_version :: u64

record date_at_boot_response =
  dab_revision :: u64
  dab_timestamp :: u64

record dtb_response =
  dtb_revision :: u64
  dtb_ptr :: u64

record riscv_bsp_hartid_response =
  rb_revision :: u64
  rb_bsp_hartid :: u64

record performance_response =
  perf_revision :: u64
  perf_reset_usec :: u64
  perf_init_usec :: u64
  perf_exec_usec :: u64

record executable_address_response =
  ea_revision :: u64
  physical_base :: u64
  virtual_base :: u64

record memmap_response =
  mm_revision :: u64
  entry_count :: u64
  entries :: "(u64 \<Rightarrow> limine_memmap_entry option) option"

record rsdp_response =
  rsdp_revision :: u64
  rsdp_address :: u64

record mp_response =
  mpr_revision :: u64
  mpr_flags :: u32
  mpr_bsp_lapic_id :: u32
  mpr_cpu_count :: u64
  mpr_cpus :: "(u64 \<Rightarrow> limine_mp_info option) option"

record framebuffer_response =
  fbr_revision :: u64
  fbr_framebuffer_count :: u64
  fbr_framebuffers :: "(u64 \<Rightarrow> limine_framebuffer option) option"

record hhdm_response =
  hhdm_revision :: u64
  hhdm_resp_offset :: u64

section \<open>\<open>boot_info_t\<close> and the requests\<close>

record boot_info =
  bi_hhdm_offset :: u64
  bi_bootloader_info :: bootloader_info_response
  bi_cmdline :: cmdline_response
  bi_firmware_type :: firmware_type_response
  bi_stack_size :: stack_size_response
  bi_paging_mode :: paging_mode_response
  bi_entry_point :: entry_point_response
  bi_kernel :: executable_file_response
  bi_module :: module_response
  bi_smbios :: smbios_response
  bi_efi_system_table :: efi_system_table_response
  bi_efi_memmap :: efi_memmap_response
  bi_boot_date :: date_at_boot_response
  bi_device_tree_blob :: dtb_response
  bi_riscv_bsp_hartid :: riscv_bsp_hartid_response
  bi_performance :: performance_response
  bi_kernel_address :: executable_address_response
  bi_memmap :: memmap_response
  bi_acpi :: rsdp_response
  bi_smp :: mp_response
  bi_framebuffer :: framebuffer_response

text \<open>The \<open>response\<close> member of every request object of \<open>limine.c\<close>: NULL until the boot
  loader answers the request.\<close>

record limine_requests =
  rq_hhdm :: "hhdm_response option"
  rq_executable_address :: "executable_address_response option"
  rq_memmap :: "memmap_response option"
  rq_rsdp :: "rsdp_response option"
  rq_mp :: "mp_response option"
  rq_framebuffer :: "framebuffer_response option"
  rq_executable_file :: "executable_file_response option"
  rq_performance :: "performance_response option"
  rq_cmdline :: "cmdline_response option"
  rq_bootloader_info :: "bootloader_info_response option"
  rq_date_at_boot :: "date_at_boot_response option"
  rq_dtb :: "dtb_response option"
  rq_efi_memmap :: "efi_memmap_response option"
  rq_efi_system_table :: "efi_system_table_response option"
  rq_entry_point :: "entry_point_response option"
  rq_firmware_type :: "firmware_type_response option"
  rq_module :: "module_response option"
  rq_paging_mode :: "paging_mode_response option"
  rq_riscv_bsp_hartid :: "riscv_bsp_hartid_response option"
  rq_smbios :: "smbios_response option"
  rq_stack_size :: "stack_size_response option"

text \<open>
  The request objects of \<open>limine.c\<close> in their order, with revision 0 and no response; four have members of
  their own. The numbers behind the identifiers are the protocol's. \<open>start\<close> is the address of \<open>_start\<close>.
\<close>

datatype request_id
  = LIMINE_BOOTLOADER_INFO_REQUEST_ID
  | LIMINE_EXECUTABLE_CMDLINE_REQUEST_ID
  | LIMINE_FIRMWARE_TYPE_REQUEST_ID
  | LIMINE_STACK_SIZE_REQUEST_ID
  | LIMINE_HHDM_REQUEST_ID
  | LIMINE_FRAMEBUFFER_REQUEST_ID
  | LIMINE_PAGING_MODE_REQUEST_ID
  | LIMINE_MP_REQUEST_ID
  | LIMINE_MEMMAP_REQUEST_ID
  | LIMINE_ENTRY_POINT_REQUEST_ID
  | LIMINE_EXECUTABLE_FILE_REQUEST_ID
  | LIMINE_MODULE_REQUEST_ID
  | LIMINE_RSDP_REQUEST_ID
  | LIMINE_SMBIOS_REQUEST_ID
  | LIMINE_EFI_SYSTEM_TABLE_REQUEST_ID
  | LIMINE_EFI_MEMMAP_REQUEST_ID
  | LIMINE_DATE_AT_BOOT_REQUEST_ID
  | LIMINE_EXECUTABLE_ADDRESS_REQUEST_ID
  | LIMINE_DTB_REQUEST_ID
  | LIMINE_RISCV_BSP_HARTID_REQUEST_ID
  | LIMINE_BOOTLOADER_PERFORMANCE_REQUEST_ID

datatype request_more = No_More | Paging_Modes u64 u64 u64 | Mp_Flags u64 | Entry_Point u64 | Internal_Modules u64 u64

record limine_request =
  rq_id :: request_id
  rq_revision :: u64
  rq_response :: u64
  rq_more :: request_more

definition request_object :: "request_id \<Rightarrow> request_more \<Rightarrow> limine_request" where
  "request_object i m = \<lparr>rq_id = i, rq_revision = 0, rq_response = 0, rq_more = m\<rparr>"

definition request_objects :: "u64 \<Rightarrow> limine_request list" where
  "request_objects start =
     [request_object LIMINE_BOOTLOADER_INFO_REQUEST_ID No_More,
      request_object LIMINE_EXECUTABLE_CMDLINE_REQUEST_ID No_More,
      request_object LIMINE_FIRMWARE_TYPE_REQUEST_ID No_More,
      request_object LIMINE_STACK_SIZE_REQUEST_ID No_More,
      request_object LIMINE_HHDM_REQUEST_ID No_More,
      request_object LIMINE_FRAMEBUFFER_REQUEST_ID No_More,
      request_object LIMINE_PAGING_MODE_REQUEST_ID (Paging_Modes 1 0 0),
      request_object LIMINE_MP_REQUEST_ID (Mp_Flags 0),
      request_object LIMINE_MEMMAP_REQUEST_ID No_More,
      request_object LIMINE_ENTRY_POINT_REQUEST_ID (Entry_Point start),
      request_object LIMINE_EXECUTABLE_FILE_REQUEST_ID No_More,
      request_object LIMINE_MODULE_REQUEST_ID (Internal_Modules 0 0),
      request_object LIMINE_RSDP_REQUEST_ID No_More,
      request_object LIMINE_SMBIOS_REQUEST_ID No_More,
      request_object LIMINE_EFI_SYSTEM_TABLE_REQUEST_ID No_More,
      request_object LIMINE_EFI_MEMMAP_REQUEST_ID No_More,
      request_object LIMINE_DATE_AT_BOOT_REQUEST_ID No_More,
      request_object LIMINE_EXECUTABLE_ADDRESS_REQUEST_ID No_More,
      request_object LIMINE_DTB_REQUEST_ID No_More,
      request_object LIMINE_RISCV_BSP_HARTID_REQUEST_ID No_More,
      request_object LIMINE_BOOTLOADER_PERFORMANCE_REQUEST_ID No_More]"

text \<open>No request is made twice.\<close>

lemma request_objects_distinct: "distinct (map rq_id (request_objects start))"
  by (simp add: request_objects_def request_object_def)

text \<open>Their \<open>response\<close> members before the boot loader has run.\<close>

definition initial_requests :: limine_requests where
  "initial_requests =
    \<lparr>rq_hhdm = None, rq_executable_address = None, rq_memmap = None, rq_rsdp = None,
     rq_mp = None, rq_framebuffer = None, rq_executable_file = None, rq_performance = None,
     rq_cmdline = None, rq_bootloader_info = None, rq_date_at_boot = None, rq_dtb = None,
     rq_efi_memmap = None, rq_efi_system_table = None, rq_entry_point = None,
     rq_firmware_type = None, rq_module = None, rq_paging_mode = None,
     rq_riscv_bsp_hartid = None, rq_smbios = None, rq_stack_size = None\<rparr>"

record boot_state = machine +
  limine_requests :: limine_requests
  g_boot_info :: boot_info

text \<open>All bytes zero: every count and address 0, every pointer NULL.\<close>

definition zero_boot_info :: boot_info where
  "zero_boot_info =
    \<lparr>bi_hhdm_offset = 0,
     bi_bootloader_info = \<lparr>bli_revision = 0, bli_name = None, bli_version = None\<rparr>,
     bi_cmdline = \<lparr>cmd_revision = 0, cmd_cmdline = None\<rparr>,
     bi_firmware_type = \<lparr>fw_revision = 0, fw_firmware_type = 0\<rparr>,
     bi_stack_size = \<lparr>ss_revision = 0\<rparr>,
     bi_paging_mode = \<lparr>pm_revision = 0, pm_mode = 0\<rparr>,
     bi_entry_point = \<lparr>ep_revision = 0\<rparr>,
     bi_kernel = \<lparr>ef_revision = 0, ef_executable_file = None\<rparr>,
     bi_module = \<lparr>mod_revision = 0, mod_module_count = 0, mod_modules = None\<rparr>,
     bi_smbios = \<lparr>smb_revision = 0, smb_entry_32 = 0, smb_entry_64 = 0\<rparr>,
     bi_efi_system_table = \<lparr>est_revision = 0, est_address = 0\<rparr>,
     bi_efi_memmap = \<lparr>em_revision = 0, em_memmap = 0, em_memmap_size = 0, em_desc_size = 0,
       em_desc_version = 0\<rparr>,
     bi_boot_date = \<lparr>dab_revision = 0, dab_timestamp = 0\<rparr>,
     bi_device_tree_blob = \<lparr>dtb_revision = 0, dtb_ptr = 0\<rparr>,
     bi_riscv_bsp_hartid = \<lparr>rb_revision = 0, rb_bsp_hartid = 0\<rparr>,
     bi_performance = \<lparr>perf_revision = 0, perf_reset_usec = 0, perf_init_usec = 0,
       perf_exec_usec = 0\<rparr>,
     bi_kernel_address = \<lparr>ea_revision = 0, physical_base = 0, virtual_base = 0\<rparr>,
     bi_memmap = \<lparr>mm_revision = 0, entry_count = 0, entries = None\<rparr>,
     bi_acpi = \<lparr>rsdp_revision = 0, rsdp_address = 0\<rparr>,
     bi_smp = \<lparr>mpr_revision = 0, mpr_flags = 0, mpr_bsp_lapic_id = 0, mpr_cpu_count = 0,
       mpr_cpus = None\<rparr>,
     bi_framebuffer = \<lparr>fbr_revision = 0, fbr_framebuffer_count = 0, fbr_framebuffers = None\<rparr>\<rparr>"

text \<open>\<open>if (request.response) field = *request.response;\<close>\<close>

definition take_response :: "'r option \<Rightarrow> ('r \<Rightarrow> 'b \<Rightarrow> 'b) \<Rightarrow> 'b \<Rightarrow> 'b" where
  "take_response resp upd b = (case resp of None \<Rightarrow> b | Some r \<Rightarrow> upd r b)"

definition fill_boot_info :: "limine_requests \<Rightarrow> boot_info \<Rightarrow> boot_info" where
  "fill_boot_info rq b =
    (let b = take_response (rq_executable_address rq) (\<lambda>r b. b\<lparr>bi_kernel_address := r\<rparr>) b;
         b = take_response (rq_memmap rq) (\<lambda>r b. b\<lparr>bi_memmap := r\<rparr>) b;
         b = take_response (rq_executable_file rq) (\<lambda>r b. b\<lparr>bi_kernel := r\<rparr>) b;
         b = take_response (rq_bootloader_info rq) (\<lambda>r b. b\<lparr>bi_bootloader_info := r\<rparr>) b;
         b = take_response (rq_date_at_boot rq) (\<lambda>r b. b\<lparr>bi_boot_date := r\<rparr>) b;
         b = take_response (rq_rsdp rq) (\<lambda>r b. b\<lparr>bi_acpi := r\<rparr>) b;
         b = take_response (rq_cmdline rq) (\<lambda>r b. b\<lparr>bi_cmdline := r\<rparr>) b;
         b = take_response (rq_dtb rq) (\<lambda>r b. b\<lparr>bi_device_tree_blob := r\<rparr>) b;
         b = take_response (rq_efi_memmap rq) (\<lambda>r b. b\<lparr>bi_efi_memmap := r\<rparr>) b;
         b = take_response (rq_efi_system_table rq) (\<lambda>r b. b\<lparr>bi_efi_system_table := r\<rparr>) b;
         b = take_response (rq_entry_point rq) (\<lambda>r b. b\<lparr>bi_entry_point := r\<rparr>) b;
         b = take_response (rq_firmware_type rq) (\<lambda>r b. b\<lparr>bi_firmware_type := r\<rparr>) b;
         b = take_response (rq_framebuffer rq) (\<lambda>r b. b\<lparr>bi_framebuffer := r\<rparr>) b;
         b = take_response (rq_hhdm rq) (\<lambda>r b. b\<lparr>bi_hhdm_offset := hhdm_resp_offset r\<rparr>) b;
         b = take_response (rq_module rq) (\<lambda>r b. b\<lparr>bi_module := r\<rparr>) b;
         b = take_response (rq_paging_mode rq) (\<lambda>r b. b\<lparr>bi_paging_mode := r\<rparr>) b;
         b = take_response (rq_performance rq) (\<lambda>r b. b\<lparr>bi_performance := r\<rparr>) b;
         b = take_response (rq_riscv_bsp_hartid rq) (\<lambda>r b. b\<lparr>bi_riscv_bsp_hartid := r\<rparr>) b;
         b = take_response (rq_smbios rq) (\<lambda>r b. b\<lparr>bi_smbios := r\<rparr>) b;
         b = take_response (rq_mp rq) (\<lambda>r b. b\<lparr>bi_smp := r\<rparr>) b;
         b = take_response (rq_stack_size rq) (\<lambda>r b. b\<lparr>bi_stack_size := r\<rparr>) b
     in b)"

definition boot_info_init :: "'a boot_state_scheme \<Rightarrow> 'a boot_state_scheme" where
  "boot_info_init s = s\<lparr>g_boot_info := fill_boot_info (limine_requests s) zero_boot_info\<rparr>"

section \<open>Memory map access\<close>

text \<open>\<open>mm->entries[i]\<close>; \<open>None\<close> where the code would follow a NULL pointer.\<close>

definition memmap_entry :: "memmap_response \<Rightarrow> u64 \<Rightarrow> limine_memmap_entry option" where
  "memmap_entry mm i = (case entries mm of None \<Rightarrow> None | Some f \<Rightarrow> f i)"

end
