(* ===== verification/Bitset.thy ===== *)
theory Bitset
  imports Prelude
begin

text \<open>
  The interface of a set of \<open>u64\<close> indices kept in some state: testing, setting and
  clearing one bit. What a counted loop over a range of bits does follows from the two
  laws; the bitmap of the physical memory manager is an instance.
\<close>

locale bitset =
  fixes test :: "'s \<Rightarrow> u64 \<Rightarrow> bool"
    and setb :: "u64 \<Rightarrow> 's \<Rightarrow> 's"
    and clrb :: "u64 \<Rightarrow> 's \<Rightarrow> 's"
  assumes test_setb: "test (setb i s) j \<longleftrightarrow> j = i \<or> test s j"
    and test_clrb: "test (clrb i s) j \<longleftrightarrow> j \<noteq> i \<and> test s j"
begin

lemma test_set_range:
  "test (for_u64 0 n (\<lambda>j s. setb (a + j) s) s) x \<longleftrightarrow> x - a < n \<or> test s x"
proof -
  have "\<forall>x. test (for_u64 0 n (\<lambda>j s. setb (a + j) s) s) x \<longleftrightarrow> x - a < n \<or> test s x"
  proof (rule for_u64_inv [where P = "\<lambda>i t. \<forall>x. test t x \<longleftrightarrow> x - a < i \<or> test s x"])
    fix j t
    assume "j < n" and t: "\<forall>x. test t x \<longleftrightarrow> x - a < j \<or> test s x"
    have "x = a + j \<longleftrightarrow> x - a = j" for x by (auto simp: algebra_simps)
    with t show "\<forall>x. test (setb (a + j) t) x \<longleftrightarrow> x - a < j + 1 \<or> test s x"
      by (auto simp: test_setb less_Suc_word [OF \<open>j < n\<close>])
  qed simp_all
  then show ?thesis ..
qed

lemma test_clr_range:
  assumes "\<And>i s. lim (clrb i s) = lim s"
  shows "test (for_u64 0 n (\<lambda>j s. let idx = a + j in if idx < lim s then clrb idx s else s) s) x \<longleftrightarrow>
    \<not> (x - a < n \<and> x < lim s) \<and> test s x"
proof -
  let ?f = "\<lambda>j s. let idx = a + j in if idx < lim s then clrb idx s else s"
  let ?P = "\<lambda>i t. lim t = lim s \<and> (\<forall>x. test t x \<longleftrightarrow> \<not> (x - a < i \<and> x < lim s) \<and> test s x)"
  have "?P n (for_u64 0 n ?f s)"
  proof (rule for_u64_inv [where P = ?P])
    fix j t
    assume "j < n" and t: "?P j t"
    have "x = a + j \<longleftrightarrow> x - a = j" for x by (auto simp: algebra_simps)
    with t show "?P (j + 1) (?f j t)"
      by (auto simp: Let_def assms test_clrb less_Suc_word [OF \<open>j < n\<close>])
  qed simp_all
  then show ?thesis by blast
qed

end

end
