(* ===== verification/Pmm.thy ===== *)
theory Pmm
  imports Boot_Info Bitset "HOL-Library.Monad_Syntax"
begin

text \<open>
  The physical memory manager, \<open>kernel/mm/pmm.c\<close>: a bitmap with one bit per 4 KiB page,
  kept in physical memory and reached through the higher-half direct map, a set bit for a
  page in use. The state holds the file's globals. \<open>None\<close> is a call that never returns:
  the halt loop of \<open>pmm_init\<close> or a NULL memory-map entry.
\<close>

section \<open>State and bit operations\<close>

definition PAGE_SIZE :: u64 where
  "PAGE_SIZE = 4096"

text \<open>Addresses the linker assigns.\<close>

record link_symbols =
  sym_kernel_start :: u64
  sym_kernel_end :: u64

record pmm_state = boot_state +
  g_hhdm :: u64
  g_bitmap :: u64
  g_bitmap_bytes :: u64
  g_total_bytes :: u64
  g_free_bytes :: u64
  g_total_pages :: u64

definition align_down :: "u64 \<Rightarrow> u64 \<Rightarrow> u64" where
  "align_down x a = x AND NOT (a - 1)"

definition align_up :: "u64 \<Rightarrow> u64 \<Rightarrow> u64" where
  "align_up x a = (x + a - 1) AND NOT (a - 1)"

definition bitmap_addr :: "'a pmm_state_scheme \<Rightarrow> u64 \<Rightarrow> u64" where
  "bitmap_addr s idx = g_bitmap s + drop_bit 3 idx"

definition bitmap_set :: "u64 \<Rightarrow> 'a pmm_state_scheme \<Rightarrow> 'a pmm_state_scheme" where
  "bitmap_set idx s =
     (let a = bitmap_addr s idx
      in s\<lparr>mem := (mem s)(a := mem s a OR push_bit (unat (idx AND 7)) 1)\<rparr>)"

definition bitmap_clear :: "u64 \<Rightarrow> 'a pmm_state_scheme \<Rightarrow> 'a pmm_state_scheme" where
  "bitmap_clear idx s =
     (let a = bitmap_addr s idx
      in s\<lparr>mem := (mem s)(a := mem s a AND NOT (push_bit (unat (idx AND 7)) 1))\<rparr>)"

definition bitmap_test :: "'a pmm_state_scheme \<Rightarrow> u64 \<Rightarrow> u8" where
  "bitmap_test s idx = drop_bit (unat (idx AND 7)) (mem s (bitmap_addr s idx)) AND 1"

definition hhdm_offset :: "'a pmm_state_scheme \<Rightarrow> u64" where
  "hhdm_offset s = g_hhdm s"

definition phys_to_virt :: "'a pmm_state_scheme \<Rightarrow> u64 \<Rightarrow> u64" where
  "phys_to_virt s phys = phys + hhdm_offset s"

definition virt_to_phys :: "'a pmm_state_scheme \<Rightarrow> u64 \<Rightarrow> u64" where
  "virt_to_phys s virt = virt - hhdm_offset s"

section \<open>Initialisation\<close>

partial_function (option) mark_loop ::
    "u64 \<Rightarrow> u64 \<Rightarrow> bool \<Rightarrow> 'a pmm_state_scheme \<Rightarrow> 'a pmm_state_scheme option" where
  "mark_loop p end_p used s =
     (if p < end_p then
        (let idx = p div PAGE_SIZE
         in if g_total_pages s \<le> idx then Some s
            else mark_loop (p + PAGE_SIZE) end_p used
                   (if used then bitmap_set idx s else bitmap_clear idx s))
      else Some s)"

definition mark_range ::
    "u64 \<Rightarrow> u64 \<Rightarrow> bool \<Rightarrow> 'a pmm_state_scheme \<Rightarrow> 'a pmm_state_scheme option" where
  "mark_range base len used s =
     mark_loop (align_down base PAGE_SIZE) (align_up (base + len) PAGE_SIZE) used s"

definition ranges_overlap :: "u64 \<Rightarrow> u64 \<Rightarrow> u64 \<Rightarrow> u64 \<Rightarrow> bool" where
  "ranges_overlap a0 a1 b0 b1 \<longleftrightarrow> a0 < b1 \<and> b0 < a1"

definition kernel_phys_range :: "link_symbols \<Rightarrow> 'a boot_state_scheme \<Rightarrow> u64 \<times> u64" where
  "kernel_phys_range ls s =
     (let virt_base = virtual_base (bi_kernel_address (g_boot_info s));
          phys_base = physical_base (bi_kernel_address (g_boot_info s));
          kstart_v = sym_kernel_start ls;
          kend_v = sym_kernel_end ls
      in (phys_base + (kstart_v - virt_base), phys_base + (kend_v - virt_base)))"

function find_max_loop :: "limine_consts \<Rightarrow> memmap_response \<Rightarrow> u64 \<Rightarrow> u64 \<Rightarrow> u64 option" where
  "find_max_loop lc mm i maxp =
     (if i < entry_count mm then
        (case memmap_entry mm i of
           None \<Rightarrow> None
         | Some e \<Rightarrow>
             if e_type e \<noteq> MEMMAP_USABLE lc then find_max_loop lc mm (i + 1) maxp
             else
               (let end_e = e_base e + e_length e
                in find_max_loop lc mm (i + 1) (if maxp < end_e then end_e else maxp)))
      else Some maxp)"
  by pat_completeness auto
termination
  by (relation "measure (\<lambda>(lc, mm, i, maxp). unat (entry_count mm) - unat i)")
    (auto simp: unat_Suc_less word_less_nat_alt)

definition find_max_phys :: "limine_consts \<Rightarrow> 'a boot_state_scheme \<Rightarrow> u64 option" where
  "find_max_phys lc s = find_max_loop lc (bi_memmap (g_boot_info s)) 0 0"

function place_loop ::
    "limine_consts \<Rightarrow> memmap_response \<Rightarrow> u64 \<Rightarrow> u64 \<Rightarrow> u64 \<Rightarrow> u64 \<Rightarrow> u64 option" where
  "place_loop lc mm bytes_needed kphys0 kphys1 i =
     (if i < entry_count mm then
        (case memmap_entry mm i of
           None \<Rightarrow> None
         | Some e \<Rightarrow>
             if e_type e \<noteq> MEMMAP_USABLE lc then
               place_loop lc mm bytes_needed kphys0 kphys1 (i + 1)
             else
               (let region_start = align_up (e_base e) PAGE_SIZE;
                    region_end = align_down (e_base e + e_length e) PAGE_SIZE
                in if region_end \<le> region_start then
                     place_loop lc mm bytes_needed kphys0 kphys1 (i + 1)
                   else
                     (let region_size = region_end - region_start
                      in if region_size < bytes_needed then
                           place_loop lc mm bytes_needed kphys0 kphys1 (i + 1)
                         else
                           (let bmp_end = region_end;
                                bmp_start = align_down (bmp_end - bytes_needed) PAGE_SIZE
                            in if ranges_overlap bmp_start (bmp_start + bytes_needed)
                                    kphys0 kphys1 then
                                 place_loop lc mm bytes_needed kphys0 kphys1 (i + 1)
                               else Some bmp_start))))
      else Some 0)"
  by pat_completeness auto
termination
  by (relation "measure (\<lambda>(lc, mm, b, k0, k1, i). unat (entry_count mm) - unat i)")
    (auto simp: unat_Suc_less word_less_nat_alt)

declare find_max_loop.simps [simp del] place_loop.simps [simp del]

definition place_bitmap_phys ::
    "limine_consts \<Rightarrow> u64 \<Rightarrow> u64 \<Rightarrow> u64 \<Rightarrow> 'a boot_state_scheme \<Rightarrow> u64 option" where
  "place_bitmap_phys lc bytes_needed kphys0 kphys1 s =
     place_loop lc (bi_memmap (g_boot_info s)) bytes_needed kphys0 kphys1 0"

function mark_usable_loop ::
    "limine_consts \<Rightarrow> memmap_response \<Rightarrow> u64 \<Rightarrow> 'a pmm_state_scheme \<Rightarrow>
      'a pmm_state_scheme option" where
  "mark_usable_loop lc mm i s =
     (if i < entry_count mm then
        (case memmap_entry mm i of
           None \<Rightarrow> None
         | Some e \<Rightarrow>
             if e_type e = MEMMAP_USABLE lc then
               (case mark_range (e_base e) (e_length e) False s of
                  None \<Rightarrow> None
                | Some s \<Rightarrow> mark_usable_loop lc mm (i + 1) s)
             else mark_usable_loop lc mm (i + 1) s)
      else Some s)"
  by pat_completeness auto
termination
  by (relation "measure (\<lambda>(lc, mm, i, s). unat (entry_count mm) - unat i)")
    (auto simp: unat_Suc_less word_less_nat_alt)

declare mark_usable_loop.simps [simp del]

definition fill_bitmap :: "'a pmm_state_scheme \<Rightarrow> 'a pmm_state_scheme" where
  "fill_bitmap s =
     for_u64 0 (g_bitmap_bytes s) (\<lambda>i s. s\<lparr>mem := (mem s)(g_bitmap s + i := 0xff)\<rparr>) s"

definition count_free_pages :: "'a pmm_state_scheme \<Rightarrow> u64" where
  "count_free_pages s =
     for_u64 0 (g_total_pages s)
       (\<lambda>i free_pages. if bitmap_test s i = 0 then free_pages + 1 else free_pages) 0"

definition pmm_init ::
    "limine_consts \<Rightarrow> link_symbols \<Rightarrow> 'a pmm_state_scheme \<Rightarrow> 'a pmm_state_scheme option" where
  "pmm_init lc ls s0 =
     (let s = s0\<lparr>g_hhdm := bi_hhdm_offset (g_boot_info s0)\<rparr>;
          mm = bi_memmap (g_boot_info s);
          (kphys0, kphys1) = kernel_phys_range ls s
      in do {
        max_phys \<leftarrow> find_max_phys lc s;
        let s = s\<lparr>g_total_pages := align_up max_phys PAGE_SIZE div PAGE_SIZE\<rparr>;
        let s = s\<lparr>g_bitmap_bytes := (g_total_pages s + 7) div 8\<rparr>;
        bmp_phys \<leftarrow> place_bitmap_phys lc (g_bitmap_bytes s) kphys0 kphys1 s;
        if bmp_phys = 0 then None
        else do {
          let s = fill_bitmap (s\<lparr>g_bitmap := bmp_phys + g_hhdm s\<rparr>);
          s \<leftarrow> mark_usable_loop lc mm 0 s;
          s \<leftarrow> mark_range kphys0 (kphys1 - kphys0) True s;
          s \<leftarrow> mark_range bmp_phys (g_bitmap_bytes s) True s;
          let s = s\<lparr>g_total_bytes := g_total_pages s * PAGE_SIZE\<rparr>;
          Some (s\<lparr>g_free_bytes := count_free_pages s * PAGE_SIZE\<rparr>)
        }
      })"

section \<open>Allocation\<close>

function pmm_scan ::
    "'a pmm_state_scheme \<Rightarrow> u64 \<Rightarrow> u64 \<Rightarrow> u64 \<Rightarrow> u64 \<Rightarrow> u64 option" where
  "pmm_scan s page_count i run run_start =
     (if i < g_total_pages s then
        (if bitmap_test s i = 0 then
           (let run_start = (if run = 0 then i else run_start);
                run = run + 1
            in if run = page_count then Some run_start
               else pmm_scan s page_count (i + 1) run run_start)
         else pmm_scan s page_count (i + 1) 0 run_start)
      else None)"
  by pat_completeness auto
termination
  by (relation "measure (\<lambda>(s, n, i, run, rs). unat (g_total_pages s) - unat i)")
    (auto simp: unat_Suc_less word_less_nat_alt)

declare pmm_scan.simps [simp del]

definition pmm_alloc_pages :: "u64 \<Rightarrow> 'a pmm_state_scheme \<Rightarrow> u64 \<times> 'a pmm_state_scheme" where
  "pmm_alloc_pages page_count s =
     (if page_count = 0 then (0, s)
      else
        (case pmm_scan s page_count 0 0 0 of
           None \<Rightarrow> (0, s)
         | Some run_start \<Rightarrow>
             (let s = for_u64 0 page_count (\<lambda>j s. bitmap_set (run_start + j) s) s;
                  s = s\<lparr>g_free_bytes := g_free_bytes s - page_count * PAGE_SIZE\<rparr>
              in (run_start * PAGE_SIZE, s))))"

definition pmm_free_pages :: "u64 \<Rightarrow> u64 \<Rightarrow> 'a pmm_state_scheme \<Rightarrow> 'a pmm_state_scheme" where
  "pmm_free_pages phys pages s =
     (if phys = 0 \<or> pages = 0 then s
      else
        (let start = phys div PAGE_SIZE;
             s = for_u64 0 pages
                   (\<lambda>i s. let idx = start + i
                          in if idx < g_total_pages s then bitmap_clear idx s else s) s
         in s\<lparr>g_free_bytes := g_free_bytes s + pages * PAGE_SIZE\<rparr>))"

definition pmm_total_bytes :: "'a pmm_state_scheme \<Rightarrow> u64" where
  "pmm_total_bytes s = g_total_bytes s"

definition pmm_free_bytes :: "'a pmm_state_scheme \<Rightarrow> u64" where
  "pmm_free_bytes s = g_free_bytes s"

section \<open>The bitmap as a set of pages\<close>

lemma and_7_mask: "idx AND 7 = idx AND mask 3" for idx :: u64
  by (simp add: mask_eq_exp_minus_1)

lemma unat_and_7: "unat (idx AND 7) = unat idx mod 8" for idx :: u64
  by (simp only: and_7_mask unat_and_mask) simp

lemma bitmap_index_inj:
  fixes i j :: u64
  assumes "drop_bit 3 i = drop_bit 3 j" "unat (i AND 7) = unat (j AND 7)"
  shows "i = j"
proof -
  have "unat i div 8 = unat j div 8"
    using arg_cong [OF assms(1), of unat] by (simp add: unat_drop_bit)
  with assms(2) have "unat i = unat j"
    by (metis div_mult_mod_eq unat_and_7)
  then show ?thesis by (rule word_unat_eq_iff [THEN iffD2])
qed

text \<open>A page is in use when its bit is set.\<close>

definition page_used :: "'a pmm_state_scheme \<Rightarrow> u64 \<Rightarrow> bool" where
  "page_used s idx \<longleftrightarrow> bit (mem s (bitmap_addr s idx)) (unat (idx AND 7))"

lemma bitmap_test_iff: "bitmap_test s idx = 0 \<longleftrightarrow> \<not> page_used s idx"
  by (simp add: bitmap_test_def page_used_def word_and_1_eq_0 bit_simps)

lemma bit_or_push: "k < 8 \<Longrightarrow> bit (b OR push_bit l 1) k \<longleftrightarrow> bit b k \<or> k = l" for b :: u8
  by (auto simp: bit_simps)

lemma bit_and_not_push: "k < 8 \<Longrightarrow> bit (b AND NOT (push_bit l 1)) k \<longleftrightarrow> bit b k \<and> k \<noteq> l"
  for b :: u8
  by (auto simp: bit_simps)

lemma bit_position_less: "unat (idx AND 7) < 8" for idx :: u64
  by (simp add: unat_and_7)

lemma same_bit_iff:
  "i = j \<longleftrightarrow> drop_bit 3 i = drop_bit 3 j \<and> unat (i AND 7) = unat (j AND 7)" for i j :: u64
  using bitmap_index_inj [of i j] by blast

lemma page_used_bitmap_set: "page_used (bitmap_set i s) j \<longleftrightarrow> j = i \<or> page_used s j"
proof (cases "drop_bit 3 j = drop_bit 3 i")
  case True
  then show ?thesis
    unfolding page_used_def bitmap_set_def bitmap_addr_def Let_def same_bit_iff [of j i] True
    by (simp add: bit_or_push [OF bit_position_less] del: push_bit_of_1) blast
next
  case False
  then show ?thesis
    unfolding page_used_def bitmap_set_def bitmap_addr_def Let_def same_bit_iff [of j i] by simp
qed

lemma page_used_bitmap_clear: "page_used (bitmap_clear i s) j \<longleftrightarrow> j \<noteq> i \<and> page_used s j"
proof (cases "drop_bit 3 j = drop_bit 3 i")
  case True
  then show ?thesis
    unfolding page_used_def bitmap_clear_def bitmap_addr_def Let_def same_bit_iff [of j i] True
    by (simp add: bit_and_not_push [OF bit_position_less] del: push_bit_of_1) blast
next
  case False
  then show ?thesis
    unfolding page_used_def bitmap_clear_def bitmap_addr_def Let_def same_bit_iff [of j i] by simp
qed

interpretation bitmap: bitset page_used bitmap_set bitmap_clear
  by unfold_locales (rule page_used_bitmap_set page_used_bitmap_clear)+

section \<open>First fit\<close>

text \<open>\<open>fits s r n\<close>: \<open>n\<close> consecutive free pages start at page \<open>r\<close>.\<close>

definition fits :: "'a pmm_state_scheme \<Rightarrow> nat \<Rightarrow> nat \<Rightarrow> bool" where
  "fits s r n \<longleftrightarrow> r + n \<le> unat (g_total_pages s) \<and>
     (\<forall>k. r \<le> k \<and> k < r + n \<longrightarrow> \<not> page_used s (of_nat k))"

text \<open>
  The scan at page \<open>i\<close>: the \<open>run\<close> pages before \<open>i\<close> are free, \<open>run_start\<close> is where they
  begin, and nothing fits earlier.
\<close>

definition scan_inv :: "'a pmm_state_scheme \<Rightarrow> nat \<Rightarrow> u64 \<Rightarrow> u64 \<Rightarrow> u64 \<Rightarrow> bool" where
  "scan_inv s n i run rs \<longleftrightarrow>
     unat run < n \<and> run \<le> i \<and> i \<le> g_total_pages s \<and>
     (\<forall>k. unat i - unat run \<le> k \<and> k < unat i \<longrightarrow> \<not> page_used s (of_nat k)) \<and>
     (run \<noteq> 0 \<longrightarrow> rs = i - run) \<and>
     (\<forall>r. r < unat i - unat run \<longrightarrow> \<not> fits s r n)"

definition scan_result :: "'a pmm_state_scheme \<Rightarrow> nat \<Rightarrow> u64 option \<Rightarrow> bool" where
  "scan_result s n res \<longleftrightarrow>
     (case res of
        None \<Rightarrow> \<forall>r. \<not> fits s r n
      | Some r \<Rightarrow> fits s (unat r) n \<and> (\<forall>r'. r' < unat r \<longrightarrow> \<not> fits s r' n))"

lemma scan_inv_start: "0 < n \<Longrightarrow> scan_inv s n 0 0 0"
  by (simp add: scan_inv_def)

lemma scan_inv_end:
  assumes "scan_inv s n i run rs" "\<not> i < g_total_pages s"
  shows "scan_result s n None"
  using assms
  by (auto simp: scan_inv_def scan_result_def fits_def word_le_nat_alt word_less_nat_alt)

lemma scan_inv_used:
  assumes inv: "scan_inv s n i run rs" and i: "i < g_total_pages s" and u: "page_used s i"
  shows "scan_inv s n (i + 1) 0 rs"
proof -
  have "\<not> fits s r n" if r: "r < Suc (unat i)" for r
  proof (cases "r < unat i - unat run")
    case True
    then show ?thesis using inv by (simp add: scan_inv_def)
  next
    case False
    then have "r \<le> unat i \<and> unat i < r + n"
      using r inv by (auto simp: scan_inv_def word_le_nat_alt)
    then show ?thesis using u by (auto simp: fits_def)
  qed
  then show ?thesis
    using inv inc_le_of_less [OF i] by (simp add: scan_inv_def unat_Suc_less [OF i])
qed

text \<open>One more free page extends the run.\<close>

lemma scan_free_run:
  assumes inv: "scan_inv s n i run rs" and i: "i < g_total_pages s" and u: "\<not> page_used s i"
  defines "rs' \<equiv> (if run = 0 then i else rs)"
  shows "unat (run + 1) = Suc (unat run)" "rs' = i - run" "unat rs' = unat i - unat run"
    "\<forall>k. unat i - unat run \<le> k \<and> k < Suc (unat i) \<longrightarrow> \<not> page_used s (of_nat k)"
proof -
  from inv have run: "run \<le> i" by (simp add: scan_inv_def)
  with i have "run < g_total_pages s" by simp
  then show "unat (run + 1) = Suc (unat run)" by (rule unat_Suc_less)
  show rs': "rs' = i - run" using inv by (simp add: scan_inv_def rs'_def)
  show "unat rs' = unat i - unat run" by (simp add: rs' unat_sub_le [OF run])
  show "\<forall>k. unat i - unat run \<le> k \<and> k < Suc (unat i) \<longrightarrow> \<not> page_used s (of_nat k)"
    using inv u by (auto simp: scan_inv_def less_Suc_eq)
qed

lemma scan_inv_free:
  assumes inv: "scan_inv s n i run rs" and i: "i < g_total_pages s" and u: "\<not> page_used s i"
    and more: "unat (run + 1) \<noteq> n"
  shows "scan_inv s n (i + 1) (run + 1) (if run = 0 then i else rs)"
proof -
  note f = scan_free_run [OF inv i u]
  have "unat run < n" "run \<le> i" using inv by (simp_all add: scan_inv_def)
  then show ?thesis
    using inv f more inc_le_of_less [OF i]
    by (simp add: scan_inv_def unat_Suc_less [OF i] word_le_nat_alt)
qed

lemma scan_found:
  assumes inv: "scan_inv s n i run rs" and i: "i < g_total_pages s" and u: "\<not> page_used s i"
    and n: "unat (run + 1) = n"
  shows "scan_result s n (Some (if run = 0 then i else rs))"
proof -
  note f = scan_free_run [OF inv i u]
  have "unat run \<le> unat i" using inv by (simp add: scan_inv_def word_le_nat_alt)
  with f(1) n have "unat i - unat run + n = Suc (unat i)" by simp
  with f inv i show ?thesis
    by (simp add: scan_result_def scan_inv_def fits_def word_less_nat_alt)
qed

lemma pmm_scan_first_fit:
  "scan_inv s (unat n) i run rs \<Longrightarrow> scan_result s (unat n) (pmm_scan s n i run rs)"
proof (induction s n i run rs rule: pmm_scan.induct)
  case (1 s n i run rs)
  note unfold = pmm_scan.simps [of s n i run rs]
  show ?case
  proof (cases "i < g_total_pages s")
    case False
    with "1.prems" show ?thesis using scan_inv_end by (simp add: unfold)
  next
    case i: True
    show ?thesis
    proof (cases "page_used s i")
      case True
      with 1(2) i scan_inv_used [OF "1.prems" i] show ?thesis
        by (simp add: unfold bitmap_test_iff)
    next
      case free: False
      show ?thesis
      proof (cases "run + 1 = n")
        case True
        then show ?thesis
          using scan_found [OF "1.prems" i free] i free by (simp add: unfold bitmap_test_iff Let_def)
      next
        case False
        then have "unat (run + 1) \<noteq> unat n" by (simp add: word_unat_eq_iff)
        from scan_inv_free [OF "1.prems" i free this] False i free show ?thesis
          using 1(1) by (simp add: unfold bitmap_test_iff Let_def)
      qed
    qed
  qed
qed

section \<open>Allocation against its specification\<close>

text \<open>The abstract allocator: a set of free page numbers, and first fit on it.\<close>

definition free_pages :: "'a pmm_state_scheme \<Rightarrow> nat set" where
  "free_pages s = {k. k < unat (g_total_pages s) \<and> \<not> page_used s (of_nat k)}"

definition first_fit :: "nat \<Rightarrow> nat set \<Rightarrow> nat option" where
  "first_fit n F =
     (if \<exists>r. {r..<r + n} \<subseteq> F then Some (LEAST r. {r..<r + n} \<subseteq> F) else None)"

text \<open>
  The invariant: fewer than \<open>2 ^ 52\<close> pages, so that page addresses do not wrap, and the free
  byte counter counts exactly the free pages.
\<close>

definition pmm_inv :: "'a pmm_state_scheme \<Rightarrow> bool" where
  "pmm_inv s \<longleftrightarrow>
     unat (g_total_pages s) < 2 ^ 52 \<and> unat (g_free_bytes s) = 4096 * card (free_pages s)"

lemma finite_free_pages [simp]: "finite (free_pages s)"
  by (rule finite_subset [of _ "{..<unat (g_total_pages s)}"]) (auto simp: free_pages_def)

lemma free_pages_less: "k \<in> free_pages s \<Longrightarrow> k < unat (g_total_pages s)"
  by (simp add: free_pages_def)

lemma mem_free_pages:
  "unat x \<in> free_pages s \<longleftrightarrow> x < g_total_pages s \<and> \<not> page_used s x"
  by (simp add: free_pages_def word_less_nat_alt)

lemma free_pages_unat:
  assumes "k < unat (g_total_pages s)"
  obtains x where "k = unat x" "x < g_total_pages s"
proof -
  have "k < 2 ^ 64" using assms unat_less_u64 less_trans by blast
  then have "k = unat (of_nat k :: u64)" by (simp add: unat_of_nat_u64)
  with assms that show ?thesis by (metis word_less_nat_alt)
qed

lemma fits_subset: "0 < n \<Longrightarrow> fits s r n \<longleftrightarrow> {r..<r + n} \<subseteq> free_pages s"
  by (fastforce simp: fits_def free_pages_def subset_iff Ball_def dest: spec [of _ "r + n - 1"])

lemma first_fit_scan:
  assumes "0 < unat n"
  shows "first_fit (unat n) (free_pages s) = map_option unat (pmm_scan s n 0 0 0)"
proof -
  have "scan_result s (unat n) (pmm_scan s n 0 0 0)"
    using assms by (intro pmm_scan_first_fit scan_inv_start)
  then show ?thesis
    using assms
    by (auto simp: scan_result_def first_fit_def fits_subset not_le split: option.splits
        intro!: Least_equality dest: leI)
qed

lemma first_fit_subset: "first_fit n F = Some r \<Longrightarrow> {r..<r + n} \<subseteq> F"
  by (auto simp: first_fit_def split: if_splits dest: LeastI)

text \<open>Marking a run of pages used, seen as a set.\<close>

lemma sub_less_iff_interval:
  fixes x a n :: u64
  assumes "unat a + unat n \<le> 2 ^ 64"
  shows "x - a < n \<longleftrightarrow> unat x \<in> {unat a..<unat a + unat n}"
  using assms unat_less_u64 [of x] by (auto simp: word_less_nat_alt unat_sub_if' word_le_nat_alt)

lemma free_pages_set_range:
  assumes "unat a + unat n \<le> 2 ^ 64"
    and "\<And>x. page_used t x \<longleftrightarrow> x - a < n \<or> page_used s x" "g_total_pages t = g_total_pages s"
  shows "free_pages t = free_pages s - {unat a..<unat a + unat n}"
proof (rule set_eqI)
  fix k
  show "k \<in> free_pages t \<longleftrightarrow> k \<in> free_pages s - {unat a..<unat a + unat n}"
  proof (cases "k < unat (g_total_pages s)")
    case True
    then obtain x where "k = unat x" "x < g_total_pages s" by (rule free_pages_unat)
    then show ?thesis
      using assms(2,3) sub_less_iff_interval [OF assms(1), of x]
      by (auto simp: mem_free_pages)
  next
    case False
    then show ?thesis using assms(3) by (auto dest: free_pages_less)
  qed
qed

lemma free_pages_clear_range:
  assumes "unat a + unat n \<le> unat (g_total_pages s)"
    and "\<And>x. page_used t x \<longleftrightarrow> \<not> (x - a < n \<and> x < g_total_pages s) \<and> page_used s x"
    and "g_total_pages t = g_total_pages s"
  shows "free_pages t = free_pages s \<union> {unat a..<unat a + unat n}"
proof (rule set_eqI)
  fix k
  have le: "unat a + unat n \<le> 2 ^ 64"
    using assms(1) unat_less_u64 [of "g_total_pages s"] by simp
  show "k \<in> free_pages t \<longleftrightarrow> k \<in> free_pages s \<union> {unat a..<unat a + unat n}"
  proof (cases "k < unat (g_total_pages s)")
    case True
    then obtain x where "k = unat x" "x < g_total_pages s" by (rule free_pages_unat)
    then show ?thesis
      using assms(2,3) sub_less_iff_interval [OF le, of x]
      by (auto simp: mem_free_pages)
  next
    case False
    then show ?thesis using assms(1,3) by (auto dest: free_pages_less)
  qed
qed

text \<open>What the bit loops leave alone.\<close>

lemma bitmap_frame [frame_simps]:
  "g_total_pages (bitmap_set i s) = g_total_pages s"
  "g_free_bytes (bitmap_set i s) = g_free_bytes s"
  "g_bitmap (bitmap_set i s) = g_bitmap s"
  "g_total_pages (bitmap_clear i s) = g_total_pages s"
  "g_free_bytes (bitmap_clear i s) = g_free_bytes s"
  "g_bitmap (bitmap_clear i s) = g_bitmap s"
  by (simp_all add: bitmap_set_def bitmap_clear_def Let_def)

lemma for_u64_frame:
  "(\<And>i s. g (f i s) = g s) \<Longrightarrow> g (for_u64 a b f s) = g s"
proof (induction a b f s rule: for_u64.induct)
  case (1 i n f s)
  then show ?case by (cases "i < n") (simp_all add: for_u64_step for_u64_done)
qed

lemma page_used_free_bytes [simp]: "page_used (s\<lparr>g_free_bytes := v\<rparr>) = page_used s"
  by (simp add: fun_eq_iff page_used_def bitmap_addr_def)

definition claim_run :: "u64 \<Rightarrow> u64 \<Rightarrow> 'a pmm_state_scheme \<Rightarrow> 'a pmm_state_scheme" where
  "claim_run a n s = for_u64 0 n (\<lambda>j s. bitmap_set (a + j) s) s"

lemma page_used_claim_run: "page_used (claim_run a n s) x \<longleftrightarrow> x - a < n \<or> page_used s x"
  unfolding claim_run_def by (rule bitmap.test_set_range)

lemma claim_run_frame [frame_simps]:
  "g_total_pages (claim_run a n s) = g_total_pages s"
  "g_free_bytes (claim_run a n s) = g_free_bytes s"
  unfolding claim_run_def by (rule for_u64_frame, simp add: frame_simps)+

lemma pmm_alloc_pages_eq:
  "pmm_alloc_pages n s =
     (if n = 0 then (0, s)
      else case pmm_scan s n 0 0 0 of
        None \<Rightarrow> (0, s)
      | Some r \<Rightarrow> (r * PAGE_SIZE,
          (claim_run r n s)\<lparr>g_free_bytes := g_free_bytes s - n * PAGE_SIZE\<rparr>))"
  by (simp add: pmm_alloc_pages_def claim_run_def [symmetric] Let_def frame_simps
      split: option.split)

lemma unat_PAGE_SIZE [simp]: "unat PAGE_SIZE = 4096"
  by (simp add: PAGE_SIZE_def)

lemma unat_pages: "unat n < 2 ^ 52 \<Longrightarrow> unat (n * PAGE_SIZE) = 4096 * unat n"
  by (subst unat_mult_no_wrap) simp_all

lemma pages_div: "unat n < 2 ^ 52 \<Longrightarrow> n * PAGE_SIZE div PAGE_SIZE = n"
  by (rule word_unat_eq_iff [THEN iffD2]) (simp add: unat_div unat_pages)

lemma free_pages_free_bytes [simp]: "free_pages (s\<lparr>g_free_bytes := v\<rparr>) = free_pages s"
  by (simp add: free_pages_def)

lemma card_run: "{r..<r + n} \<subseteq> F \<Longrightarrow> finite F \<Longrightarrow> n \<le> card F" for F :: "nat set"
  by (metis card_atLeastLessThan card_mono diff_add_inverse)

text \<open>The counter after a run is taken out of the free set, or put back into it.\<close>

lemma pmm_inv_claim:
  assumes inv: "pmm_inv s" and sub: "{unat r..<unat r + unat n} \<subseteq> free_pages s" and n: "0 < unat n"
  defines "t \<equiv> (claim_run r n s)\<lparr>g_free_bytes := g_free_bytes s - n * PAGE_SIZE\<rparr>"
  shows "pmm_inv t" "free_pages t = free_pages s - {unat r..<unat r + unat n}"
    "unat r + unat n \<le> unat (g_total_pages s)"
proof -
  have "unat r + unat n - 1 \<in> free_pages s" using sub n by auto
  then show le: "unat r + unat n \<le> unat (g_total_pages s)"
    using n by (auto dest: free_pages_less)
  then have le64: "unat r + unat n \<le> 2 ^ 64" using unat_less_u64 [of "g_total_pages s"] by simp
  show fp: "free_pages t = free_pages s - {unat r..<unat r + unat n}"
    unfolding t_def free_pages_free_bytes
    by (rule free_pages_set_range [OF le64])
      (simp_all add: page_used_claim_run frame_simps)
  have "unat n < 2 ^ 52" using le inv by (simp add: pmm_inv_def)
  then have bytes: "unat (n * PAGE_SIZE) = 4096 * unat n" by (rule unat_pages)
  have card: "card (free_pages t) = card (free_pages s) - unat n"
    unfolding fp using sub by (subst card_Diff_subset) auto
  have "unat n \<le> card (free_pages s)" using card_run [OF sub] by simp
  then have "n * PAGE_SIZE \<le> g_free_bytes s"
    using inv by (simp add: word_le_nat_alt bytes pmm_inv_def)
  then show "pmm_inv t"
    using inv card unfolding t_def
    by (simp add: pmm_inv_def frame_simps unat_sub_le bytes right_diff_distrib)
qed

section \<open>Properties of the allocator\<close>

text \<open>
  C3: \<open>pmm_alloc_pages\<close> refines first-fit allocation on the set of free pages: it fails, leaving
  the state alone, exactly when no run of the requested length is free, and otherwise returns
  the address of the lowest such run, removes exactly that run from the free set, and keeps
  the free-byte counter exact.
\<close>

theorem pmm_alloc_refines_first_fit:
  assumes "pmm_inv s" "n \<noteq> 0" "pmm_alloc_pages n s = (p, t)"
  shows "case first_fit (unat n) (free_pages s) of
      None \<Rightarrow> p = 0 \<and> t = s
    | Some r \<Rightarrow> unat p = 4096 * r \<and> {r..<r + unat n} \<subseteq> free_pages s \<and>
        free_pages t = free_pages s - {r..<r + unat n} \<and>
        unat (g_free_bytes t) + 4096 * unat n = unat (g_free_bytes s) \<and> pmm_inv t"
proof -
  have n: "0 < unat n" using assms(2) by (simp add: unat_gt_0)
  note ff = first_fit_scan [OF n, of s]
  show ?thesis
  proof (cases "pmm_scan s n 0 0 0")
    case None
    then show ?thesis using assms(2,3) ff by (simp add: pmm_alloc_pages_eq)
  next
    case (Some r)
    then have sub: "{unat r..<unat r + unat n} \<subseteq> free_pages s"
      using ff first_fit_subset by fastforce
    note claim = pmm_inv_claim [OF assms(1) sub n]
    have pt: "p = r * PAGE_SIZE"
      "t = (claim_run r n s)\<lparr>g_free_bytes := g_free_bytes s - n * PAGE_SIZE\<rparr>"
      using assms(2,3) Some by (simp_all add: pmm_alloc_pages_eq)
    have small: "unat r < 2 ^ 52"
      using claim(3) n assms(1) by (simp add: pmm_inv_def)
    have "card (free_pages t) + unat n = card (free_pages s)"
      using card_run [OF sub] sub unfolding pt(2) claim(2) by (subst card_Diff_subset) auto
    then have "unat (g_free_bytes t) + 4096 * unat n = unat (g_free_bytes s)"
      using claim(1) assms(1) unfolding pt(2) pmm_inv_def by simp
    then show ?thesis
      using ff Some claim sub small by (simp add: pt unat_pages)
  qed
qed

text \<open>Giving a run back.\<close>

lemma page_used_free_loop:
  "page_used (for_u64 0 n (\<lambda>j s. let idx = a + j in
      if idx < g_total_pages s then bitmap_clear idx s else s) s) x \<longleftrightarrow>
    \<not> (x - a < n \<and> x < g_total_pages s) \<and> page_used s x"
  by (rule bitmap.test_clr_range) (simp add: frame_simps)

lemma free_loop_frame:
  "g_total_pages (for_u64 0 n (\<lambda>j s. let idx = a + j in
      if idx < g_total_pages s then bitmap_clear idx s else s) s) = g_total_pages s"
  "g_free_bytes (for_u64 0 n (\<lambda>j s. let idx = a + j in
      if idx < g_total_pages s then bitmap_clear idx s else s) s) = g_free_bytes s"
  by (rule for_u64_frame, simp add: Let_def frame_simps)+

lemma pmm_free_pages_sets:
  assumes "unat r + unat n \<le> unat (g_total_pages s)" "unat (g_total_pages s) < 2 ^ 52"
    "r \<noteq> 0" "n \<noteq> 0"
  defines "t \<equiv> pmm_free_pages (r * PAGE_SIZE) n s"
  shows "free_pages t = free_pages s \<union> {unat r..<unat r + unat n}"
    "g_free_bytes t = g_free_bytes s + n * PAGE_SIZE" "g_total_pages t = g_total_pages s"
    "page_used t x \<longleftrightarrow> \<not> (x - r < n \<and> x < g_total_pages s) \<and> page_used s x"
proof -
  have small: "unat r < 2 ^ 52" using assms(1,2) by simp
  then have "r * PAGE_SIZE \<noteq> 0"
    using assms(3) unat_pages [of r] by (auto simp: word_unat_eq_iff)
  then have t: "t = (let s' = for_u64 0 n (\<lambda>j s. let idx = r + j in
      if idx < g_total_pages s then bitmap_clear idx s else s) s
    in s'\<lparr>g_free_bytes := g_free_bytes s' + n * PAGE_SIZE\<rparr>)"
    using assms(4) by (simp add: t_def pmm_free_pages_def pages_div [OF small])
  show "g_free_bytes t = g_free_bytes s + n * PAGE_SIZE" and tot: "g_total_pages t = g_total_pages s"
    unfolding t by (simp_all add: Let_def free_loop_frame [simplified Let_def])
  have used: "page_used t x \<longleftrightarrow> \<not> (x - r < n \<and> x < g_total_pages s) \<and> page_used s x" for x
    unfolding t Let_def page_used_free_bytes by (rule page_used_free_loop [unfolded Let_def])
  then show "page_used t x \<longleftrightarrow> \<not> (x - r < n \<and> x < g_total_pages s) \<and> page_used s x" .
  show "free_pages t = free_pages s \<union> {unat r..<unat r + unat n}"
    by (rule free_pages_clear_range [OF assms(1) used tot])
qed

lemma free_bytes_bound: "pmm_inv s \<Longrightarrow> card (free_pages s) \<le> unat (g_total_pages s)"
  using card_mono [of "{..<unat (g_total_pages s)}" "free_pages s"]
  by (auto dest: free_pages_less)

text \<open>
  Freeing a run of pages in use puts exactly that run back into the free set and keeps the
  free-byte counter exact.
\<close>

theorem pmm_free_restores:
  assumes "pmm_inv s" "r \<noteq> 0" "n \<noteq> 0" "unat r + unat n \<le> unat (g_total_pages s)"
    and "{unat r..<unat r + unat n} \<inter> free_pages s = {}"
  shows "free_pages (pmm_free_pages (r * PAGE_SIZE) n s) =
      free_pages s \<union> {unat r..<unat r + unat n} \<and>
    pmm_inv (pmm_free_pages (r * PAGE_SIZE) n s)"
proof -
  have T: "unat (g_total_pages s) < 2 ^ 52" using assms(1) by (simp add: pmm_inv_def)
  note fp = pmm_free_pages_sets [OF assms(4) T assms(2,3)]
  let ?t = "pmm_free_pages (r * PAGE_SIZE) n s"
  have card: "card (free_pages ?t) = card (free_pages s) + unat n"
    unfolding fp(1) using assms(5) by (subst card_Un_disjoint) auto
  have "free_pages ?t \<subseteq> {..<unat (g_total_pages s)}"
    using fp(3) by (auto dest: free_pages_less)
  then have "card (free_pages ?t) \<le> unat (g_total_pages s)"
    by (metis card_lessThan card_mono finite_lessThan)
  moreover have n: "unat n < 2 ^ 52" using assms(4) T by simp
  ultimately have "unat (g_free_bytes s) + unat (n * PAGE_SIZE) < 2 ^ 64"
    using assms(1) T card by (simp add: pmm_inv_def unat_pages [OF n])
  then have "unat (g_free_bytes ?t) = unat (g_free_bytes s) + 4096 * unat n"
    by (simp add: fp(2) unat_add_no_wrap unat_pages [OF n])
  then show ?thesis
    using fp(1,3) card assms(1) by (simp add: pmm_inv_def)
qed

text \<open>
  Allocating and freeing the same run is the identity on the bitmap and on the free-byte
  counter (for any run but the one at physical address 0, whose address is NULL).
\<close>

theorem pmm_alloc_free_roundtrip:
  assumes "pmm_inv s" "n \<noteq> 0" "pmm_alloc_pages n s = (p, t)" "p \<noteq> 0"
  shows "(\<forall>x. page_used (pmm_free_pages p n t) x = page_used s x) \<and>
    g_free_bytes (pmm_free_pages p n t) = g_free_bytes s"
proof -
  have n: "0 < unat n" using assms(2) by (simp add: unat_gt_0)
  from assms(2-4) obtain r where r: "pmm_scan s n 0 0 0 = Some r" "p = r * PAGE_SIZE"
    "t = (claim_run r n s)\<lparr>g_free_bytes := g_free_bytes s - n * PAGE_SIZE\<rparr>"
    by (auto simp: pmm_alloc_pages_eq split: option.splits)
  have sub: "{unat r..<unat r + unat n} \<subseteq> free_pages s"
    using first_fit_scan [OF n, of s] r(1) first_fit_subset by fastforce
  note claim = pmm_inv_claim [OF assms(1) sub n]
  have T: "unat (g_total_pages t) < 2 ^ 52"
    using assms(1) by (simp add: r(3) frame_simps pmm_inv_def)
  have le: "unat r + unat n \<le> unat (g_total_pages t)"
    using claim(3) by (simp add: r(3) frame_simps)
  have "r \<noteq> 0" using assms(4) r(2) by auto
  note fp = pmm_free_pages_sets [OF le T this assms(2)]
  have le64: "unat r + unat n \<le> 2 ^ 64" using le unat_less_u64 [of "g_total_pages t"] by simp
  have "page_used (pmm_free_pages p n t) x = page_used s x" for x
  proof (cases "x - r < n")
    case True
    then have "unat x \<in> free_pages s" using sub sub_less_iff_interval [OF le64] by auto
    then have "x < g_total_pages t" "\<not> page_used s x"
      by (simp_all add: mem_free_pages r(3) frame_simps)
    with True show ?thesis using fp(4) [of x] by (simp add: r(2))
  next
    case False
    then show ?thesis using fp(4) [of x] by (simp add: r(2,3) page_used_claim_run)
  qed
  moreover have "g_free_bytes (pmm_free_pages p n t) = g_free_bytes s"
    using fp(2) by (simp add: r(2,3))
  ultimately show ?thesis by blast
qed

text \<open>
  C40: Nothing stops a double free: freeing a page that is already free leaves the bitmap as it is
  and still adds a page to the free-byte counter, which is then wrong.
\<close>

theorem double_free_breaks_accounting:
  assumes "pmm_inv s" "r \<noteq> 0" "unat r \<in> free_pages s"
  shows "free_pages (pmm_free_pages (r * PAGE_SIZE) 1 s) = free_pages s \<and>
    g_free_bytes (pmm_free_pages (r * PAGE_SIZE) 1 s) = g_free_bytes s + PAGE_SIZE \<and>
    \<not> pmm_inv (pmm_free_pages (r * PAGE_SIZE) 1 s)"
proof -
  have T: "unat (g_total_pages s) < 2 ^ 52" using assms(1) by (simp add: pmm_inv_def)
  have "unat r + unat (1 :: u64) \<le> unat (g_total_pages s)"
    using free_pages_less [OF assms(3)] by simp
  note fp = pmm_free_pages_sets [OF this T assms(2), simplified]
  let ?t = "pmm_free_pages (r * PAGE_SIZE) 1 s"
  have same: "free_pages ?t = free_pages s" using fp(1) assms(3) by auto
  have "g_free_bytes s + PAGE_SIZE \<noteq> g_free_bytes s"
    by (simp add: PAGE_SIZE_def)
  then have "\<not> pmm_inv ?t"
    using assms(1) fp(2) same by (simp add: pmm_inv_def word_unat_eq_iff)
  then show ?thesis using fp(2) same by blast
qed

section \<open>Sixteen pages\<close>

text \<open>A memory of sixteen pages, of which page 0 is in use; the bitmap is at 0x1000.\<close>

definition demo_pmm :: pmm_state where
  "demo_pmm =
    \<lparr>trace = [], mem = (\<lambda>a. if a = 0x1000 then 1 else 0), cr3 = 0, msrs = (\<lambda>_. 0),
     limine_requests = initial_requests, g_boot_info = zero_boot_info,
     g_hhdm = 0, g_bitmap = 0x1000, g_bitmap_bytes = 2, g_total_bytes = 65536,
     g_free_bytes = 61440, g_total_pages = 16\<rparr>"

lemma demo_page_used: "k < 16 \<Longrightarrow> page_used demo_pmm (of_nat k) \<longleftrightarrow> k = 0"
proof -
  have "\<forall>k\<in>set [0..<16]. page_used demo_pmm (of_nat k) \<longleftrightarrow> k = 0" by code_simp
  then show "k < 16 \<Longrightarrow> page_used demo_pmm (of_nat k) \<longleftrightarrow> k = 0" by simp
qed

lemma demo_total_pages: "unat (g_total_pages demo_pmm) = 16"
  by (simp add: demo_pmm_def)

lemma demo_free_pages: "free_pages demo_pmm = {1..<16}"
proof (rule set_eqI)
  fix k
  show "k \<in> free_pages demo_pmm \<longleftrightarrow> k \<in> {1..<16}"
    using demo_page_used [of k] by (cases "k < 16") (auto simp: free_pages_def demo_total_pages)
qed

lemma demo_pmm_inv: "pmm_inv demo_pmm"
  unfolding pmm_inv_def demo_free_pages demo_total_pages by (simp add: demo_pmm_def)

lemma demo_first_fit: "first_fit 2 (free_pages demo_pmm) = Some 1"
proof -
  have "(LEAST r. {r..<r + 2} \<subseteq> {1..<16::nat}) = 1"
    by (rule Least_equality) auto
  then show ?thesis
    by (auto simp: first_fit_def demo_free_pages intro!: exI [of _ 1])
qed

lemma demo_scan: "pmm_scan demo_pmm 2 0 0 0 = Some 1"
  using first_fit_scan [of 2 demo_pmm] demo_first_fit
  by (cases "pmm_scan demo_pmm 2 0 0 0") (simp_all add: word_unat_eq_iff)

lemma demo_alloc:
  "\<exists>t. pmm_alloc_pages 2 demo_pmm = (0x1000, t)"
  by (simp add: pmm_alloc_pages_eq demo_scan PAGE_SIZE_def)

theorem pmm_alloc_refines_first_fit_witness:
  "\<exists>t. pmm_alloc_pages 2 demo_pmm = (0x1000, t) \<and> free_pages t = {3..<16} \<and> pmm_inv t"
proof -
  obtain t where t: "pmm_alloc_pages 2 demo_pmm = (0x1000, t)" using demo_alloc by blast
  have "{1..<16} - {1..<3} = {3..<16::nat}" by auto
  with pmm_alloc_refines_first_fit [OF demo_pmm_inv _ t] t show ?thesis
    by (simp add: demo_first_fit) (simp add: demo_free_pages numeral_3_eq_3)
qed

text \<open>The same memory with pages 5 and 6 taken as well.\<close>

definition demo_taken :: pmm_state where
  "demo_taken = demo_pmm\<lparr>mem := (\<lambda>a. if a = 0x1000 then 0x61 else 0), g_free_bytes := 53248\<rparr>"

lemma demo_taken_free: "free_pages demo_taken = {1..<5} \<union> {7..<16}"
proof (rule set_eqI)
  fix k
  have "\<forall>k\<in>set [0..<16]. page_used demo_taken (of_nat k) \<longleftrightarrow> k = 0 \<or> k = 5 \<or> k = 6"
    by code_simp
  then have "k < 16 \<Longrightarrow> page_used demo_taken (of_nat k) \<longleftrightarrow> k = 0 \<or> k = 5 \<or> k = 6" by simp
  moreover have "unat (g_total_pages demo_taken) = 16"
    by (simp add: demo_taken_def demo_pmm_def)
  ultimately show "k \<in> free_pages demo_taken \<longleftrightarrow> k \<in> {1..<5} \<union> {7..<16}"
    by (cases "k < 16") (auto simp: free_pages_def)
qed

lemma demo_taken_total: "unat (g_total_pages demo_taken) = 16"
  by (simp add: demo_taken_def demo_pmm_def)

lemma demo_taken_inv: "pmm_inv demo_taken"
proof -
  have "card ({1..<5} \<union> {7..<16::nat}) = 13" by (subst card_Un_disjoint) auto
  then show ?thesis
    unfolding pmm_inv_def demo_taken_free by (simp add: demo_taken_def demo_pmm_def)
qed

theorem pmm_free_restores_witness:
  "free_pages (pmm_free_pages 0x5000 2 demo_taken) = {1..<16} \<and>
   pmm_inv (pmm_free_pages 0x5000 2 demo_taken)"
proof -
  have sets: "({1..<5} \<union> {7..<16}) \<union> {5..<7} = {1..<16::nat}"
    "{5..<7::nat} \<inter> ({1..<5} \<union> {7..<16}) = {}" by auto
  have addr: "(5 :: u64) * PAGE_SIZE = 0x5000" by (simp add: PAGE_SIZE_def)
  have "unat (5 :: u64) + unat (2 :: u64) \<le> unat (g_total_pages demo_taken)"
    by (simp add: demo_taken_total)
  from pmm_free_restores [OF demo_taken_inv _ _ this] show ?thesis
    unfolding addr demo_taken_free using sets by (simp del: One_nat_def)
qed

theorem pmm_alloc_free_roundtrip_witness:
  "\<exists>t. pmm_alloc_pages 2 demo_pmm = (0x1000, t) \<and>
    g_free_bytes (pmm_free_pages 0x1000 2 t) = 61440"
proof -
  obtain t where t: "pmm_alloc_pages 2 demo_pmm = (0x1000, t)" using demo_alloc by blast
  with pmm_alloc_free_roundtrip [OF demo_pmm_inv _ t] show ?thesis
    by (simp add: demo_pmm_def)
qed

theorem double_free_breaks_accounting_witness:
  "\<not> pmm_inv (pmm_free_pages 0x5000 1 demo_pmm)"
proof -
  have "(5 :: u64) * PAGE_SIZE = 0x5000" by (simp add: PAGE_SIZE_def)
  then show ?thesis
    using double_free_breaks_accounting [OF demo_pmm_inv, of 5] by (simp add: demo_free_pages)
qed

end
