(* ===== verification/Print.thy ===== *)
theory Print
  imports Machine
begin

text \<open>
  The console of \<open>kernel/core/print.c\<close>, \<open>panic.c\<close> and the formatter \<open>kvprintf\<close>. Every
  character goes to the serial port \<open>0x3f8\<close>, so the output of a call is read off the
  trace of port writes (\<open>serial_out\<close>). A C string is the list of its characters before
  the terminating NUL; a variadic argument list is a list of typed slots, and taking a
  slot of another type, a missing slot, a read past the end of the format or a digit
  written outside \<open>buf[32]\<close> is a fault.
\<close>

section \<open>Characters on the serial line\<close>

definition byte_of_char :: "char \<Rightarrow> u8" where
  "byte_of_char c = of_nat (of_char c)"

definition char_of_byte :: "u8 \<Rightarrow> char" where
  "char_of_byte b = char_of (unat b)"

definition COM1 :: u16 where
  "COM1 = 0x3f8"

definition kputc :: "char \<Rightarrow> 'a machine_scheme \<Rightarrow> 'a machine_scheme" where
  "kputc c s = emit (EvOut COM1 (byte_of_char c)) s"

text \<open>\<open>while (*s) kputc(*s++);\<close> stops at the first NUL.\<close>

fun kputs :: "string \<Rightarrow> 'a machine_scheme \<Rightarrow> 'a machine_scheme" where
  "kputs [] s = s"
| "kputs (c # cs) s = (if c = CHR 0x00 then s else kputs cs (kputc c s))"

fun kprint :: "string \<Rightarrow> 'a machine_scheme \<Rightarrow> 'a machine_scheme" where
  "kprint [] s = s"
| "kprint (c # cs) s = (if c = CHR 0x00 then s else kprint cs (kputc c s))"

definition kprintln :: "string \<Rightarrow> 'a machine_scheme \<Rightarrow> 'a machine_scheme" where
  "kprintln str s = kputc (CHR 0x0A) (kprint str s)"

text \<open>\<open>panic\<close> prints its message and halts for good: the state it halts in.\<close>

definition panic :: "string \<Rightarrow> 'a machine_scheme \<Rightarrow> 'a machine_scheme" where
  "panic msg s = kprint [CHR 0x0A] (kprint msg (kprint (CHR 0x0A # ''[PANIC] '') s))"

definition arch_fatal :: "string \<Rightarrow> 'a machine_scheme \<Rightarrow> 'a machine_scheme" where
  "arch_fatal msg s = panic msg s"

section \<open>Numbers\<close>

definition hex_digit :: "u32 \<Rightarrow> char" where
  "hex_digit v = (if v < 10 then char_of (unat v + 48) else char_of (97 + (unat v - 10)))"

primrec hex_loop :: "nat \<Rightarrow> u64 \<Rightarrow> 'a machine_scheme \<Rightarrow> 'a machine_scheme" where
  "hex_loop 0 v s = s"
| "hex_loop (Suc i) v s = hex_loop i v (kprint [hex_digit (ucast (drop_bit (i * 4) v AND 0xf))] s)"

definition kprint_hex_u64 :: "u64 \<Rightarrow> 'a machine_scheme \<Rightarrow> 'a machine_scheme" where
  "kprint_hex_u64 v s = hex_loop 16 v (kprint ''0x'' s)"

definition digit_char :: "u64 \<Rightarrow> bool \<Rightarrow> char" where
  "digit_char d upper =
     (if d < 10 then char_of (48 + unat d)
      else char_of ((if upper then 65 else 97) + (unat d - 10)))"

text \<open>The digit loop of \<open>print_uint\<close>: least significant digit first, into \<open>buf[32]\<close>.\<close>

function uint_digits :: "u64 \<Rightarrow> u64 \<Rightarrow> bool \<Rightarrow> string \<Rightarrow> string outcome" where
  "uint_digits v base upper buf =
     (if v = 0 then Inr buf
      else if base = 0 then Inl DivideError
      else if 32 \<le> length buf then Inl BufferOverflow
      else uint_digits (v div base) base upper (buf @ [digit_char (v mod base) upper]))"
  by pat_completeness auto
termination
  by (relation "measure (\<lambda>(v, base, upper, buf). 32 - length buf)") auto

declare uint_digits.simps [simp del]

text \<open>\<open>while (i < width) { kputc(pad); width--; }\<close>\<close>

function pad_loop :: "int \<Rightarrow> int \<Rightarrow> char \<Rightarrow> 'a machine_scheme \<Rightarrow> 'a machine_scheme" where
  "pad_loop i width pad s =
     (if i < width then pad_loop i (width - 1) pad (kputc pad s) else s)"
  by pat_completeness auto
termination
  by (relation "measure (\<lambda>(i, width, pad, s). nat (width - i))") auto

declare pad_loop.simps [simp del]

definition print_uint ::
    "u64 \<Rightarrow> u64 \<Rightarrow> int \<Rightarrow> char \<Rightarrow> bool \<Rightarrow> 'a machine_scheme \<Rightarrow> 'a machine_scheme outcome" where
  "print_uint v base width pad upper s =
     bind_outcome (if v = 0 then Inr ''0'' else uint_digits v base upper [])
       (\<lambda>buf. Inr (fold kputc (rev buf) (pad_loop (int (length buf)) width pad s)))"

text \<open>The negated value is cast to \<open>uint8_t\<close> before it is printed, as in the source.\<close>

definition print_int :: "u64 \<Rightarrow> u64 \<Rightarrow> 'a machine_scheme \<Rightarrow> 'a machine_scheme outcome" where
  "print_int v base s =
     (if sint v < 0
      then print_uint (ucast (ucast (- v) :: u8)) base 0 CHR '' '' False (kputc CHR ''-'' s)
      else print_uint v base 0 CHR '' '' False s)"

section \<open>Formatted output\<close>

datatype karg =
    ArgInt u32
  | ArgU64 u64
  | ArgPtr u64
  | ArgStr "string option"

fun va_int :: "karg list \<Rightarrow> (u32 \<times> karg list) outcome" where
  "va_int (ArgInt w # as) = Inr (w, as)"
| "va_int _ = Inl BadVaArg"

fun va_u64 :: "karg list \<Rightarrow> (u64 \<times> karg list) outcome" where
  "va_u64 (ArgU64 w # as) = Inr (w, as)"
| "va_u64 _ = Inl BadVaArg"

fun va_ptr :: "karg list \<Rightarrow> (u64 \<times> karg list) outcome" where
  "va_ptr (ArgPtr w # as) = Inr (w, as)"
| "va_ptr _ = Inl BadVaArg"

fun va_str :: "karg list \<Rightarrow> (string option \<times> karg list) outcome" where
  "va_str (ArgStr p # as) = Inr (p, as)"
| "va_str _ = Inl BadVaArg"

definition is_digit_char :: "char \<Rightarrow> bool" where
  "is_digit_char c \<longleftrightarrow> (48::nat) \<le> of_char c \<and> of_char c \<le> (57::nat)"

text \<open>The width loop; \<open>int\<close> overflow of the width is undefined.\<close>

fun parse_width :: "string \<Rightarrow> int \<Rightarrow> (int \<times> string) outcome" where
  "parse_width [] width = Inr (width, [])"
| "parse_width (c # cs) width =
     (if is_digit_char c
      then let width' = width * 10 + (of_char c - 48)
           in if width' < 2 ^ 31 then parse_width cs width' else Inl IntOverflow
      else Inr (width, c # cs))"

definition kv_uint ::
    "u64 \<Rightarrow> karg list \<Rightarrow> u64 \<Rightarrow> int \<Rightarrow> char \<Rightarrow> bool \<Rightarrow> string \<Rightarrow> 'a machine_scheme \<Rightarrow>
      (string \<times> karg list \<times> 'a machine_scheme) outcome" where
  "kv_uint v args base width pad upper rest s =
     bind_outcome (print_uint v base width pad upper s) (\<lambda>s. Inr (rest, args, s))"

text \<open>
  One conversion: the \<open>switch (*fmt)\<close> of \<open>kvprintf\<close>, given the rest of the format after
  the conversion character. It returns the format position after the conversion.
\<close>

definition kv_conv ::
    "char \<Rightarrow> string \<Rightarrow> karg list \<Rightarrow> int \<Rightarrow> char \<Rightarrow> 'a machine_scheme \<Rightarrow>
      (string \<times> karg list \<times> 'a machine_scheme) outcome" where
  "kv_conv d rest args width pad s =
     (if d = CHR ''c'' then
        bind_outcome (va_int args) (\<lambda>(w, as). Inr (rest, as, kputc (char_of (unat w)) s))
      else if d = CHR ''s'' then
        bind_outcome (va_str args)
          (\<lambda>(p, as). Inr (rest, as, kputs (case p of None \<Rightarrow> ''(null)'' | Some str \<Rightarrow> str) s))
      else if d = CHR ''d'' \<or> d = CHR ''i'' then
        bind_outcome (va_int args)
          (\<lambda>(w, as). bind_outcome (print_int (scast w) 10 s) (\<lambda>s. Inr (rest, as, s)))
      else if d = CHR ''u'' then
        bind_outcome (va_int args) (\<lambda>(w, as). kv_uint (ucast w) as 10 width pad False rest s)
      else if d = CHR ''x'' then
        bind_outcome (va_int args) (\<lambda>(w, as). kv_uint (ucast w) as 16 width pad False rest s)
      else if d = CHR ''X'' then
        bind_outcome (va_int args) (\<lambda>(w, as). kv_uint (ucast w) as 16 width pad True rest s)
      else if d = CHR ''p'' then
        bind_outcome (va_ptr args)
          (\<lambda>(w, as). kv_uint w as 16 16 CHR ''0'' False rest (kputs ''0x'' s))
      else if d = CHR ''l'' then
        (case rest of
           l # rest' \<Rightarrow>
             if l = CHR ''l'' then
               (case rest' of
                  x # rest'' \<Rightarrow>
                    if x = CHR ''x'' then
                      bind_outcome (va_u64 args)
                        (\<lambda>(w, as). kv_uint w as 16 width pad False rest'' s)
                    else if x = CHR ''u'' then
                      bind_outcome (va_u64 args)
                        (\<lambda>(w, as). kv_uint w as 10 width pad False rest'' s)
                    else Inr (rest', args, s)
                | [] \<Rightarrow> Inr (rest', args, s))
             else Inr (rest, args, s)
         | [] \<Rightarrow> Inr (rest, args, s))
      else if d = CHR ''%'' then Inr (rest, args, kputc CHR ''%'' s)
      else Inr (rest, args, kputc d (kputc CHR ''%'' s)))"

text \<open>The \<open>0\<close> flag sets the pad character to the number 0, the NUL character.\<close>

definition parse_flag :: "string \<Rightarrow> char \<times> string" where
  "parse_flag fmt =
     (case fmt of
        c # rest \<Rightarrow> if c = CHR ''0'' then (CHR 0x00, rest) else (CHR '' '', fmt)
      | [] \<Rightarrow> (CHR '' '', fmt))"

lemma parse_width_length: "parse_width cs w = Inr (w', r) \<Longrightarrow> length r \<le> length cs"
  by (induction cs w rule: parse_width.induct) (auto simp: Let_def split: if_splits)

lemma parse_flag_length: "parse_flag cs = (p, r) \<Longrightarrow> length r \<le> length cs"
  by (auto simp: parse_flag_def split: list.splits if_splits)

lemma kv_conv_length:
  "kv_conv d rest args width pad s = Inr (r, as, s') \<Longrightarrow> length r \<le> length rest"
  by (auto simp: kv_conv_def kv_uint_def bind_outcome_Inr_iff split: if_splits list.splits)

text \<open>
  A \<open>%\<close> at the very end of the format makes the default branch print the terminating NUL
  and the loop then step over it: the next read is past the end of the string.
\<close>

function kvprintf ::
    "string \<Rightarrow> karg list \<Rightarrow> 'a machine_scheme \<Rightarrow> 'a machine_scheme outcome" where
  "kvprintf [] args s = Inr s"
| "kvprintf (c # fmt) args s =
     (if c \<noteq> CHR ''%'' then kvprintf fmt args (kputc c s)
      else
        (case parse_flag fmt of (pad, fmt1) \<Rightarrow>
          (case parse_width fmt1 0 of
             Inl e \<Rightarrow> Inl e
           | Inr (width, fmt2) \<Rightarrow>
               (case fmt2 of
                  [] \<Rightarrow> Inl ReadPastEnd
                | d # rest \<Rightarrow>
                    (case kv_conv d rest args width pad s of
                       Inl e \<Rightarrow> Inl e
                     | Inr (rest', args', s') \<Rightarrow> kvprintf rest' args' s')))))"
  by pat_completeness auto
termination
  by (relation "measure (\<lambda>(fmt, args, s). length fmt)")
    (auto dest!: parse_width_length parse_flag_length [OF sym] kv_conv_length)

definition kprintf :: "string \<Rightarrow> karg list \<Rightarrow> 'a machine_scheme \<Rightarrow> 'a machine_scheme outcome" where
  "kprintf fmt args s = kvprintf fmt args s"

definition kprintlnf :: "string \<Rightarrow> karg list \<Rightarrow> 'a machine_scheme \<Rightarrow> 'a machine_scheme outcome" where
  "kprintlnf fmt args s = bind_outcome (kvprintf fmt args s) (\<lambda>s. Inr (kputc (CHR 0x0A) s))"

section \<open>What was printed\<close>

definition serial_event :: "hw_event \<Rightarrow> string" where
  "serial_event e = (case e of EvOut p b \<Rightarrow> if p = COM1 then [char_of_byte b] else [] | _ \<Rightarrow> [])"

definition serial_out :: "'a machine_scheme \<Rightarrow> string" where
  "serial_out s = concat (map serial_event (trace s))"

lemma char_of_byte_of_char [simp]: "char_of_byte (byte_of_char c) = c"
proof -
  have "of_char c < (2::nat) ^ 8" using nat_of_char_less_256 [of c] by simp
  then show ?thesis
    by (simp add: char_of_byte_def byte_of_char_def unat_of_nat take_bit_nat_eq_self)
qed

lemma serial_out_kputc [simp]: "serial_out (kputc c s) = serial_out s @ [c]"
  by (simp add: kputc_def emit_def serial_out_def serial_event_def)

text \<open>Printing text is a fold of \<open>kputc\<close>; every printing function is brought to this form.\<close>

definition put_text :: "string \<Rightarrow> 'a machine_scheme \<Rightarrow> 'a machine_scheme" where
  "put_text str s = fold kputc str s"

lemma put_text_simps [simp]:
  "put_text [] s = s"
  "put_text (c # cs) s = put_text cs (kputc c s)"
  "put_text xs (put_text ys s) = put_text (ys @ xs) s"
  by (simp_all add: put_text_def)

lemma serial_out_put_text [simp]: "serial_out (put_text str s) = serial_out s @ str"
  by (induction str arbitrary: s) simp_all

lemma put_text_frame [frame_simps]:
  "mem (put_text str s) = mem s" "cr3 (put_text str s) = cr3 s" "msrs (put_text str s) = msrs s"
  by (induction str arbitrary: s) (simp_all add: kputc_def emit_def)

definition c_text :: "string \<Rightarrow> string" where
  "c_text str = takeWhile (\<lambda>c. c \<noteq> CHR 0x00) str"

lemma kputs_text: "kputs str s = put_text (c_text str) s"
  by (induction str arbitrary: s) (simp_all add: c_text_def)

lemma kprint_text: "kprint str s = put_text (c_text str) s"
  by (induction str arbitrary: s) (simp_all add: c_text_def)

lemma kprintln_text: "kprintln str s = put_text (c_text str @ [CHR 0x0A]) s"
  by (simp add: kprintln_def kprint_text flip: put_text_simps(3))

lemma pad_loop_text: "pad_loop i w c s = put_text (replicate (nat (w - i)) c) s"
proof (induction i w c s rule: pad_loop.induct)
  case (1 i w c s)
  show ?case
  proof (cases "i < w")
    case True
    then have "nat (w - i) = Suc (nat (w - 1 - i))" by simp
    with 1 [OF True] True show ?thesis by (simp add: pad_loop.simps [of i w c s])
  next
    case False
    then show ?thesis by (simp add: pad_loop.simps [of i w c s])
  qed
qed

section \<open>Correctness of the number printer\<close>

text \<open>Reading a number back: the value of a digit and of a digit string.\<close>

definition digit_val :: "char \<Rightarrow> nat" where
  "digit_val c =
     (let n = of_char c in if n < 58 then n - 48 else if n < 97 then n - 55 else n - 87)"

definition parse_uint :: "nat \<Rightarrow> string \<Rightarrow> nat" where
  "parse_uint base str = foldl (\<lambda>a c. a * base + digit_val c) 0 str"

lemma digit_val_digit_char: "unat d < 16 \<Longrightarrow> digit_val (digit_char d upper) = unat d"
  by (auto simp: digit_val_def digit_char_def Let_def word_less_nat_alt of_char_of take_bit_nat_eq_self)

lemma parse_uint_snoc: "parse_uint b (xs @ [c]) = parse_uint b xs * b + digit_val c"
  by (simp add: parse_uint_def)

lemma parse_uint_append:
  "parse_uint b (xs @ ys) = parse_uint b xs * b ^ length ys + parse_uint b ys"
proof (induction ys rule: rev_induct)
  case Nil
  then show ?case by (simp add: parse_uint_def)
next
  case (snoc c ys)
  then show ?case
    by (simp add: parse_uint_snoc algebra_simps flip: append_assoc)
qed

definition num_base :: "u64 \<Rightarrow> bool" where
  "num_base base \<longleftrightarrow> 2 \<le> unat base \<and> unat base \<le> 16"

lemma uint_digits_step:
  assumes "v \<noteq> 0" "num_base base" "length buf < 32"
  shows "uint_digits v base upper buf =
    uint_digits (v div base) base upper (buf @ [digit_char (v mod base) upper])"
proof -
  from assms(2) have "base \<noteq> 0" by (auto simp: num_base_def)
  with assms show ?thesis by (simp add: uint_digits.simps [of v base upper buf])
qed

text \<open>
  The digit loop never overruns its buffer when the value has at most as many digits as
  there is room; what it appends reads back as the value, with no leading zero.
\<close>

lemma uint_digits_correct:
  assumes "num_base base" "unat v < unat base ^ k" "length buf + k \<le> 32"
  shows "\<exists>ds. uint_digits v base upper buf = Inr (buf @ ds) \<and> length ds \<le> k \<and>
    parse_uint (unat base) (rev ds) = unat v \<and> (v \<noteq> 0 \<longrightarrow> ds \<noteq> [] \<and> digit_val (last ds) \<noteq> 0)"
  using assms(2,3)
proof (induction k arbitrary: v buf)
  case 0
  then have "v = 0" by (simp add: unat_eq_0)
  then show ?case by (simp add: uint_digits.simps parse_uint_def)
next
  case (Suc k)
  show ?case
  proof (cases "v = 0")
    case True
    then show ?thesis by (simp add: uint_digits.simps parse_uint_def)
  next
    case False
    let ?d = "digit_char (v mod base) upper"
    let ?q = "v div base"
    from assms(1) have b: "2 \<le> unat base" "unat base \<le> 16" by (auto simp: num_base_def)
    have q: "unat ?q < unat base ^ k"
      using Suc.prems(1) b by (simp add: unat_div less_mult_imp_div_less mult.commute)
    have dv: "digit_val ?d = unat v mod unat base"
      using b by (subst digit_val_digit_char) (auto simp: unat_mod intro: less_le_trans [OF mod_less_divisor])
    have len: "length (buf @ [?d]) + k \<le> 32" using Suc.prems(2) by simp
    from Suc.IH [OF q len] obtain ds where ds:
      "uint_digits ?q base upper (buf @ [?d]) = Inr ((buf @ [?d]) @ ds)" "length ds \<le> k"
      "parse_uint (unat base) (rev ds) = unat ?q"
      "?q \<noteq> 0 \<longrightarrow> ds \<noteq> [] \<and> digit_val (last ds) \<noteq> 0" by blast
    have "uint_digits v base upper buf = Inr (buf @ (?d # ds))"
      using uint_digits_step [OF False assms(1)] Suc.prems(2) ds(1) by simp
    moreover have "parse_uint (unat base) (rev (?d # ds)) = unat v"
      using ds(3) dv by (simp add: parse_uint_snoc unat_div)
    moreover have "digit_val (last (?d # ds)) \<noteq> 0"
    proof (cases "?q = 0")
      case True
      with False b have "unat v < unat base"
        by (metis div_eq_0_iff not_numeral_le_zero unat_div unat_eq_0)
      moreover from this ds(3) True have "ds = []"
        using ds(1) True by (simp add: uint_digits.simps)
      ultimately show ?thesis using dv False by (simp add: unat_eq_0)
    next
      case nz: False
      with ds(4) show ?thesis by simp
    qed
    ultimately show ?thesis using ds(2) by (intro exI [of _ "?d # ds"]) simp
  qed
qed

lemma print_uint_text:
  assumes "num_base base" "unat v < unat base ^ k" "0 < k" "k \<le> 32"
  shows "\<exists>ds. print_uint v base width pad upper s =
      Inr (put_text (replicate (nat (width - int (length ds))) pad @ ds) s) \<and>
    parse_uint (unat base) ds = unat v \<and> ds \<noteq> [] \<and> length ds \<le> k \<and>
    (digit_val (hd ds) = 0 \<longrightarrow> ds = ''0'')"
proof (cases "v = 0")
  case True
  then show ?thesis
    using assms(3)
    by (intro exI [of _ "''0''"])
      (simp add: print_uint_def parse_uint_def digit_val_def put_text_def pad_loop_text)
next
  case False
  from uint_digits_correct [OF assms(1,2), of "[]" upper] assms(4) False
  obtain ds where ds: "uint_digits v base upper [] = Inr ds" "length ds \<le> k"
    "parse_uint (unat base) (rev ds) = unat v" "ds \<noteq> []" "digit_val (last ds) \<noteq> 0" by auto
  then show ?thesis
    using False
    by (intro exI [of _ "rev ds"])
      (auto simp: print_uint_def pad_loop_text hd_rev simp flip: put_text_def)
qed

lemma char_of_neq_nul: "0 < n \<Longrightarrow> n < 256 \<Longrightarrow> char_of (n :: nat) \<noteq> CHR 0x00"
proof
  assume n: "0 < n" "n < 256" "char_of n = CHR 0x00"
  then have "of_char (char_of n) = (of_char (CHR 0x00) :: nat)" by simp
  with n(1,2) show False by simp
qed

lemma hex_digit_props:
  assumes "unat v < 16"
  shows "c_text [hex_digit v] = [hex_digit v]" "digit_val (hex_digit v) = unat v"
proof -
  have "hex_digit v = char_of (if unat v < 10 then unat v + 48 else 97 + (unat v - 10))"
    by (simp add: hex_digit_def word_less_nat_alt)
  then show "c_text [hex_digit v] = [hex_digit v]" "digit_val (hex_digit v) = unat v"
    using assms by (auto simp: c_text_def digit_val_def Let_def char_of_neq_nul)
qed

lemma nibble_unat64: "unat (drop_bit (i * 4) (v :: u64) AND 0xf) = unat v div 16 ^ i mod 16"
proof -
  have "(0xf :: u64) = mask 4" by (simp add: mask_eq_exp_minus_1)
  then have "unat (drop_bit (i * 4) v AND 0xf) = unat v div 2 ^ (i * 4) mod 2 ^ 4"
    by (simp only: unat_and_mask unat_drop_bit)
  moreover have "(2::nat) ^ (i * 4) = 16 ^ i"
    by (simp add: mult.commute [of i] power_mult)
  ultimately show ?thesis by simp
qed

lemma nibble_unat: "unat (ucast (drop_bit (i * 4) (v :: u64) AND 0xf) :: u32) = unat v div 16 ^ i mod 16"
  using nibble_unat64 [of i v] by (simp add: unsigned_ucast_eq take_bit_nat_eq_self)

lemma hex_loop_text:
  "\<exists>ds. (\<forall>s :: 'a machine_scheme. hex_loop i v s = put_text ds s) \<and> length ds = i \<and>
    parse_uint 16 ds = unat v mod 16 ^ i"
proof (induction i)
  case 0
  show ?case by (simp add: parse_uint_def)
next
  case (Suc i)
  then obtain ds where ds: "\<And>s :: 'a machine_scheme. hex_loop i v s = put_text ds s" "length ds = i"
    "parse_uint 16 ds = unat v mod 16 ^ i" by auto
  let ?n = "ucast (drop_bit (i * 4) v AND 0xf) :: u32"
  have lt: "unat ?n < 16" by (simp add: nibble_unat)
  have "parse_uint 16 (hex_digit ?n # ds) = (unat v div 16 ^ i mod 16) * 16 ^ i + unat v mod 16 ^ i"
    using parse_uint_append [of 16 "[hex_digit ?n]" ds] ds(2,3)
    by (simp only: append.simps hex_digit_props(2) [OF lt] nibble_unat parse_uint_def foldl.simps) simp
  also have "\<dots> = unat v mod 16 ^ Suc i"
    by (simp only: power_Suc2 mod_mult2_eq mult.commute [of _ "16 ^ i"])
  finally have "parse_uint 16 (hex_digit ?n # ds) = unat v mod 16 ^ Suc i" .
  then show ?case
    using ds(1,2) by (intro exI [of _ "hex_digit ?n # ds"]) (simp add: kprint_text hex_digit_props [OF lt])
qed

section \<open>Properties of the console\<close>

text \<open>
  C33: Printing a \<open>uint64_t\<close> in base 10 or 16 never overruns \<open>buf[32]\<close>: it emits the padding
  up to the requested width and then at most 20 digits, which have no leading zero and read
  back as exactly the value.
\<close>

theorem print_uint_roundtrip:
  assumes "base = 10 \<or> base = 16"
  shows "\<exists>ds s'. print_uint v base width pad upper s = Inr s' \<and>
    serial_out s' = serial_out s @ replicate (nat (width - int (length ds))) pad @ ds \<and>
    parse_uint (unat base) ds = unat v \<and> ds \<noteq> [] \<and> length ds \<le> 20 \<and>
    (digit_val (hd ds) = 0 \<longrightarrow> ds = ''0'')"
proof -
  have "num_base base" "unat v < unat base ^ 20"
    using assms unat_less_u64 [of v] by (auto simp: num_base_def)
  from print_uint_text [OF this, of width pad upper s]
  obtain ds where "print_uint v base width pad upper s =
      Inr (put_text (replicate (nat (width - int (length ds))) pad @ ds) s)"
    "parse_uint (unat base) ds = unat v" "ds \<noteq> []" "length ds \<le> 20"
    "digit_val (hd ds) = 0 \<longrightarrow> ds = ''0''" by auto
  then show ?thesis by (intro exI [of _ ds]) simp
qed

theorem print_uint_roundtrip_witness:
  "\<exists>ds s'. print_uint 1234 10 8 CHR '' '' False
      \<lparr>trace = [], mem = \<lambda>_. 0, cr3 = 0, msrs = \<lambda>_. 0\<rparr> = Inr s' \<and>
    serial_out s' = replicate (nat (8 - int (length ds))) CHR '' '' @ ds \<and>
    parse_uint 10 ds = 1234 \<and> ds \<noteq> [] \<and> length ds \<le> 20 \<and> (digit_val (hd ds) = 0 \<longrightarrow> ds = ''0'')"
  using print_uint_roundtrip [of 10 1234 8 "CHR '' ''" False
      "\<lparr>trace = [], mem = \<lambda>_. 0, cr3 = 0, msrs = \<lambda>_. 0\<rparr>"]
  by (simp add: serial_out_def)

text \<open>
  \<open>kprint_hex_u64\<close> emits \<open>0x\<close> followed by exactly 16 hexadecimal digits that read back as
  the value.
\<close>

theorem kprint_hex_u64_roundtrip:
  "\<exists>ds. serial_out (kprint_hex_u64 v s) = serial_out s @ ''0x'' @ ds \<and> length ds = 16 \<and>
    parse_uint 16 ds = unat v"
proof -
  from hex_loop_text [of 16 v] obtain ds where
    "\<forall>s :: 'a machine_scheme. hex_loop 16 v s = put_text ds s" "length ds = 16"
    "parse_uint 16 ds = unat v mod 16 ^ 16" by blast
  moreover have "unat v mod 16 ^ 16 = unat v" using unat_less_u64 [of v] by simp
  ultimately show ?thesis
    by (intro exI [of _ ds]) (simp add: kprint_hex_u64_def kprint_text c_text_def)
qed

text \<open>
  The formatter treats the console as append-only: whether it faults and what it prints
  depend on the format and its arguments only.
\<close>

definition prints :: "('a machine_scheme \<Rightarrow> 'a machine_scheme outcome) \<Rightarrow> bool" where
  "prints f \<longleftrightarrow> (\<exists>e. \<forall>s. f s = Inl e) \<or> (\<exists>str. \<forall>s. f s = Inr (put_text str s))"

lemma printsI [intro]: "(\<And>s. f s = Inr (put_text str s)) \<Longrightarrow> prints f"
  by (auto simp: prints_def)

lemma prints_fault [simp, intro]: "prints (\<lambda>s. Inl e)"
  by (auto simp: prints_def)

lemma prints_bind: "prints f \<Longrightarrow> prints g \<Longrightarrow> prints (\<lambda>s. bind_outcome (f s) g)"
  by (auto simp: prints_def)

lemma prints_put: "prints f \<Longrightarrow> prints (\<lambda>s. f (put_text str s))"
  by (auto simp: prints_def)

lemma prints_kputc: "prints f \<Longrightarrow> prints (\<lambda>s. f (kputc c s))"
  using prints_put [of f "[c]"] by simp

lemma prints_print_uint: "prints (print_uint v base width pad upper)"
  unfolding prints_def print_uint_def pad_loop_text
  by (cases "if v = 0 then Inr ''0'' else uint_digits v base upper []")
    (simp_all flip: put_text_def, blast)

text \<open>One conversion, uniformly in the state: a fault, or a new position and printed text.\<close>

definition conv_prints :: "string \<Rightarrow>
    ('a machine_scheme \<Rightarrow> (string \<times> karg list \<times> 'a machine_scheme) outcome) \<Rightarrow> bool" where
  "conv_prints rest f \<longleftrightarrow> (\<exists>e. \<forall>s. f s = Inl e) \<or>
     (\<exists>rest' args' str. length rest' \<le> length rest \<and> (\<forall>s. f s = Inr (rest', args', put_text str s)))"

lemma conv_prints_fault: "conv_prints rest (\<lambda>s. Inl e)"
  by (auto simp: conv_prints_def)

lemma conv_prints_bind:
  "(\<And>a. x = Inr a \<Longrightarrow> conv_prints rest (\<lambda>s. f a s)) \<Longrightarrow>
    conv_prints rest (\<lambda>s. bind_outcome x (\<lambda>a. f a s))"
  by (cases x) (auto simp: conv_prints_def)

lemma conv_prints_text:
  "length rest' \<le> length rest \<Longrightarrow> (\<And>s. f s = Inr (rest', args', put_text str s)) \<Longrightarrow>
    conv_prints rest f"
  by (auto simp: conv_prints_def)

lemma conv_prints_lift:
  assumes "prints f" "length rest' \<le> length rest"
  shows "conv_prints rest (\<lambda>s. bind_outcome (f s) (\<lambda>s. Inr (rest', as, s)))"
  using assms unfolding prints_def
  by (elim disjE exE) (auto intro: conv_prints_text simp: conv_prints_def)

lemma conv_prints_uint:
  "length rest' \<le> length rest \<Longrightarrow>
    conv_prints rest (\<lambda>s. kv_uint v as base width pad upper rest' (put_text str s))"
  unfolding kv_uint_def by (intro conv_prints_lift prints_put prints_print_uint)

lemma conv_prints_uint0:
  "length rest' \<le> length rest \<Longrightarrow>
    conv_prints rest (\<lambda>s. kv_uint v as base width pad upper rest' s)"
  using conv_prints_uint [of rest' rest v as base width pad upper "[]"] by simp

lemma prints_print_int: "prints (print_int v base)"
proof (cases "sint v < 0")
  case True
  then show ?thesis
    using prints_kputc [OF prints_print_uint] by (simp add: print_int_def [abs_def])
next
  case False
  then show ?thesis using prints_print_uint by (simp add: print_int_def [abs_def])
qed

lemma conv_prints_int:
  "conv_prints rest (\<lambda>s. bind_outcome (print_int v base s) (\<lambda>s. Inr (rest, as, s)))"
  by (intro conv_prints_lift prints_print_int) simp

lemma conv_prints_put: "length rest' \<le> length rest \<Longrightarrow> conv_prints rest (\<lambda>s. Inr (rest', as, s))"
  by (rule conv_prints_text [where str = "[]"]) simp_all

lemma conv_prints_kputc:
  "conv_prints rest (\<lambda>s. Inr (rest, as, kputc c s))"
  "conv_prints rest (\<lambda>s. Inr (rest, as, kputc c (kputc d s)))"
  by (rule conv_prints_text [where str = "[c]"] conv_prints_text [where str = "[d, c]"]; simp)+

lemma conv_prints_kputs: "conv_prints rest (\<lambda>s. Inr (rest, as, kputs str s))"
  by (rule conv_prints_text [where str = "c_text str"]) (simp_all add: kputs_text)

lemma conv_prints_uint_kputs:
  "length rest' \<le> length rest \<Longrightarrow>
    conv_prints rest (\<lambda>s. kv_uint v as base width pad upper rest' (kputs str s))"
  unfolding kputs_text by (rule conv_prints_uint)

lemma conv_prints_if:
  "(P \<Longrightarrow> conv_prints rest f) \<Longrightarrow> (\<not> P \<Longrightarrow> conv_prints rest g) \<Longrightarrow>
    conv_prints rest (\<lambda>s. if P then f s else g s)"
  by (cases P) simp_all

lemma conv_prints_prod:
  "(\<And>x y. a = (x, y) \<Longrightarrow> conv_prints rest (\<lambda>s. f x y s)) \<Longrightarrow>
    conv_prints rest (\<lambda>s. case a of (x, y) \<Rightarrow> f x y s)"
  by (cases a) simp

lemma conv_prints_list:
  "(xs = [] \<Longrightarrow> conv_prints rest f) \<Longrightarrow>
    (\<And>y ys. xs = y # ys \<Longrightarrow> conv_prints rest (\<lambda>s. g y ys s)) \<Longrightarrow>
    conv_prints rest (\<lambda>s. case xs of [] \<Rightarrow> f s | y # ys \<Rightarrow> g y ys s)"
  by (cases xs) simp_all

lemmas conv_prints_rules =
  conv_prints_fault conv_prints_if conv_prints_list conv_prints_prod conv_prints_bind
  conv_prints_int conv_prints_uint_kputs conv_prints_uint0 conv_prints_kputs
  conv_prints_kputc conv_prints_put

lemma conv_prints_kv_conv: "conv_prints rest (\<lambda>s. kv_conv d rest args width pad s)"
  unfolding kv_conv_def by (intro conv_prints_rules) simp_all

lemma prints_kvprintf: "prints (\<lambda>s :: 'a machine_scheme. kvprintf fmt args s)"
proof (induction "length fmt" arbitrary: fmt args rule: less_induct)
  case less
  show ?case
  proof (cases fmt)
    case Nil
    then show ?thesis by (auto intro: printsI [where str = "[]"])
  next
    case (Cons c fmt0)
    obtain pad fmt1 where flag: "parse_flag fmt0 = (pad, fmt1)" by fastforce
    consider (plain) "c \<noteq> CHR ''%''"
      | (badw) e where "c = CHR ''%''" "parse_width fmt1 0 = Inl e"
      | (stop) w where "c = CHR ''%''" "parse_width fmt1 0 = Inr (w, [])"
      | (conv) w d rest where "c = CHR ''%''" "parse_width fmt1 0 = Inr (w, d # rest)"
      by (cases "parse_width fmt1 0") (auto, metis list.exhaust surj_pair)
    then show ?thesis
    proof cases
      case plain
      then have "kvprintf fmt args = (\<lambda>s :: 'a machine_scheme. kvprintf fmt0 args (kputc c s))"
        using Cons by (simp add: fun_eq_iff)
      moreover have "prints (\<lambda>s :: 'a machine_scheme. kvprintf fmt0 args s)" using less Cons by simp
      ultimately show ?thesis using prints_kputc by simp
    next
      case conv
      have "length rest < length fmt"
        using parse_flag_length [OF flag] parse_width_length [OF conv(2)] Cons by simp
      then have IH: "length r \<le> length rest \<Longrightarrow> prints (\<lambda>s :: 'a machine_scheme. kvprintf r as s)" for r as
        by (intro less) simp
      from conv_prints_kv_conv [of rest d args w pad, where 'a = 'a]
      consider e where "\<And>s :: 'a machine_scheme. kv_conv d rest args w pad s = Inl e"
        | r as str where "length r \<le> length rest"
            "\<And>s :: 'a machine_scheme. kv_conv d rest args w pad s = Inr (r, as, put_text str s)"
        unfolding conv_prints_def by blast
      then show ?thesis
      proof cases
        case 1
        then show ?thesis using Cons conv flag by (simp add: prints_def)
      next
        case 2
        then have "kvprintf fmt args = (\<lambda>s :: 'a machine_scheme. kvprintf r as (put_text str s))"
          using Cons conv flag by (simp add: fun_eq_iff)
        then show ?thesis using prints_put [OF IH [OF 2(1)]] by simp
      qed
    qed (use Cons flag in \<open>simp_all add: prints_def\<close>)
  qed
qed

text \<open>
  The formatter is append-only: whether it faults, and the text it emits, are determined by
  the format and the arguments; memory and registers are left alone.
\<close>

theorem kvprintf_appends:
  "(\<exists>e. \<forall>s :: 'a machine_scheme. kvprintf fmt args s = Inl e) \<or>
   (\<exists>str. \<forall>s :: 'a machine_scheme. \<exists>s'. kvprintf fmt args s = Inr s' \<and> serial_out s' = serial_out s @ str \<and>
      mem s' = mem s \<and> cr3 s' = cr3 s \<and> msrs s' = msrs s)"
  using prints_kvprintf [of fmt args] unfolding prints_def
proof (elim disjE exE)
  fix str
  assume "\<forall>s :: 'a machine_scheme. kvprintf fmt args s = Inr (put_text str s)"
  then show ?thesis by (intro disjI2 exI [of _ str] allI) (simp add: frame_simps)
qed blast

lemma scast_unat_u8:
  "unat (ucast (- (scast (w :: u32) :: u64)) :: u8) = nat ((- sint w) mod 256)"
proof -
  have "- (scast w :: u64) = word_of_int (- sint w)"
    by (simp only: scast_eq wi_hom_neg)
  then have "uint (ucast (- (scast w :: u64)) :: u8) = take_bit 8 (take_bit 64 (- sint w))"
    by (simp only: unsigned_ucast_eq uint_word_of_int_eq) simp
  then have "uint (ucast (- (scast w :: u64)) :: u8) = (- sint w) mod 256"
    by (simp add: take_bit_eq_mod mod_mod_cancel)
  then show ?thesis by (simp flip: nat_uint_eq)
qed

text \<open>
  \<open>%d\<close> on a negative argument prints a minus sign and the magnitude modulo 256, because
  \<open>print_int\<close> casts the negated value to \<open>uint8_t\<close>: only magnitudes below 256 come out right.
\<close>

theorem percent_d_negative:
  assumes "sint w < 0"
  shows "\<exists>ds s'. kvprintf ''%d'' [ArgInt w] s = Inr s' \<and>
    serial_out s' = serial_out s @ ''-'' @ ds \<and> parse_uint 10 ds = nat (- sint w) mod 256"
proof -
  let ?v = "ucast (ucast (- (scast w :: u64)) :: u8) :: u64"
  have "unat ?v < unat (10 :: u64) ^ 20" using unat_less_u64 [of ?v] by simp
  from print_uint_text [OF _ this, of 0 "CHR '' ''" False "kputc CHR ''-'' s"]
  obtain ds where ds: "print_uint ?v 10 0 CHR '' '' False (kputc CHR ''-'' s) =
      Inr (put_text ds (kputc CHR ''-'' s))" "parse_uint 10 ds = unat ?v"
    by (auto simp: num_base_def)
  have sw: "sint (scast w :: u64) = sint w"
    using sint_ge [of w] sint_lt [of w]
    by (simp add: signed_scast_eq signed_take_bit_int_eq_self_iff)
  have "unat ?v = nat (- sint w) mod 256"
    using assms by (simp only: unat_ucast_up len_num1 len_bit0 scast_unat_u8) (simp add: nat_mod_distrib)
  moreover have "kvprintf ''%d'' [ArgInt w] s = Inr (put_text ds (kputc CHR ''-'' s))"
    using assms ds(1)
    by (simp add: parse_flag_def is_digit_char_def kv_conv_def print_int_def sw)
  ultimately show ?thesis using ds(2) by (intro exI [of _ ds]) simp
qed

theorem percent_d_negative_witness:
  "\<exists>ds s'. kvprintf ''%d'' [ArgInt (- 300)]
      \<lparr>trace = [], mem = \<lambda>_. 0, cr3 = 0, msrs = \<lambda>_. 0\<rparr> = Inr s' \<and>
    serial_out s' = ''-'' @ ds \<and> parse_uint 10 ds = 44"
  using percent_d_negative [of "- 300" "\<lparr>trace = [], mem = \<lambda>_. 0, cr3 = 0, msrs = \<lambda>_. 0\<rparr>"]
  by (simp add: serial_out_def)

text \<open>
  The \<open>0\<close> flag pads with the NUL character, not with the digit zero: \<open>%08x\<close> emits NUL bytes
  up to the width and then the digits.
\<close>

theorem zero_flag_pads_with_nul:
  "\<exists>ds s'. kvprintf ''%08x'' [ArgInt w] s = Inr s' \<and>
    serial_out s' = serial_out s @ replicate (8 - length ds) CHR 0x00 @ ds \<and>
    parse_uint 16 ds = unat w \<and> 0 < length ds \<and> length ds \<le> 8"
proof -
  let ?v = "ucast w :: u64"
  have w: "unat ?v = unat w" by (rule unat_ucast_up) simp
  then have "unat ?v < unat (16 :: u64) ^ 8" using unsigned_less [of w, where ?'a = nat] by simp
  from print_uint_text [OF _ this, of 8 "CHR 0x00" False s]
  obtain ds where ds: "print_uint ?v 16 8 CHR 0x00 False s =
      Inr (put_text (replicate (8 - length ds) CHR 0x00 @ ds) s)" "parse_uint 16 ds = unat w"
    "0 < length ds" "length ds \<le> 8"
    unfolding w by (auto simp: num_base_def nat_minus_as_int)
  then have "kvprintf ''%08x'' [ArgInt w] s =
      Inr (put_text (replicate (8 - length ds) CHR 0x00 @ ds) s)"
    by (simp add: parse_flag_def is_digit_char_def kv_conv_def kv_uint_def)
  then show ?thesis using ds(2-4) by (intro exI [of _ ds]) simp
qed

end
