(* ===== verification/Page_Tables.thy ===== *)
theory Page_Tables
  imports Prelude
begin

text \<open>
  The interface between the virtual memory manager and what it keeps its page tables in.
  \<open>table_store\<close> is a store of tables of 512 entries, of which the \<open>good\<close> ones may be read and
  written independently of each other; \<open>table_alloc\<close> adds an allocator of fresh zeroed tables.
  The lemmas about trees of tables (walking, writing a leaf, hooking in a new table) follow
  from these laws.
\<close>

section \<open>Walking a tree of tables\<close>

text \<open>
  An entry is present when bit 0 is set; the address of the next table is the entry without
  its low twelve bits. A path is the list of indices from the root.
\<close>

fun table_at :: "(u64 \<Rightarrow> u64 \<Rightarrow> u64) \<Rightarrow> u64 \<Rightarrow> u64 list \<Rightarrow> u64 option" where
  "table_at rd p [] = Some p"
| "table_at rd p (i # is) =
     (let e = rd p i
      in if e AND 1 = 0 then None else table_at rd (e AND NOT 0xfff) is)"

definition next_table :: "(u64 \<Rightarrow> u64 \<Rightarrow> u64) \<Rightarrow> u64 \<Rightarrow> u64 \<Rightarrow> u64 option" where
  "next_table rd p i = (if rd p i AND 1 = 0 then None else Some (rd p i AND NOT 0xfff))"

lemma table_at_Cons:
  "table_at rd p (i # is) = Option.bind (next_table rd p i) (\<lambda>q. table_at rd q is)"
  by (simp add: next_table_def Let_def)

lemma table_at_append:
  "table_at rd p (xs @ ys) = Option.bind (table_at rd p xs) (\<lambda>q. table_at rd q ys)"
  by (induction xs arbitrary: p) (simp_all add: Let_def)

lemma table_at_snoc:
  "table_at rd p (xs @ [i]) = Option.bind (table_at rd p xs) (\<lambda>q. next_table rd q i)"
proof -
  have "table_at rd q [i] = next_table rd q i" for q
    by (simp add: next_table_def Let_def)
  then show ?thesis unfolding table_at_append by presburger
qed

lemma next_table_cong: "rd p i = rd' p i \<Longrightarrow> next_table rd p i = next_table rd' p i"
  by (simp add: next_table_def)

definition path_ok :: "u64 list \<Rightarrow> bool" where
  "path_ok ps \<longleftrightarrow> length ps \<le> 3 \<and> (\<forall>i \<in> set ps. unat i < 512)"

lemma path_ok_snoc: "path_ok (ps @ [i]) \<longleftrightarrow> length ps \<le> 2 \<and> path_ok ps \<and> unat i < 512"
  by (auto simp: path_ok_def)

lemma path_ok_Nil [simp]: "path_ok []"
  by (simp add: path_ok_def)

text \<open>
  The part of an address space that is looked at: the paths that begin a path of \<open>D\<close>. An address
  space may have other parts, say large pages of the boot loader, that are not trees of tables.
\<close>

definition path_in :: "u64 list set \<Rightarrow> u64 list \<Rightarrow> bool" where
  "path_in D ps \<longleftrightarrow> ps = [] \<or> path_ok ps \<and> (\<exists>rs. ps @ rs \<in> D)"

lemma path_in_ok: "path_in D ps \<Longrightarrow> path_ok ps"
  by (auto simp: path_in_def)

lemma path_in_snocD: "path_in D (ps @ [i]) \<Longrightarrow> length ps \<le> 2 \<and> path_in D ps \<and> unat i < 512"
  by (auto simp: path_in_def path_ok_snoc)

lemma path_in_Nil [simp]: "path_in D []"
  by (simp add: path_in_def)

lemma path_in_mono: "D \<subseteq> E \<Longrightarrow> path_in D ps \<Longrightarrow> path_in E ps"
  unfolding path_in_def by blast

text \<open>
  A tree: every table on a path of \<open>D\<close> satisfies \<open>G\<close>, and no table is on two of these paths.
\<close>

definition tree :: "u64 list set \<Rightarrow> (u64 \<Rightarrow> u64 \<Rightarrow> u64) \<Rightarrow> (u64 \<Rightarrow> bool) \<Rightarrow> u64 \<Rightarrow> bool" where
  "tree D rd G root \<longleftrightarrow>
     (\<forall>ps p. path_in D ps \<and> table_at rd root ps = Some p \<longrightarrow> G p) \<and>
     (\<forall>ps qs p. path_in D ps \<and> path_in D qs \<and> table_at rd root ps = Some p \<and>
        table_at rd root qs = Some p \<longrightarrow> ps = qs)"

lemma tree_good: "tree D rd G root \<Longrightarrow> path_in D ps \<Longrightarrow> table_at rd root ps = Some p \<Longrightarrow> G p"
  unfolding tree_def by blast

lemma tree_unique:
  "tree D rd G root \<Longrightarrow> path_in D ps \<Longrightarrow> path_in D qs \<Longrightarrow> table_at rd root ps = Some p \<Longrightarrow>
    table_at rd root qs = Some p \<Longrightarrow> ps = qs"
  unfolding tree_def by blast

lemma tree_cong:
  assumes "tree D rd G root"
    and "\<And>ps. path_in D ps \<Longrightarrow> table_at rd' root ps = table_at rd root ps" "\<And>p. G p \<Longrightarrow> G' p"
  shows "tree D rd' G' root"
  unfolding tree_def
proof (intro conjI allI impI; elim conjE)
  fix ps p
  assume "path_in D ps" "table_at rd' root ps = Some p"
  then show "G' p" using assms tree_good by metis
next
  fix ps qs p
  assume "path_in D ps" "path_in D qs" "table_at rd' root ps = Some p" "table_at rd' root qs = Some p"
  then show "ps = qs" using assms(2) tree_unique [OF assms(1)] by metis
qed

text \<open>Reads that agree on the tables of a tree give the same walk.\<close>

lemma table_at_agree:
  assumes "tree D rd G root" "\<And>p i. G p \<Longrightarrow> unat i < 512 \<Longrightarrow> rd' p i = rd p i" "path_in D ps"
  shows "table_at rd' root ps = table_at rd root ps"
  using assms(3)
proof (induction ps rule: rev_induct)
  case (snoc i ps)
  then have ok: "path_in D ps" "unat i < 512" by (auto dest: path_in_snocD)
  show ?case
  proof (cases "table_at rd root ps")
    case (Some p)
    with tree_good [OF assms(1) ok(1)] have "rd' p i = rd p i" using assms(2) ok(2) by blast
    from next_table_cong [of rd' p i rd, OF this] show ?thesis
      using snoc.IH ok(1) Some by (simp add: table_at_snoc)
  qed (use snoc.IH ok(1) in \<open>simp add: table_at_snoc\<close>)
qed simp

text \<open>The leaf entry reached through a path, when it is present.\<close>

definition leaf_at :: "(u64 \<Rightarrow> u64 \<Rightarrow> u64) \<Rightarrow> u64 \<Rightarrow> u64 list \<Rightarrow> u64 \<Rightarrow> u64 option" where
  "leaf_at rd root ps j =
     (case table_at rd root ps of
        None \<Rightarrow> None
      | Some p \<Rightarrow> if rd p j AND 1 = 0 then None else Some (rd p j))"

lemma leaf_at_agree:
  assumes "tree D rd G root" "\<And>p i. G p \<Longrightarrow> unat i < 512 \<Longrightarrow> rd' p i = rd p i"
    "path_in D ps" "unat j < 512"
  shows "leaf_at rd' root ps j = leaf_at rd root ps j"
  using table_at_agree [OF assms(1-3)] assms(2,4) tree_good [OF assms(1,3)]
  by (auto simp: leaf_at_def split: option.split)

section \<open>Writing into a tree\<close>

locale table_store =
  fixes ent :: "'s \<Rightarrow> u64 \<Rightarrow> u64 \<Rightarrow> u64"
    and set_ent :: "u64 \<Rightarrow> u64 \<Rightarrow> u64 \<Rightarrow> 's \<Rightarrow> 's"
    and good :: "'s \<Rightarrow> u64 \<Rightarrow> bool"
  assumes ent_set: "good s p \<Longrightarrow> good s q \<Longrightarrow> unat i < 512 \<Longrightarrow> unat j < 512 \<Longrightarrow>
      ent (set_ent p i v s) q j = (if q = p \<and> j = i then v else ent s q j)"
    and good_set: "good s p \<Longrightarrow> unat i < 512 \<Longrightarrow> good s q \<Longrightarrow> good (set_ent p i v s) q"
begin

text \<open>Writing an entry of a last-level table does not move any table.\<close>

lemma set_leaf_table_at:
  assumes t: "tree D (ent s) (good s) root" and ps: "path_in D ps" "length ps = 3"
    and p: "table_at (ent s) root ps = Some p" and i: "unat i < 512" and qs: "path_in D qs"
  shows "table_at (ent (set_ent p i v s)) root qs = table_at (ent s) root qs"
  using qs
proof (induction qs rule: rev_induct)
  case (snoc j qs)
  then have ok: "path_in D qs" "unat j < 512" "length qs \<le> 2" by (auto dest: path_in_snocD)
  show ?case
  proof (cases "table_at (ent s) root qs")
    case (Some q)
    then have "q \<noteq> p" using tree_unique [OF t ps(1) ok(1) p] ps(2) ok(3) by fastforce
    then have "ent (set_ent p i v s) q j = ent s q j"
      using ent_set [OF tree_good [OF t ps(1) p] tree_good [OF t ok(1) Some] i ok(2)] by simp
    then have "next_table (ent (set_ent p i v s)) q j = next_table (ent s) q j"
      by (rule next_table_cong)
    then show ?thesis using snoc.IH ok(1) Some by (simp add: table_at_snoc)
  qed (use snoc.IH ok(1) in \<open>simp add: table_at_snoc\<close>)
qed simp

lemma set_leaf_tree:
  assumes t: "tree D (ent s) (good s) root" and ps: "path_in D ps" "length ps = 3"
    and p: "table_at (ent s) root ps = Some p" and i: "unat i < 512"
  shows "tree D (ent (set_ent p i v s)) (good (set_ent p i v s)) root"
  using tree_cong [OF t set_leaf_table_at [OF t ps p i]] good_set [OF tree_good [OF t ps(1) p] i]
  by blast

text \<open>What a leaf write does to the leaves: only the entry written changes.\<close>

lemma set_leaf_at:
  assumes t: "tree D (ent s) (good s) root" and ps: "path_in D ps" "length ps = 3"
    and p: "table_at (ent s) root ps = Some p" and i: "unat i < 512"
    and qs: "path_in D qs" "unat j < 512"
  shows "leaf_at (ent (set_ent p i v s)) root qs j =
    (if qs = ps \<and> j = i then (if v AND 1 = 0 then None else Some v)
     else leaf_at (ent s) root qs j)"
proof (cases "table_at (ent s) root qs")
  case None
  then show ?thesis
    using p set_leaf_table_at [OF t ps p i qs(1)] by (auto simp: leaf_at_def)
next
  case (Some q)
  note set = ent_set [OF tree_good [OF t ps(1) p] tree_good [OF t qs(1) Some] i qs(2)]
  have "q = p \<longleftrightarrow> qs = ps" using tree_unique [OF t qs(1) ps(1)] Some p by auto
  with set Some show ?thesis
    using set_leaf_table_at [OF t ps p i qs(1)]
    by (cases "qs = ps \<and> j = i") (auto simp: leaf_at_def)
qed

text \<open>A loop that writes consecutive entries of one table.\<close>

lemma fill:
  assumes p: "good s p" and n: "unat n \<le> 512" and i: "i \<le> n"
    and f: "\<forall>t k. k < n \<and> good t p \<and> Q t \<and>
      (\<forall>q j. good s q \<and> q \<noteq> p \<and> unat j < 512 \<longrightarrow> ent t q j = ent s q j) \<longrightarrow> f t k = g k"
    and Q: "Q s" "\<forall>t k v. Q t \<and> good t p \<and> unat k < 512 \<longrightarrow> Q (set_ent p k v t)"
  defines "u \<equiv> for_u64 i n (\<lambda>k t. set_ent p k (f t k) t) s"
  shows "Q u" "good s q \<Longrightarrow> good u q"
    "good s q \<Longrightarrow> unat j < 512 \<Longrightarrow>
      ent u q j = (if q = p \<and> i \<le> j \<and> j < n then g j else ent s q j)"
proof -
  let ?P = "\<lambda>m t. Q t \<and> (\<forall>q. good s q \<longrightarrow> good t q) \<and> (\<forall>q j. good s q \<and> unat j < 512 \<longrightarrow>
      ent t q j = (if q = p \<and> i \<le> j \<and> j < m then g j else ent s q j))"
  have "?P n u"
    unfolding u_def
  proof (rule for_u64_inv [where P = ?P])
    show "?P i s" using Q(1) by auto
    fix k t
    assume k: "i \<le> k" "k < n" and t: "?P k t"
    have k512: "unat k < 512" using k(2) n by (simp add: word_less_nat_alt)
    have gp: "good t p" using t p by blast
    have "f t k = g k" using f k(2) gp t by auto
    then have "ent (set_ent p k (f t k) t) q j =
        (if q = p \<and> i \<le> j \<and> j < k + 1 then g j else ent s q j)"
      if "good s q" "unat j < 512" for q j
      using ent_set [OF gp _ k512 that(2), of q "f t k"] t that k
      by (auto simp: less_Suc_word [OF k(2)])
    then show "?P (k + 1) (set_ent p k (f t k) t)"
      using t Q(2) gp k512 good_set [OF gp k512] by blast
  qed (rule i)
  then show "Q u" "good s q \<Longrightarrow> good u q"
    "good s q \<Longrightarrow> unat j < 512 \<Longrightarrow>
      ent u q j = (if q = p \<and> i \<le> j \<and> j < n then g j else ent s q j)"
    by blast+
qed

text \<open>Hooking a fresh zeroed table \<open>p\<close> into an absent entry adds exactly one path.\<close>

lemma hook_table_at:
  assumes t: "tree D (ent s) (good s) root" and ps: "path_in D (ps @ [i])"
    and q: "table_at (ent s) root ps = Some q" "next_table (ent s) q i = None"
    and p: "good s p" "\<And>j. unat j < 512 \<Longrightarrow> ent s p j = 0"
      "\<And>rs. path_in D rs \<Longrightarrow> table_at (ent s) root rs \<noteq> Some p"
    and v: "v AND 1 \<noteq> 0" "v AND NOT 0xfff = p" and qs: "path_in D qs"
  shows "table_at (ent (set_ent q i v s)) root qs =
    (if qs = ps @ [i] then Some p else table_at (ent s) root qs)"
  using qs
proof (induction qs rule: rev_induct)
  case (snoc j qs)
  let ?t = "set_ent q i v s"
  have ps': "path_in D ps" "unat i < 512" using ps by (auto dest: path_in_snocD)
  have ok: "path_in D qs" "unat j < 512" using snoc.prems by (auto dest: path_in_snocD)
  have gq: "good s q" by (rule tree_good [OF t ps'(1) q(1)])
  note set = ent_set [OF gq _ ps'(2) ok(2), of _ v]
  have none: "table_at (ent s) root (ps @ [i]) = None" by (simp add: table_at_snoc q)
  show ?case
  proof (cases "table_at (ent ?t) root qs")
    case None
    then have "table_at (ent s) root qs = None" "qs \<noteq> ps @ [i]"
      using snoc.IH ok(1) by (auto split: if_splits)
    then show ?thesis
      using None q(1) by (auto simp: table_at_snoc)
  next
    case (Some r)
    consider "qs = ps @ [i]" | "qs = ps" "j = i" | "qs \<noteq> ps @ [i]" "\<not> (qs = ps \<and> j = i)" by blast
    then show ?thesis
    proof cases
      case 1
      then have "r = p" using Some snoc.IH ok(1) by simp
      moreover have "p \<noteq> q" using p(3) ps'(1) q(1) by blast
      ultimately have "next_table (ent ?t) r j = None"
        using set [OF p(1)] p(2) ok(2) by (simp add: next_table_def)
      with Some have "table_at (ent ?t) root (qs @ [j]) = None" unfolding table_at_snoc by simp
      moreover from 1 none have "table_at (ent s) root qs = None" by simp
      then have "table_at (ent s) root (qs @ [j]) = None" unfolding table_at_snoc by simp
      moreover have "qs @ [j] \<noteq> ps @ [i]" using 1 by simp
      ultimately show ?thesis by simp
    next
      case 2
      then have "r = q" using Some snoc.IH ok(1) q(1) by simp
      then have "next_table (ent ?t) r j = Some p"
        using set [OF gq] 2 v by (simp add: next_table_def)
      then show ?thesis using 2 Some by (simp add: table_at_snoc)
    next
      case 3
      then have r: "table_at (ent s) root qs = Some r" using Some snoc.IH ok(1) by simp
      then have "\<not> (r = q \<and> j = i)" using 3 tree_unique [OF t ok(1) ps'(1)] q(1) by blast
      then have "ent ?t r j = ent s r j" using set [OF tree_good [OF t ok(1) r]] by auto
      then have "next_table (ent ?t) r j = next_table (ent s) r j" by (rule next_table_cong)
      then show ?thesis using 3 Some r by (auto simp: table_at_snoc)
    qed
  qed
qed simp

lemma hook_tree:
  assumes t: "tree D (ent s) (good s) root" and ps: "path_in D (ps @ [i])"
    and q: "table_at (ent s) root ps = Some q" "next_table (ent s) q i = None"
    and p: "good s p" "\<And>j. unat j < 512 \<Longrightarrow> ent s p j = 0"
      "\<And>rs. path_in D rs \<Longrightarrow> table_at (ent s) root rs \<noteq> Some p"
    and v: "v AND 1 \<noteq> 0" "v AND NOT 0xfff = p"
  shows "tree D (ent (set_ent q i v s)) (good (set_ent q i v s)) root"
  unfolding tree_def
proof (intro conjI allI impI; elim conjE)
  note at = hook_table_at [OF assms]
  have q': "good s q" "unat i < 512" using tree_good [OF t _ q(1)] ps by (auto dest: path_in_snocD)
  fix rs r
  assume "path_in D rs" "table_at (ent (set_ent q i v s)) root rs = Some r"
  then have "good s r" using at p(1) tree_good [OF t] by (auto split: if_splits)
  then show "good (set_ent q i v s) r" by (rule good_set [OF q'])
next
  note at = hook_table_at [OF assms]
  fix rs rs' r
  assume "path_in D rs" "path_in D rs'" "table_at (ent (set_ent q i v s)) root rs = Some r"
    "table_at (ent (set_ent q i v s)) root rs' = Some r"
  then show "rs = rs'"
    using at p(3) tree_unique [OF t] by (auto split: if_splits)
qed

end

locale table_alloc = table_store +
  fixes alloc :: "'s \<Rightarrow> u64 \<times> 's"
    and ready :: "'s \<Rightarrow> bool"
  assumes alloc_good: "ready s \<Longrightarrow> alloc s = (p, t) \<Longrightarrow> good s q \<Longrightarrow> good t q"
    and alloc_ent: "ready s \<Longrightarrow> alloc s = (p, t) \<Longrightarrow> good s q \<Longrightarrow> unat i < 512 \<Longrightarrow>
      ent t q i = ent s q i"
    and alloc_fresh: "ready s \<Longrightarrow> alloc s = (p, t) \<Longrightarrow> p \<noteq> 0 \<Longrightarrow>
      good t p \<and> \<not> good s p \<and> p AND 0xfff = 0 \<and> (\<forall>i. unat i < 512 \<longrightarrow> ent t p i = 0)"
    and alloc_ready: "ready s \<Longrightarrow> alloc s = (p, t) \<Longrightarrow> ready t"
    and set_ready: "ready s \<Longrightarrow> good s p \<Longrightarrow> unat i < 512 \<Longrightarrow> ready (set_ent p i v s)"
begin

lemma alloc_table_at:
  assumes "ready s" "alloc s = (p, t)" "tree D (ent s) (good s) root" "path_in D ps"
  shows "table_at (ent t) root ps = table_at (ent s) root ps"
  by (rule table_at_agree [OF assms(3) _ assms(4)]) (rule alloc_ent [OF assms(1,2)])

lemma alloc_tree:
  assumes "ready s" "alloc s = (p, t)" "tree D (ent s) (good s) root"
  shows "tree D (ent t) (good t) root"
  using tree_cong [OF assms(3) alloc_table_at [OF assms]] alloc_good [OF assms(1,2)] by blast

text \<open>Allocating a table and hooking it in.\<close>

lemma grow:
  assumes s: "ready s" "tree D (ent s) (good s) root" and ps: "path_in D (ps @ [i])"
    and q: "table_at (ent s) root ps = Some q" "next_table (ent s) q i = None"
    and a: "alloc s = (p, t)" "p \<noteq> 0" and v: "v AND 1 \<noteq> 0" "v AND NOT 0xfff = p"
  defines "u \<equiv> set_ent q i v t"
  shows "ready u" "tree D (ent u) (good u) root"
    "path_in D qs \<Longrightarrow> table_at (ent u) root qs =
      (if qs = ps @ [i] then Some p else table_at (ent s) root qs)"
    "unat j < 512 \<Longrightarrow> ent u p j = 0"
    "good s r \<Longrightarrow> unat j < 512 \<Longrightarrow> \<not> (r = q \<and> j = i) \<Longrightarrow> ent u r j = ent s r j"
    "good s r \<Longrightarrow> good u r"
proof -
  have ps': "path_in D ps" "unat i < 512" using ps by (auto dest: path_in_snocD)
  note tt = alloc_tree [OF s(1) a(1) s(2)] and at = alloc_table_at [OF s(1) a(1) s(2)]
  note fresh = alloc_fresh [OF s(1) a]
  have gq: "good s q" "good t q"
    using tree_good [OF s(2) ps'(1) q(1)] alloc_good [OF s(1) a(1)] by blast+
  have q': "table_at (ent t) root ps = Some q" "next_table (ent t) q i = None"
    using at [OF ps'(1)] q alloc_ent [OF s(1) a(1) gq(1) ps'(2)]
    by (auto simp: next_table_def split: if_splits)
  have new: "table_at (ent t) root rs \<noteq> Some p" if "path_in D rs" for rs
    using at [OF that] tree_good [OF s(2) that] fresh by metis
  have zero: "\<And>j. unat j < 512 \<Longrightarrow> ent t p j = 0" using fresh by blast
  show "ready u"
    unfolding u_def by (rule set_ready [OF alloc_ready [OF s(1) a(1)] gq(2) ps'(2)])
  show "tree D (ent u) (good u) root"
    unfolding u_def using hook_tree [OF tt ps q' _ zero new v] fresh by blast
  show "path_in D qs \<Longrightarrow> table_at (ent u) root qs =
      (if qs = ps @ [i] then Some p else table_at (ent s) root qs)"
    unfolding u_def using hook_table_at [OF tt ps q' _ zero new v] fresh at by simp
  have "p \<noteq> q" using new [OF ps'(1)] q'(1) by blast
  then show "unat j < 512 \<Longrightarrow> ent u p j = 0"
    unfolding u_def using ent_set [OF gq(2) _ ps'(2)] fresh zero by simp
  show "good s r \<Longrightarrow> unat j < 512 \<Longrightarrow> \<not> (r = q \<and> j = i) \<Longrightarrow> ent u r j = ent s r j"
    unfolding u_def using ent_set [OF gq(2) alloc_good [OF s(1) a(1)] ps'(2)]
      alloc_ent [OF s(1) a(1)] by auto
  show "good s r \<Longrightarrow> good u r"
    unfolding u_def using good_set [OF gq(2) ps'(2)] alloc_good [OF s(1) a(1)] by blast
qed

text \<open>Neither allocating nor hooking in a zeroed table changes what is mapped.\<close>

lemma alloc_leaf_at:
  assumes "ready s" "alloc s = (p, t)" "tree D (ent s) (good s) root" "path_in D qs" "unat j < 512"
  shows "leaf_at (ent t) root qs j = leaf_at (ent s) root qs j"
  by (rule leaf_at_agree [OF assms(3) _ assms(4,5)]) (rule alloc_ent [OF assms(1,2)])

lemma grow_leaf_at:
  assumes s: "ready s" "tree D (ent s) (good s) root" and ps: "path_in D (ps @ [i])"
    and q: "table_at (ent s) root ps = Some q" "next_table (ent s) q i = None"
    and a: "alloc s = (p, t)" "p \<noteq> 0" and v: "v AND 1 \<noteq> 0" "v AND NOT 0xfff = p"
    and qs: "path_in D qs" "length qs = 3" "unat j < 512"
  shows "leaf_at (ent (set_ent q i v t)) root qs j = leaf_at (ent s) root qs j"
proof -
  note g = grow [OF s ps q a v]
  have none: "table_at (ent s) root (ps @ [i]) = None" by (simp add: table_at_snoc q)
  show ?thesis
  proof (cases "table_at (ent s) root qs")
    case None
    then show ?thesis using g(3) [OF qs(1)] g(4) [OF qs(3)] by (simp add: leaf_at_def)
  next
    case (Some r)
    then have "qs \<noteq> ps @ [i]" using none by auto
    have "r \<noteq> q"
      using tree_unique [OF s(2) qs(1) _ Some] q(1) ps qs(2) by (fastforce dest: path_in_snocD)
    then have "ent (set_ent q i v t) r j = ent s r j"
      using g(5) [OF tree_good [OF s(2) qs(1) Some] qs(3)] by blast
    then show ?thesis using g(3) [OF qs(1)] Some \<open>qs \<noteq> ps @ [i]\<close> by (simp add: leaf_at_def)
  qed
qed

end

end
