(* ===== verification/Vmm.thy ===== *)
theory Vmm
  imports Pmm Print Page_Tables
begin

text \<open>
  The virtual memory manager, \<open>kernel/mm/vmm.c\<close>. Page tables live in pages of the physical
  memory manager and are read and written through the direct map, eight bytes per entry.
  A C \<open>int\<close> status is an \<open>int\<close>.
\<close>

section \<open>Constants and state\<close>

definition PTE_P :: u64 where "PTE_P = push_bit 0 1"
definition PTE_W :: u64 where "PTE_W = push_bit 1 1"
definition PTE_U :: u64 where "PTE_U = push_bit 2 1"
definition PTE_PWT :: u64 where "PTE_PWT = push_bit 3 1"
definition PTE_PCD :: u64 where "PTE_PCD = push_bit 4 1"
definition PTE_NX :: u64 where "PTE_NX = push_bit 63 1"

lemmas pte_defs = PTE_P_def PTE_W_def PTE_U_def PTE_PWT_def PTE_PCD_def PTE_NX_def

record vmm_state = pmm_state +
  g_kernel_cr3_phys :: u64

record vmm_space =
  pml4_phys :: u64

definition vmm_align_down :: "u64 \<Rightarrow> u64" where
  "vmm_align_down x = x AND NOT (PAGE_SIZE - 1)"

definition idx_pml4 :: "u64 \<Rightarrow> u16" where "idx_pml4 va = ucast (drop_bit 39 va AND 0x1ff)"
definition idx_pdpt :: "u64 \<Rightarrow> u16" where "idx_pdpt va = ucast (drop_bit 30 va AND 0x1ff)"
definition idx_pd :: "u64 \<Rightarrow> u16" where "idx_pd va = ucast (drop_bit 21 va AND 0x1ff)"
definition idx_pt :: "u64 \<Rightarrow> u16" where "idx_pt va = ucast (drop_bit 12 va AND 0x1ff)"

definition pt_virt :: "'a pmm_state_scheme \<Rightarrow> u64 \<Rightarrow> u64" where
  "pt_virt s pt_phys = phys_to_virt s pt_phys"

text \<open>Element \<open>i\<close> of the table at physical address \<open>p\<close>, read and written.\<close>

definition pt_get :: "'a pmm_state_scheme \<Rightarrow> u64 \<Rightarrow> u64 \<Rightarrow> u64" where
  "pt_get s p i = rd64 (mem s) (cell (pt_virt s p) i)"

definition pt_set :: "u64 \<Rightarrow> u64 \<Rightarrow> u64 \<Rightarrow> 'a pmm_state_scheme \<Rightarrow> 'a pmm_state_scheme" where
  "pt_set p i v s = s\<lparr>mem := wr64 (mem s) (cell (pt_virt s p) i) v\<rparr>"

section \<open>Page tables\<close>

definition alloc_pt_page_phys :: "'a pmm_state_scheme \<Rightarrow> u64 \<times> 'a pmm_state_scheme" where
  "alloc_pt_page_phys s =
     (let (p, s) = pmm_alloc_pages 1 s
      in if p = 0 then (0, s)
         else (p, for_u64 0 512 (\<lambda>i s. pt_set p i 0 s) s))"

text \<open>One level of \<open>ensure_pt\<close>; \<open>None\<close> is the early \<open>return 0\<close>.\<close>

definition ensure_level ::
    "u64 \<Rightarrow> u64 \<Rightarrow> u64 \<Rightarrow> 'a pmm_state_scheme \<Rightarrow> u64 option \<times> 'a pmm_state_scheme" where
  "ensure_level tbl i flags s =
     (if pt_get s tbl i AND PTE_P = 0 then
        (let (new, s) = alloc_pt_page_phys s
         in if new = 0 then (None, s)
            else
              (let s = pt_set tbl i (new OR PTE_P OR PTE_W OR (flags AND PTE_U)) s
               in (Some (pt_get s tbl i AND NOT 0xfff), s)))
      else (Some (pt_get s tbl i AND NOT 0xfff), s))"

definition ensure_pt ::
    "u64 \<Rightarrow> u64 \<Rightarrow> u64 \<Rightarrow> 'a pmm_state_scheme \<Rightarrow> u64 \<times> 'a pmm_state_scheme" where
  "ensure_pt root va flags s =
     (case ensure_level root (ucast (idx_pml4 va)) flags s of
        (None, s) \<Rightarrow> (0, s)
      | (Some pdpt_phys, s) \<Rightarrow>
          (case ensure_level pdpt_phys (ucast (idx_pdpt va)) flags s of
             (None, s) \<Rightarrow> (0, s)
           | (Some pd_phys, s) \<Rightarrow>
               (case ensure_level pd_phys (ucast (idx_pd va)) flags s of
                  (None, s) \<Rightarrow> (0, s)
                | (Some pt_phys, s) \<Rightarrow> (pt_phys, s))))"

text \<open>The leaf write shared by \<open>vmm_map_page_cr3\<close> and \<open>vmm_map_page_mmio\<close>.\<close>

definition write_leaf ::
    "u64 \<Rightarrow> u64 \<Rightarrow> u64 \<Rightarrow> u64 \<Rightarrow> 'a pmm_state_scheme \<Rightarrow> 'a pmm_state_scheme" where
  "write_leaf pt_phys virt phys flags s =
     (let i1 = ucast (idx_pt virt);
          s = pt_set pt_phys i1 ((phys AND NOT 0xfff) OR (flags AND NOT PTE_NX) OR PTE_P) s;
          s = (if flags AND PTE_NX \<noteq> 0
               then pt_set pt_phys i1 (pt_get s pt_phys i1 OR PTE_NX) s else s)
      in invlpg_local virt s)"

definition vmm_map_page_cr3 ::
    "u64 \<Rightarrow> u64 \<Rightarrow> u64 \<Rightarrow> u64 \<Rightarrow> 'a pmm_state_scheme \<Rightarrow> int \<times> 'a pmm_state_scheme" where
  "vmm_map_page_cr3 cr3_phys virt phys flags s =
     (let virt = vmm_align_down virt;
          phys = vmm_align_down phys;
          flags = flags AND NOT (PTE_PCD OR PTE_PWT);
          (pt_phys, s) = ensure_pt cr3_phys virt flags s
      in if pt_phys = 0 then (-1, s)
         else (0, write_leaf pt_phys virt phys flags s))"

definition vmm_unmap_page_cr3 ::
    "u64 \<Rightarrow> u64 \<Rightarrow> 'a pmm_state_scheme \<Rightarrow> int \<times> 'a pmm_state_scheme" where
  "vmm_unmap_page_cr3 cr3_phys virt s =
     (let virt = vmm_align_down virt;
          e4 = pt_get s cr3_phys (ucast (idx_pml4 virt))
      in if e4 AND PTE_P = 0 then (-1, s)
         else
           (let e3 = pt_get s (e4 AND NOT 0xfff) (ucast (idx_pdpt virt))
            in if e3 AND PTE_P = 0 then (-1, s)
               else
                 (let e2 = pt_get s (e3 AND NOT 0xfff) (ucast (idx_pd virt))
                  in if e2 AND PTE_P = 0 then (-1, s)
                     else
                       (let i1 = ucast (idx_pt virt);
                            s = pt_set (e2 AND NOT 0xfff) i1 0 s
                        in (0, invlpg_local virt s)))))"

section \<open>The interface of the component\<close>

definition vmm_map_page ::
    "u64 \<Rightarrow> u64 \<Rightarrow> u64 \<Rightarrow> 'a pmm_state_scheme \<Rightarrow> int \<times> 'a pmm_state_scheme" where
  "vmm_map_page virt phys flags s =
     (let cr3_v = read_cr3 s AND NOT 0xfff in vmm_map_page_cr3 cr3_v virt phys flags s)"

definition vmm_unmap_page :: "u64 \<Rightarrow> 'a pmm_state_scheme \<Rightarrow> int \<times> 'a pmm_state_scheme" where
  "vmm_unmap_page virt s =
     (let cr3_v = read_cr3 s AND NOT 0xfff in vmm_unmap_page_cr3 cr3_v virt s)"

definition vmm_map_page_space ::
    "vmm_space \<Rightarrow> u64 \<Rightarrow> u64 \<Rightarrow> u64 \<Rightarrow> 'a pmm_state_scheme \<Rightarrow> int \<times> 'a pmm_state_scheme" where
  "vmm_map_page_space space virt phys flags s =
     (if pml4_phys space = 0 then (-1, s)
      else
        (let old = read_cr3 s AND NOT 0xfff;
             s = write_cr3 (pml4_phys space) s;
             (rc, s) = vmm_map_page_cr3 (pml4_phys space) virt phys flags s
         in (rc, write_cr3 old s)))"

definition vmm_unmap_page_space ::
    "vmm_space \<Rightarrow> u64 \<Rightarrow> 'a pmm_state_scheme \<Rightarrow> int \<times> 'a pmm_state_scheme" where
  "vmm_unmap_page_space space virt s =
     (if pml4_phys space = 0 then (-1, s)
      else
        (let old = read_cr3 s AND NOT 0xfff;
             s = write_cr3 (pml4_phys space) s;
             (rc, s) = vmm_unmap_page_cr3 (pml4_phys space) virt s
         in (rc, write_cr3 old s)))"

definition vmm_map_page_mmio ::
    "u64 \<Rightarrow> u64 \<Rightarrow> u64 \<Rightarrow> 'a pmm_state_scheme \<Rightarrow> int \<times> 'a pmm_state_scheme" where
  "vmm_map_page_mmio virt phys flags s =
     (let cr3_v = read_cr3 s AND NOT 0xfff;
          virt = vmm_align_down virt;
          phys = vmm_align_down phys;
          (pt_phys, s) = ensure_pt cr3_v virt flags s
      in if pt_phys = 0 then (-1, s)
         else (0, write_leaf pt_phys virt phys flags s))"

definition vmm_init :: "'a vmm_state_scheme \<Rightarrow> 'a vmm_state_scheme" where
  "vmm_init s =
     kprint ''[vmm] init ok\<newline>'' (s\<lparr>g_kernel_cr3_phys := read_cr3 s AND NOT 0xfff\<rparr>)"

definition vmm_create_space :: "'a vmm_state_scheme \<Rightarrow> vmm_space \<times> 'a vmm_state_scheme" where
  "vmm_create_space s =
     (let (new_pml4, s) = alloc_pt_page_phys s
      in if new_pml4 = 0 then (\<lparr>pml4_phys = 0\<rparr>, s)
         else
           (let s = for_u64 256 512
                      (\<lambda>i s. pt_set new_pml4 i (pt_get s (g_kernel_cr3_phys s) i) s) s
            in (\<lparr>pml4_phys = new_pml4\<rparr>, s)))"

definition vmm_switch_space :: "vmm_space \<Rightarrow> 'a machine_scheme \<Rightarrow> 'a machine_scheme" where
  "vmm_switch_space space s =
     (if pml4_phys space = 0 then s else write_cr3 (pml4_phys space) s)"

end
