(* ===== verification/Pmm_Init.thy ===== *)
theory Pmm_Init
  imports Pmm
begin

text \<open>
  Correctness of \<open>pmm_init\<close>: which pages are free when it returns, where it puts the
  bitmap, and that it returns whenever a place for the bitmap exists.
\<close>

section \<open>Alignment\<close>

lemma align_mask: "PAGE_SIZE - 1 = mask 12"
  by (simp add: PAGE_SIZE_def mask_eq_exp_minus_1)

lemma align_down_unat: "unat (align_down x PAGE_SIZE) = unat x div 4096 * 4096"
  unfolding align_down_def align_mask unat_and_not_mask by simp

lemma align_up_unat:
  "unat x + 4095 < 2 ^ 64 \<Longrightarrow> unat (align_up x PAGE_SIZE) = (unat x + 4095) div 4096 * 4096"
proof -
  assume "unat x + 4095 < 2 ^ 64"
  moreover have "unat (mask 12 :: u64) = 4095" by (simp add: mask_eq_exp_minus_1)
  ultimately have "unat (x + mask 12) = unat x + 4095"
    by (subst unat_add_no_wrap) simp_all
  then show ?thesis
    by (simp add: align_up_def align_mask unat_and_not_mask add_diff_eq [symmetric])
qed

lemma aligned_align: "aligned 12 (align_down x PAGE_SIZE)" "aligned 12 (align_up x PAGE_SIZE)"
  by (simp_all add: align_down_def align_up_def align_mask aligned_def and.assoc)

lemma aligned_12: "aligned 12 p \<longleftrightarrow> unat p mod 4096 = 0" for p :: u64
  by (simp add: aligned_unat)

section \<open>Marking a range of addresses\<close>

text \<open>\<open>page_in x b e\<close>: page \<open>x\<close> holds a byte of the address range from \<open>b\<close> to \<open>e\<close>.\<close>

definition page_in :: "nat \<Rightarrow> nat \<Rightarrow> nat \<Rightarrow> bool" where
  "page_in x b e \<longleftrightarrow> b div 4096 \<le> x \<and> x * 4096 < e"

lemma page_in_ceil: "page_in x b e \<longleftrightarrow> b div 4096 \<le> x \<and> x < (e + 4095) div 4096"
  unfolding page_in_def by (auto simp: less_eq_div_iff_mult_less_eq Suc_le_eq [symmetric])

lemma mark_loop_spec:
  assumes "aligned 12 p" "aligned 12 e"
  shows "\<exists>m. mark_loop p e used s = Some (s\<lparr>mem := m\<rparr>) \<and>
    (\<forall>x. page_used (s\<lparr>mem := m\<rparr>) x =
      (if unat p div 4096 \<le> unat x \<and> unat x < unat e div 4096 \<and> x < g_total_pages s
       then used else page_used s x))"
  using assms(1)
proof (induction "unat e - unat p" arbitrary: p s rule: less_induct)
  case less
  show ?case
  proof (cases "p < e \<and> p div PAGE_SIZE < g_total_pages s")
    case False
    then have "mark_loop p e used s = Some (s\<lparr>mem := mem s\<rparr>)"
      by (auto simp: mark_loop.simps [of p e used s] Let_def not_less)
    moreover have "\<not> (unat p div 4096 \<le> unat x \<and> unat x < unat e div 4096 \<and> x < g_total_pages s)" for x
    proof (cases "p < e")
      case True
      with False have "g_total_pages s \<le> p div PAGE_SIZE" by simp
      then have "unat (g_total_pages s) \<le> unat p div 4096"
        by (simp only: word_le_nat_alt unat_div unat_PAGE_SIZE)
      then show ?thesis by (simp add: word_less_nat_alt)
    next
      case False
      then have "unat e div 4096 \<le> unat p div 4096"
        by (intro div_le_mono) (simp add: word_less_nat_alt)
      then show ?thesis by simp
    qed
    ultimately show ?thesis by (intro exI [of _ "mem s"]) auto
  next
    case True
    let ?idx = "p div PAGE_SIZE"
    let ?t = "if used then bitmap_set ?idx s else bitmap_clear ?idx s"
    have step: "unat p + 4096 \<le> unat e"
      using True less.prems assms(2)
      by (auto simp: aligned_12 word_less_nat_alt mod_eq_0_iff_dvd elim!: dvdE)
    have p': "unat (p + PAGE_SIZE) = unat p + 4096"
      using step unat_less_u64 [of e] by (subst unat_add_no_wrap) simp_all
    have al: "aligned 12 (p + PAGE_SIZE)" using less.prems by (simp add: aligned_12 p')
    have lt: "unat e - unat (p + PAGE_SIZE) < unat e - unat p" using step by (simp add: p')
    have d: "unat (p + PAGE_SIZE) div 4096 = unat p div 4096 + 1" by (simp add: p')
    from less.hyps [OF lt al, of ?t, unfolded d] obtain m where m:
      "mark_loop (p + PAGE_SIZE) e used ?t = Some (?t\<lparr>mem := m\<rparr>)"
      "\<And>x. page_used (?t\<lparr>mem := m\<rparr>) x =
        (if unat p div 4096 + 1 \<le> unat x \<and> unat x < unat e div 4096 \<and> x < g_total_pages ?t
         then used else page_used ?t x)"
      by blast
    have t: "?t\<lparr>mem := m\<rparr> = s\<lparr>mem := m\<rparr>" "g_total_pages ?t = g_total_pages s"
      by (simp_all add: bitmap_set_def bitmap_clear_def Let_def)
    have "mark_loop p e used s = Some (s\<lparr>mem := m\<rparr>)"
      using True m(1) t(1) by (simp add: mark_loop.simps [of p e used s] Let_def not_le [symmetric])
    moreover have "page_used (s\<lparr>mem := m\<rparr>) x =
      (if unat p div 4096 \<le> unat x \<and> unat x < unat e div 4096 \<and> x < g_total_pages s
       then used else page_used s x)" for x
    proof (cases "x = ?idx")
      case True
      then have "unat x = unat p div 4096" by (simp add: unat_div)
      moreover have "unat p div 4096 < unat e div 4096" using step by linarith
      ultimately show ?thesis
        using m(2) [of x] t True \<open>p < e \<and> p div PAGE_SIZE < g_total_pages s\<close>
        by (simp add: page_used_bitmap_set page_used_bitmap_clear)
    next
      case False
      then have "unat x \<noteq> unat p div 4096" by (auto simp: word_unat_eq_iff unat_div)
      then show ?thesis
        using m(2) [of x] t False by (auto simp: page_used_bitmap_set page_used_bitmap_clear)
    qed
    ultimately show ?thesis by blast
  qed
qed

lemma mark_range_spec:
  assumes "unat base + unat len + 4095 < 2 ^ 64"
  shows "\<exists>m. mark_range base len used s = Some (s\<lparr>mem := m\<rparr>) \<and>
    (\<forall>x. page_used (s\<lparr>mem := m\<rparr>) x =
      (if page_in (unat x) (unat base) (unat base + unat len) \<and> x < g_total_pages s
       then used else page_used s x))"
proof -
  have "unat (base + len) = unat base + unat len"
    using assms by (subst unat_add_no_wrap) simp_all
  with mark_loop_spec [OF aligned_align(1) aligned_align(2), of base "base + len" used s] assms
  show ?thesis
    unfolding mark_range_def page_in_ceil by (simp add: align_down_unat align_up_unat conj_ac)
qed

lemma mark_range_used:
  assumes "unat base + unat len + 4095 < 2 ^ 64"
  obtains m' where "mark_range base len True (s\<lparr>mem := m\<rparr>) = Some (s\<lparr>mem := m'\<rparr>)"
    "\<And>x. page_used (s\<lparr>mem := m'\<rparr>) x \<longleftrightarrow>
      page_in (unat x) (unat base) (unat base + unat len) \<and> x < g_total_pages s \<or>
      page_used (s\<lparr>mem := m\<rparr>) x"
proof -
  from mark_range_spec [OF assms, of True "s\<lparr>mem := m\<rparr>"] obtain m' where m':
    "mark_range base len True (s\<lparr>mem := m\<rparr>) = Some (s\<lparr>mem := m'\<rparr>)"
    "\<forall>x. page_used (s\<lparr>mem := m'\<rparr>) x =
      (if page_in (unat x) (unat base) (unat base + unat len) \<and> x < g_total_pages s
       then True else page_used (s\<lparr>mem := m\<rparr>) x)"
    by auto
  show thesis by (rule that [OF m'(1)]) (auto simp: m'(2))
qed

section \<open>The memory map\<close>

definition usable_entry ::
    "limine_consts \<Rightarrow> memmap_response \<Rightarrow> u64 \<Rightarrow> limine_memmap_entry \<Rightarrow> bool" where
  "usable_entry lc mm i e \<longleftrightarrow>
     i < entry_count mm \<and> memmap_entry mm i = Some e \<and> e_type e = MEMMAP_USABLE lc"

definition e_limit :: "limine_memmap_entry \<Rightarrow> nat" where
  "e_limit e = unat (e_base e) + unat (e_length e)"

text \<open>
  The contract of the boot loader: every entry pointer is there, and usable ranges end well
  before the top of the address space.
\<close>

definition memmap_ok :: "limine_consts \<Rightarrow> memmap_response \<Rightarrow> bool" where
  "memmap_ok lc mm \<longleftrightarrow>
     (\<forall>i. i < entry_count mm \<longrightarrow> memmap_entry mm i \<noteq> None) \<and>
     (\<forall>i e. usable_entry lc mm i e \<longrightarrow> e_limit e + 4095 < 2 ^ 64)"

lemma memmap_okD:
  assumes "memmap_ok lc mm" "i < entry_count mm"
  obtains e where "memmap_entry mm i = Some e"
    "e_type e = MEMMAP_USABLE lc \<Longrightarrow> usable_entry lc mm i e \<and> e_limit e + 4095 < 2 ^ 64"
  using assms unfolding memmap_ok_def usable_entry_def by (metis not_None_eq)

lemma e_end_unat: "e_limit e + 4095 < 2 ^ 64 \<Longrightarrow> unat (e_base e + e_length e) = e_limit e"
  by (simp add: e_limit_def unat_add_no_wrap)

text \<open>The largest end of a usable range.\<close>

lemma find_max_loop_spec:
  assumes "memmap_ok lc mm"
  shows "\<exists>r. find_max_loop lc mm i maxp = Some r \<and> maxp \<le> r \<and>
    (\<forall>j e. i \<le> j \<and> usable_entry lc mm j e \<longrightarrow> e_limit e \<le> unat r) \<and>
    (unat r = unat maxp \<or> (\<exists>j e. usable_entry lc mm j e \<and> unat r = e_limit e))"
  using assms
proof (induction lc mm i maxp rule: find_max_loop.induct)
  case (1 lc mm i maxp)
  show ?case
  proof (cases "i < entry_count mm")
    case False
    then show ?thesis
      by (auto simp: find_max_loop.simps [of lc mm i maxp] usable_entry_def)
  next
    case True
    then obtain e where e: "memmap_entry mm i = Some e"
      "e_type e = MEMMAP_USABLE lc \<Longrightarrow> usable_entry lc mm i e \<and> e_limit e + 4095 < 2 ^ 64"
      using memmap_okD [OF 1(3)] by blast
    have later: "i \<le> j \<Longrightarrow> j \<noteq> i \<Longrightarrow> i + 1 \<le> j" for j
      by (metis inc_le_of_less order_le_less)
    show ?thesis
    proof (cases "e_type e = MEMMAP_USABLE lc")
      case False
      then have "\<not> usable_entry lc mm i e'" for e' using e(1) by (auto simp: usable_entry_def)
      with 1(1) [OF True e(1) False 1(3)] True e(1) False later show ?thesis
        by (simp add: find_max_loop.simps [of lc mm i maxp]) metis
    next
      case usable: True
      let ?top = "e_base e + e_length e"
      let ?m = "if maxp < ?top then ?top else maxp"
      note lim = e_end_unat [of e]
      have only: "usable_entry lc mm i e' \<Longrightarrow> e' = e" for e'
        using e(1) by (simp add: usable_entry_def)
      obtain r where r: "find_max_loop lc mm (i + 1) ?m = Some r" "?m \<le> r"
        "\<And>j e. i + 1 \<le> j \<Longrightarrow> usable_entry lc mm j e \<Longrightarrow> e_limit e \<le> unat r"
        "unat r = unat ?m \<or> (\<exists>j e. usable_entry lc mm j e \<and> unat r = e_limit e)"
        using 1(2) [OF True e(1) _ refl 1(3)] usable by auto
      have "find_max_loop lc mm i maxp = Some r"
        using True e(1) usable r(1) by (simp add: find_max_loop.simps [of lc mm i maxp] Let_def)
      moreover have "maxp \<le> r" "?top \<le> r" using r(2) by (auto split: if_splits)
      moreover have "e_limit e' \<le> unat r" if "i \<le> j" "usable_entry lc mm j e'" for j e'
      proof (cases "j = i")
        case True
        then show ?thesis
          using that only e(2) [OF usable] lim \<open>?top \<le> r\<close> by (auto simp: word_le_nat_alt)
      next
        case False
        then show ?thesis using r(3) later that by blast
      qed
      moreover have "unat r = unat maxp \<or> (\<exists>j e. usable_entry lc mm j e \<and> unat r = e_limit e)"
        using r(4) e(2) [OF usable] lim by (auto split: if_splits)
      ultimately show ?thesis by blast
    qed
  qed
qed

section \<open>Where the bitmap goes\<close>

text \<open>
  An acceptable place: page aligned, inside a usable range, and clear of the kernel image.
\<close>

definition good_place ::
    "limine_consts \<Rightarrow> memmap_response \<Rightarrow> u64 \<Rightarrow> u64 \<Rightarrow> u64 \<Rightarrow> u64 \<Rightarrow> bool" where
  "good_place lc mm bytes k0 k1 b \<longleftrightarrow>
     aligned 12 b \<and>
     (\<exists>i e. usable_entry lc mm i e \<and> unat (e_base e) \<le> unat b \<and>
        unat b + unat bytes \<le> e_limit e) \<and>
     (unat b + unat bytes \<le> unat k0 \<or> unat k1 \<le> unat b)"

lemma div_4096_bounds:
  "(x::nat) div 4096 * 4096 \<le> x" "x < (x div 4096 + 1) * 4096"
  by (rule div_times_less_eq_dividend) (use div_mult_mod_eq [of x 4096] mod_less_divisor [of 4096 x] in
    \<open>simp add: add_mult_distrib\<close>)

lemma place_in_region:
  assumes "e_limit e + 4095 < 2 ^ 64"
    and s: "rs = align_up (e_base e) PAGE_SIZE"
    and e: "re = align_down (e_base e + e_length e) PAGE_SIZE"
    and "rs < re" "bytes \<le> re - rs"
    and b: "b = align_down (re - bytes) PAGE_SIZE"
  shows "unat (e_base e) \<le> unat b" "unat b + unat bytes \<le> e_limit e"
proof -
  have rs: "unat rs = (unat (e_base e) + 4095) div 4096 * 4096"
    using assms(1) unfolding s by (intro align_up_unat) (simp add: e_limit_def)
  have re: "unat re = e_limit e div 4096 * 4096"
    unfolding e align_down_unat e_end_unat [OF assms(1)] ..
  have "bytes \<le> re"
    using assms(4,5) by (simp add: word_le_nat_alt word_less_nat_alt unat_sub_le)
  then have diff: "unat (re - bytes) = unat re - unat bytes" by (rule unat_sub_le)
  have ge: "unat rs + unat bytes \<le> unat re"
    using assms(4,5) by (simp add: word_le_nat_alt word_less_nat_alt unat_sub_le)
  have bu: "unat b = (unat re - unat bytes) div 4096 * 4096"
    unfolding b align_down_unat diff ..
  have "unat b + unat bytes \<le> unat re"
    using div_4096_bounds(1) [of "unat re - unat bytes"] ge unfolding bu by linarith
  moreover have "unat re \<le> e_limit e" unfolding re by (rule div_4096_bounds)
  ultimately show "unat b + unat bytes \<le> e_limit e" by simp
  have "(unat (e_base e) + 4095) div 4096 \<le> (unat re - unat bytes) div 4096"
    using div_le_mono [of "unat rs" "unat re - unat bytes" 4096] ge unfolding rs by simp
  then have "unat rs \<le> unat b" unfolding rs bu by simp
  moreover have "unat (e_base e) \<le> unat rs"
    using div_4096_bounds(2) [of "unat (e_base e) + 4095"] unfolding rs by simp
  ultimately show "unat (e_base e) \<le> unat b" by simp
qed

text \<open>The loop only ever returns a good place, or 0.\<close>

lemma place_loop_spec:
  assumes "memmap_ok lc mm"
  shows "\<exists>b. place_loop lc mm bytes k0 k1 i = Some b \<and> (b = 0 \<or> good_place lc mm bytes k0 k1 b)"
  using assms
proof (induction lc mm bytes k0 k1 i rule: place_loop.induct)
  case (1 lc mm bytes k0 k1 i)
  note unfold = place_loop.simps [of lc mm bytes k0 k1 i]
  show ?case
  proof (cases "i < entry_count mm")
    case False
    then show ?thesis by (simp add: unfold)
  next
    case True
    then obtain e where e: "memmap_entry mm i = Some e"
      "e_type e = MEMMAP_USABLE lc \<Longrightarrow> usable_entry lc mm i e \<and> e_limit e + 4095 < 2 ^ 64"
      using memmap_okD [OF "1.prems"] by blast
    let ?rs = "align_up (e_base e) PAGE_SIZE"
    let ?re = "align_down (e_base e + e_length e) PAGE_SIZE"
    let ?b = "align_down (?re - bytes) PAGE_SIZE"
    show ?thesis
    proof (cases "e_type e = MEMMAP_USABLE lc \<and> ?rs < ?re \<and> bytes \<le> ?re - ?rs \<and>
        \<not> ranges_overlap ?b (?b + bytes) k0 k1")
      case good: True
      then have u: "usable_entry lc mm i e" "e_limit e + 4095 < 2 ^ 64" using e(2) by blast+
      have loc: "unat (e_base e) \<le> unat ?b" "unat ?b + unat bytes \<le> e_limit e"
        using place_in_region [OF u(2) refl refl _ _ refl] good by blast+
      then have "unat (?b + bytes) = unat ?b + unat bytes"
        using u(2) by (intro unat_add_no_wrap) simp
      then have "good_place lc mm bytes k0 k1 ?b"
        using good loc u(1) aligned_align(1)
        by (auto simp: good_place_def ranges_overlap_def word_less_nat_alt)
      moreover have "place_loop lc mm bytes k0 k1 i = Some ?b"
        using True e(1) good by (simp only: unfold Let_def not_le not_less if_True if_False
            option.simps not_not simp_thms HOL.if_not_P)
      ultimately show ?thesis by blast
    next
      case bad: False
      then have "place_loop lc mm bytes k0 k1 i = place_loop lc mm bytes k0 k1 (i + 1)"
        using True e(1) by (auto simp: unfold Let_def not_le not_less)
      moreover have "\<exists>b. place_loop lc mm bytes k0 k1 (i + 1) = Some b \<and>
          (b = 0 \<or> good_place lc mm bytes k0 k1 b)"
      proof (cases "e_type e = MEMMAP_USABLE lc")
        case False
        then show ?thesis using 1(1) [OF True e(1) False "1.prems"] by blast
      next
        case usable: True
        show ?thesis
        proof (cases "?rs < ?re")
          case False
          then show ?thesis
            using 1(2) [OF True e(1) _ refl refl _ "1.prems"] usable by (simp add: not_less)
        next
          case lt: True
          show ?thesis
          proof (cases "bytes \<le> ?re - ?rs")
            case False
            then show ?thesis
              using 1(3) [OF True e(1) _ refl refl _ refl _ "1.prems"] usable lt
              by (simp add: not_le)
          next
            case le: True
            then show ?thesis
              using 1(4) [OF True e(1) _ refl refl _ refl _ refl refl _ "1.prems"] usable lt bad
              by (simp add: not_le)
          qed
        qed
      qed
      ultimately show ?thesis by simp
    qed
  qed
qed

section \<open>Building the bitmap\<close>

definition usable_page :: "limine_consts \<Rightarrow> memmap_response \<Rightarrow> u64 \<Rightarrow> nat \<Rightarrow> bool" where
  "usable_page lc mm i x \<longleftrightarrow>
     (\<exists>j e. i \<le> j \<and> usable_entry lc mm j e \<and> page_in x (unat (e_base e)) (e_limit e))"

lemma usable_page_step:
  assumes "i < entry_count mm" "memmap_entry mm i = Some e"
  shows "usable_page lc mm i x \<longleftrightarrow>
    (e_type e = MEMMAP_USABLE lc \<and> page_in x (unat (e_base e)) (e_limit e)) \<or>
    usable_page lc mm (i + 1) x"
proof -
  have "i \<le> j \<longleftrightarrow> j = i \<or> i + 1 \<le> j" for j
    using unat_Suc_less [OF assms(1)] by (auto simp: word_le_nat_alt word_unat_eq_iff)
  then show ?thesis
    using assms by (auto simp: usable_page_def usable_entry_def)
qed

lemma mark_usable_spec:
  assumes "memmap_ok lc mm"
  shows "\<exists>m. mark_usable_loop lc mm i s = Some (s\<lparr>mem := m\<rparr>) \<and>
    (\<forall>x. page_used (s\<lparr>mem := m\<rparr>) x \<longleftrightarrow>
      page_used s x \<and> \<not> (x < g_total_pages s \<and> usable_page lc mm i (unat x)))"
  using assms
proof (induction lc mm i s rule: mark_usable_loop.induct)
  case (1 lc mm i s)
  note unfold = mark_usable_loop.simps [of lc mm i s]
  show ?case
  proof (cases "i < entry_count mm")
    case False
    then have "\<not> usable_page lc mm i x" for x
      by (auto simp: usable_page_def usable_entry_def)
    with False show ?thesis by (intro exI [of _ "mem s"]) (simp add: unfold)
  next
    case True
    then obtain e where e: "memmap_entry mm i = Some e"
      "e_type e = MEMMAP_USABLE lc \<Longrightarrow> usable_entry lc mm i e \<and> e_limit e + 4095 < 2 ^ 64"
      using memmap_okD [OF "1.prems"] by blast
    note step = usable_page_step [OF True e(1), of lc]
    show ?thesis
    proof (cases "e_type e = MEMMAP_USABLE lc")
      case False
      with 1(2) [OF True e(1) False "1.prems"] True e(1) show ?thesis
        by (simp add: unfold step)
    next
      case usable: True
      with e(2) have "unat (e_base e) + unat (e_length e) + 4095 < 2 ^ 64" by (simp add: e_limit_def)
      from mark_range_spec [OF this, of False s] obtain m where m:
        "mark_range (e_base e) (e_length e) False s = Some (s\<lparr>mem := m\<rparr>)"
        "\<And>x. page_used (s\<lparr>mem := m\<rparr>) x \<longleftrightarrow> page_used s x \<and>
          \<not> (page_in (unat x) (unat (e_base e)) (e_limit e) \<and> x < g_total_pages s)"
        by (auto simp: e_limit_def)
      from 1(1) [OF True e(1) usable m(1) "1.prems"] obtain m' where m':
        "mark_usable_loop lc mm (i + 1) (s\<lparr>mem := m\<rparr>) = Some (s\<lparr>mem := m'\<rparr>)"
        "\<And>x. page_used (s\<lparr>mem := m'\<rparr>) x \<longleftrightarrow> page_used (s\<lparr>mem := m\<rparr>) x \<and>
          \<not> (x < g_total_pages s \<and> usable_page lc mm (i + 1) (unat x))"
        by auto
      then have "mark_usable_loop lc mm i s = Some (s\<lparr>mem := m'\<rparr>)"
        using True e(1) usable m(1) by (simp add: unfold)
      then show ?thesis
        using m(2) m'(2) usable by (intro exI [of _ m']) (auto simp: step)
    qed
  qed
qed

lemma fill_bitmap_spec:
  "\<exists>m. fill_bitmap s = s\<lparr>mem := m\<rparr> \<and>
    (\<forall>k. k < g_bitmap_bytes s \<longrightarrow> m (g_bitmap s + k) = 0xff)"
proof -
  let ?f = "\<lambda>i t. t\<lparr>mem := (mem t)(g_bitmap t + i := 0xff)\<rparr>"
  let ?P = "\<lambda>i t. \<exists>m. t = s\<lparr>mem := m\<rparr> \<and> (\<forall>k. k < i \<longrightarrow> m (g_bitmap s + k) = 0xff)"
  have "?P (g_bitmap_bytes s) (for_u64 0 (g_bitmap_bytes s) ?f s)"
  proof (rule for_u64_inv [where P = ?P])
    show "?P 0 s" by (intro exI [of _ "mem s"]) simp
  next
    fix j t
    assume "j < g_bitmap_bytes s" "?P j t"
    then obtain m where "t = s\<lparr>mem := m\<rparr>" "\<forall>k. k < j \<longrightarrow> m (g_bitmap s + k) = 0xff" by blast
    then show "?P (j + 1) (?f j t)"
      by (intro exI [of _ "m(g_bitmap s + j := 0xff)"])
        (simp add: less_Suc_word [OF \<open>j < g_bitmap_bytes s\<close>])
  qed simp
  then show ?thesis by (simp add: fill_bitmap_def)
qed

lemma filled_page_used:
  assumes "\<forall>k. k < n \<longrightarrow> mem s (g_bitmap s + k) = 0xff" "drop_bit 3 x < n"
  shows "page_used s x"
proof -
  have "bit (0xff :: u8) k" if "k < 8" for k
  proof -
    have "k = 0 \<or> k = 1 \<or> k = 2 \<or> k = 3 \<or> k = 4 \<or> k = 5 \<or> k = 6 \<or> k = 7"
      using that by arith
    then show ?thesis by (elim disjE) simp_all
  qed
  then show ?thesis
    using assms bit_position_less [of x] by (simp add: page_used_def bitmap_addr_def)
qed

lemma count_free_spec:
  "unat (count_free_pages s) = card (free_pages s)"
proof -
  let ?F = "\<lambda>i. {k. k < unat i \<and> \<not> page_used s (of_nat k)}"
  have fin: "finite (?F i)" for i by (rule finite_subset [of _ "{..<unat i}"]) auto
  have "count_free_pages s = of_nat (card (?F (g_total_pages s)))"
    unfolding count_free_pages_def
  proof (rule for_u64_inv [where P = "\<lambda>i c. c = of_nat (card (?F i))"])
    fix j c
    assume j: "j < g_total_pages s" and c: "c = of_nat (card (?F j))"
    have "?F (j + 1) = (if page_used s j then ?F j else insert (unat j) (?F j))"
      by (auto simp: unat_Suc_less [OF j] less_Suc_eq)
    then have "card (?F (j + 1)) = (if page_used s j then card (?F j) else Suc (card (?F j)))"
      using fin by simp
    then show "(if bitmap_test s j = 0 then c + 1 else c) = of_nat (card (?F (j + 1)))"
      by (simp add: bitmap_test_iff c add.commute)
  qed simp_all
  moreover have "card (free_pages s) \<le> unat (g_total_pages s)"
    using card_mono [of "{..<unat (g_total_pages s)}" "free_pages s"] by (auto dest: free_pages_less)
  then have "card (free_pages s) < 2 ^ 64" using unat_less_u64 le_less_trans by blast
  ultimately show ?thesis by (simp add: free_pages_def unat_of_nat_u64)
qed

text \<open>Whatever entry offers room, the loop finds a place.\<close>

definition has_room :: "u64 \<Rightarrow> u64 \<Rightarrow> u64 \<Rightarrow> limine_memmap_entry \<Rightarrow> bool" where
  "has_room bytes k0 k1 e \<longleftrightarrow>
     (let lo = align_up (e_base e) PAGE_SIZE;
          hi = align_down (e_base e + e_length e) PAGE_SIZE;
          b = align_down (hi - bytes) PAGE_SIZE
      in lo < hi \<and> bytes \<le> hi - lo \<and> \<not> ranges_overlap b (b + bytes) k0 k1)"

lemma place_loop_finds:
  assumes "memmap_ok lc mm" "\<And>j e. usable_entry lc mm j e \<Longrightarrow> e_base e \<noteq> 0"
    and "usable_entry lc mm j e" "has_room bytes k0 k1 e" "i \<le> j"
  shows "place_loop lc mm bytes k0 k1 i \<noteq> Some 0"
  using assms(5)
proof (induction "unat j - unat i" arbitrary: i rule: less_induct)
  case less
  note unfold = place_loop.simps [of lc mm bytes k0 k1 i]
  have i: "i < entry_count mm"
    using assms(3) less.prems by (auto simp: usable_entry_def intro: le_less_trans)
  obtain d where d: "memmap_entry mm i = Some d"
    "e_type d = MEMMAP_USABLE lc \<Longrightarrow> usable_entry lc mm i d \<and> e_limit d + 4095 < 2 ^ 64"
    using memmap_okD [OF assms(1) i] by blast
  show ?case
  proof (cases "e_type d = MEMMAP_USABLE lc \<and> has_room bytes k0 k1 d")
    case True
    let ?b = "align_down (align_down (e_base d + e_length d) PAGE_SIZE - bytes) PAGE_SIZE"
    have eq: "place_loop lc mm bytes k0 k1 i = Some ?b"
      using i d(1) True by (auto simp: unfold has_room_def Let_def not_le [symmetric])
    have u: "usable_entry lc mm i d" "e_limit d + 4095 < 2 ^ 64" using d(2) True by blast+
    have "unat (e_base d) \<le> unat ?b"
      using place_in_region(1) [OF u(2) refl refl _ _ refl] True by (simp add: has_room_def Let_def)
    moreover have "unat (e_base d) \<noteq> 0" using assms(2) [OF u(1)] by (simp add: unat_eq_0)
    ultimately show ?thesis using eq by (auto simp: unat_eq_0)
  next
    case False
    then have "i \<noteq> j" using assms(3,4) d(1) by (auto simp: usable_entry_def)
    then have le: "i + 1 \<le> j" "i < j" using less.prems by (simp_all add: inc_le_of_less)
    have "place_loop lc mm bytes k0 k1 i = place_loop lc mm bytes k0 k1 (i + 1)"
      using i d(1) False by (auto simp: unfold has_room_def Let_def not_le not_less)
    moreover have "unat j - unat (i + 1) < unat j - unat i"
      using le(2) by (simp add: unat_Suc_less word_less_nat_alt)
    ultimately show ?thesis using less.hyps le(1) by simp
  qed
qed

section \<open>What initialisation establishes\<close>

definition bitmap_bytes_for :: "u64 \<Rightarrow> u64" where
  "bitmap_bytes_for max_phys = (align_up max_phys PAGE_SIZE div PAGE_SIZE + 7) div 8"

lemma total_pages_bounds:
  assumes "unat maxp + 4095 < 2 ^ 64"
  defines "n \<equiv> align_up maxp PAGE_SIZE div PAGE_SIZE"
  shows "unat n = (unat maxp + 4095) div 4096" "unat n < 2 ^ 52"
    "unat (bitmap_bytes_for maxp) = (unat n + 7) div 8"
proof -
  show n: "unat n = (unat maxp + 4095) div 4096"
    unfolding n_def unat_div by (simp add: align_up_unat [OF assms(1)])
  have "(unat maxp + 4095) div 4096 < 2 ^ 52"
    using assms(1) by (simp add: less_mult_imp_div_less)
  then show lt: "unat n < 2 ^ 52" using n by simp
  then have "unat (n + 7) = unat n + 7" by (subst unat_add_no_wrap) simp_all
  then show "unat (bitmap_bytes_for maxp) = (unat n + 7) div 8"
    by (simp add: bitmap_bytes_for_def n_def [symmetric] unat_div)
qed

lemma usable_page_below:
  assumes "usable_page lc mm 0 x" "\<And>j e. usable_entry lc mm j e \<Longrightarrow> e_limit e \<le> m"
  shows "x < (m + 4095) div 4096"
proof -
  obtain j e where "usable_entry lc mm j e" "x * 4096 < e_limit e"
    using assms(1) by (auto simp: usable_page_def page_in_def)
  then have "x * 4096 < m" using assms(2) less_le_trans by blast
  then show ?thesis by (simp add: less_eq_div_iff_mult_less_eq Suc_le_eq [symmetric])
qed

text \<open>
  The marking phase: a bitmap of all ones in which usable memory is cleared and the kernel and
  the bitmap itself are set again.
\<close>

lemma marking_phase:
  assumes ok: "memmap_ok lc mm" and k: "unat k0 \<le> unat k1" "unat k1 + 4095 < 2 ^ 64"
    and b: "unat b + unat (g_bitmap_bytes s) + 4095 < 2 ^ 64"
    and bytes: "unat (g_bitmap_bytes s) = (unat (g_total_pages s) + 7) div 8"
    and below: "\<And>x. usable_page lc mm 0 x \<Longrightarrow> x < unat (g_total_pages s)"
  obtains m where
    "(do {
        s \<leftarrow> mark_usable_loop lc mm 0 (fill_bitmap s);
        s \<leftarrow> mark_range k0 (k1 - k0) True s;
        mark_range b (g_bitmap_bytes s) True s
      }) = Some (s\<lparr>mem := m\<rparr>)"
    "free_pages (s\<lparr>mem := m\<rparr>) = {x. usable_page lc mm 0 x \<and>
       \<not> page_in x (unat k0) (unat k1) \<and>
       \<not> page_in x (unat b) (unat b + unat (g_bitmap_bytes s))}"
proof -
  obtain m0 where m0: "fill_bitmap s = s\<lparr>mem := m0\<rparr>"
    "\<forall>k. k < g_bitmap_bytes s \<longrightarrow> m0 (g_bitmap s + k) = 0xff"
    using fill_bitmap_spec by blast
  have full: "page_used (s\<lparr>mem := m0\<rparr>) x" if "x < g_total_pages s" for x
  proof (rule filled_page_used [where n = "g_bitmap_bytes s"])
    show "\<forall>k<g_bitmap_bytes s. mem (s\<lparr>mem := m0\<rparr>) (g_bitmap (s\<lparr>mem := m0\<rparr>) + k) = 0xff"
      using m0(2) by simp
    have "unat x div 8 < (unat (g_total_pages s) + 7) div 8"
      using that by (simp add: word_less_nat_alt)
    then show "drop_bit 3 x < g_bitmap_bytes s"
      by (simp add: word_less_nat_alt unat_drop_bit bytes)
  qed
  obtain m1 where m1: "mark_usable_loop lc mm 0 (s\<lparr>mem := m0\<rparr>) = Some (s\<lparr>mem := m1\<rparr>)"
    "\<And>x. page_used (s\<lparr>mem := m1\<rparr>) x \<longleftrightarrow> page_used (s\<lparr>mem := m0\<rparr>) x \<and>
      \<not> (x < g_total_pages s \<and> usable_page lc mm 0 (unat x))"
    using mark_usable_spec [OF ok, of 0 "s\<lparr>mem := m0\<rparr>"] by auto
  have kk: "unat (k1 - k0) = unat k1 - unat k0"
    using k(1) by (simp add: unat_sub_le word_le_nat_alt)
  then have "unat k0 + unat (k1 - k0) = unat k1" using k(1) by simp
  with k have "unat k0 + unat (k1 - k0) + 4095 < 2 ^ 64" by simp
  from mark_range_used [OF this, where s = s and m = m1] \<open>unat k0 + unat (k1 - k0) = unat k1\<close> obtain m2 where m2:
    "mark_range k0 (k1 - k0) True (s\<lparr>mem := m1\<rparr>) = Some (s\<lparr>mem := m2\<rparr>)"
    "\<And>x. page_used (s\<lparr>mem := m2\<rparr>) x \<longleftrightarrow>
      page_in (unat x) (unat k0) (unat k1) \<and> x < g_total_pages s \<or> page_used (s\<lparr>mem := m1\<rparr>) x"
    by metis
  obtain m3 where m3:
    "mark_range b (g_bitmap_bytes s) True (s\<lparr>mem := m2\<rparr>) = Some (s\<lparr>mem := m3\<rparr>)"
    "\<And>x. page_used (s\<lparr>mem := m3\<rparr>) x \<longleftrightarrow>
      page_in (unat x) (unat b) (unat b + unat (g_bitmap_bytes s)) \<and> x < g_total_pages s \<or>
      page_used (s\<lparr>mem := m2\<rparr>) x"
    using mark_range_used [OF b, where s = s and m = m2] by blast
  show thesis
  proof (rule that)
    show "(do {
        s \<leftarrow> mark_usable_loop lc mm 0 (fill_bitmap s);
        s \<leftarrow> mark_range k0 (k1 - k0) True s;
        mark_range b (g_bitmap_bytes s) True s
      }) = Some (s\<lparr>mem := m3\<rparr>)"
      by (simp add: m0(1) m1(1) m2(1) m3(1))
    have used: "page_used (s\<lparr>mem := m3\<rparr>) x \<longleftrightarrow>
      \<not> (usable_page lc mm 0 (unat x) \<and> \<not> page_in (unat x) (unat k0) (unat k1) \<and>
         \<not> page_in (unat x) (unat b) (unat b + unat (g_bitmap_bytes s)))"
      if "x < g_total_pages s" for x
      using that m3(2) m2(2) m1(2) full by blast
    show "free_pages (s\<lparr>mem := m3\<rparr>) = {x. usable_page lc mm 0 x \<and>
       \<not> page_in x (unat k0) (unat k1) \<and>
       \<not> page_in x (unat b) (unat b + unat (g_bitmap_bytes s))}" (is "?L = ?R")
    proof (rule set_eqI)
      fix x
      show "x \<in> ?L \<longleftrightarrow> x \<in> ?R"
      proof (cases "x < unat (g_total_pages s)")
        case True
        then obtain w where w: "x = unat w" "w < g_total_pages s" by (rule free_pages_unat)
        then show ?thesis using used [OF w(2)] mem_free_pages [of w "s\<lparr>mem := m3\<rparr>"] by simp
      next
        case False
        then show ?thesis using below by (auto dest: free_pages_less)
      qed
    qed
  qed
qed

lemma free_pages_cong:
  "mem t = mem s \<Longrightarrow> g_bitmap t = g_bitmap s \<Longrightarrow> g_total_pages t = g_total_pages s \<Longrightarrow>
    free_pages t = free_pages s"
  for s :: "'a pmm_state_scheme" and t :: "'a pmm_state_scheme"
  by (simp add: free_pages_def page_used_def bitmap_addr_def)

lemma count_free_bytes:
  assumes "unat (g_total_pages s) < 2 ^ 52"
  shows "unat (count_free_pages s * PAGE_SIZE) = 4096 * card (free_pages s)"
proof -
  have "card (free_pages s) \<le> unat (g_total_pages s)"
    using card_mono [of "{..<unat (g_total_pages s)}" "free_pages s"] by (auto dest: free_pages_less)
  with assms show ?thesis by (simp add: unat_pages count_free_spec)
qed

lemma pmm_init_cases:
  assumes ok: "memmap_ok lc (bi_memmap (g_boot_info s))"
    and k: "kernel_phys_range ls s = (k0, k1)" "unat k0 \<le> unat k1" "unat k1 + 4095 < 2 ^ 64"
  obtains maxp b t where "find_max_phys lc s = Some maxp"
    "place_loop lc (bi_memmap (g_boot_info s)) (bitmap_bytes_for maxp) k0 k1 0 = Some b"
    "pmm_init lc ls s = (if b = 0 then None else Some t)"
    "b \<noteq> 0 \<Longrightarrow> good_place lc (bi_memmap (g_boot_info s)) (bitmap_bytes_for maxp) k0 k1 b"
    "g_bitmap t = b + bi_hhdm_offset (g_boot_info s)"
    "g_bitmap_bytes t = bitmap_bytes_for maxp"
    "g_hhdm t = bi_hhdm_offset (g_boot_info s)"
    "unat (g_total_pages t) \<le> 8 * unat (g_bitmap_bytes t)"
    "b \<noteq> 0 \<Longrightarrow> free_pages t = {x. usable_page lc (bi_memmap (g_boot_info s)) 0 x \<and>
       \<not> page_in x (unat k0) (unat k1) \<and>
       \<not> page_in x (unat b) (unat b + unat (g_bitmap_bytes t))} \<and> pmm_inv t"
proof -
  let ?mm = "bi_memmap (g_boot_info s)"
  obtain maxp where maxp: "find_max_loop lc ?mm 0 0 = Some maxp"
    "\<And>j e. usable_entry lc ?mm j e \<Longrightarrow> e_limit e \<le> unat maxp"
    "unat maxp = 0 \<or> (\<exists>j e. usable_entry lc ?mm j e \<and> unat maxp = e_limit e)"
    using find_max_loop_spec [OF ok, of 0 0] by auto
  have top: "unat maxp + 4095 < 2 ^ 64" using maxp(3) ok by (auto simp: memmap_ok_def)
  note tb = total_pages_bounds [OF top]
  let ?bytes = "bitmap_bytes_for maxp"
  obtain b where b: "place_loop lc ?mm ?bytes k0 k1 0 = Some b"
    "b = 0 \<or> good_place lc ?mm ?bytes k0 k1 b"
    using place_loop_spec [OF ok] by blast
  define s1 where "s1 = s\<lparr>g_hhdm := bi_hhdm_offset (g_boot_info s),
      g_total_pages := align_up maxp PAGE_SIZE div PAGE_SIZE, g_bitmap_bytes := ?bytes,
      g_bitmap := b + bi_hhdm_offset (g_boot_info s)\<rparr>"
  have kr: "kernel_phys_range ls (s\<lparr>g_hhdm := v\<rparr>) = (k0, k1)" for v
    using k(1) by (simp add: kernel_phys_range_def)
  show thesis
  proof (cases "b = 0")
    case True
    then have "pmm_init lc ls s = None"
      using maxp(1) b(1) kr
      by (simp add: pmm_init_def Let_def find_max_phys_def place_bitmap_phys_def bitmap_bytes_for_def)
    with True maxp(1) b(1) that [of maxp b s1] show thesis
      using tb(3) by (simp add: find_max_phys_def s1_def)
  next
    case False
    with b(2) have good: "good_place lc ?mm ?bytes k0 k1 b" by blast
    have bytes1: "g_bitmap_bytes s1 = ?bytes" and tot1: "unat (g_total_pages s1) < 2 ^ 52"
      using tb(2) by (simp_all add: s1_def)
    have bb: "unat b + unat (g_bitmap_bytes s1) + 4095 < 2 ^ 64"
      using good ok unfolding bytes1 by (fastforce simp: good_place_def memmap_ok_def)
    have below: "x < unat (g_total_pages s1)" if "usable_page lc ?mm 0 x" for x
      using usable_page_below [OF that maxp(2)] by (simp add: s1_def tb(1))
    have by8: "unat (g_bitmap_bytes s1) = (unat (g_total_pages s1) + 7) div 8"
      by (simp add: s1_def tb(3))
    obtain m where m:
      "(do {
          s \<leftarrow> mark_usable_loop lc ?mm 0 (fill_bitmap s1);
          s \<leftarrow> mark_range k0 (k1 - k0) True s;
          mark_range b (g_bitmap_bytes s) True s
        }) = Some (s1\<lparr>mem := m\<rparr>)"
      "free_pages (s1\<lparr>mem := m\<rparr>) = {x. usable_page lc ?mm 0 x \<and>
         \<not> page_in x (unat k0) (unat k1) \<and>
         \<not> page_in x (unat b) (unat b + unat (g_bitmap_bytes s1))}"
      by (rule marking_phase [OF ok k(2,3) bb by8 below]) blast+
    define s2 where "s2 = s1\<lparr>mem := m, g_total_bytes := g_total_pages s1 * PAGE_SIZE\<rparr>"
    define t where "t = s2\<lparr>g_free_bytes := count_free_pages s2 * PAGE_SIZE\<rparr>"
    have fp: "free_pages s2 = free_pages (s1\<lparr>mem := m\<rparr>)" "free_pages t = free_pages s2"
      by (rule free_pages_cong, simp_all add: s2_def t_def)+
    have tot2: "unat (g_total_pages s2) < 2 ^ 52" using tot1 by (simp add: s2_def)
    have init: "pmm_init lc ls s = do {
        s \<leftarrow> do {
          s \<leftarrow> mark_usable_loop lc ?mm 0 (fill_bitmap s1);
          s \<leftarrow> mark_range k0 (k1 - k0) True s;
          mark_range b (g_bitmap_bytes s) True s };
        let s = s\<lparr>g_total_bytes := g_total_pages s * PAGE_SIZE\<rparr>;
        Some (s\<lparr>g_free_bytes := count_free_pages s * PAGE_SIZE\<rparr>) }"
      using maxp(1) b(1) False kr
      by (simp add: pmm_init_def Let_def find_max_phys_def place_bitmap_phys_def s1_def
          bitmap_bytes_for_def [symmetric])
    have "pmm_init lc ls s = Some t"
      unfolding init m(1) by (simp add: t_def s2_def Let_def)
    moreover have "pmm_inv t"
      using count_free_bytes [OF tot2] tot2 fp(2) by (simp add: pmm_inv_def t_def)
    moreover have "g_bitmap t = b + bi_hhdm_offset (g_boot_info s)" "g_bitmap_bytes t = ?bytes"
      "g_hhdm t = bi_hhdm_offset (g_boot_info s)" "g_total_pages t = g_total_pages s1"
      by (simp_all add: t_def s2_def s1_def)
    moreover from this have "unat (g_total_pages t) \<le> 8 * unat (g_bitmap_bytes t)"
      using by8 bytes1 by simp
    ultimately show thesis
      using that [of maxp b t] maxp(1) b(1) False good m(2) fp bytes1
      by (simp add: find_max_phys_def)
  qed
qed

text \<open>
  C10: When \<open>pmm_init\<close> returns, the free pages are exactly the pages of usable memory that hold
  no byte of the kernel image and no byte of the bitmap, the bitmap lies page-aligned inside a
  usable range and clear of the kernel, and the free-byte counter is exact.
\<close>

theorem pmm_init_frees_usable:
  assumes "memmap_ok lc (bi_memmap (g_boot_info s))"
    and "kernel_phys_range ls s = (k0, k1)" "unat k0 \<le> unat k1" "unat k1 + 4095 < 2 ^ 64"
    and "pmm_init lc ls s = Some t"
  shows "\<exists>b. good_place lc (bi_memmap (g_boot_info s)) (g_bitmap_bytes t) k0 k1 b \<and>
    g_bitmap t = b + bi_hhdm_offset (g_boot_info s) \<and>
    free_pages t = {x. usable_page lc (bi_memmap (g_boot_info s)) 0 x \<and>
      \<not> page_in x (unat k0) (unat k1) \<and>
      \<not> page_in x (unat b) (unat b + unat (g_bitmap_bytes t))} \<and>
    pmm_inv t"
proof (rule pmm_init_cases [OF assms(1-4)])
  fix maxp b t'
  assume place: "b \<noteq> 0 \<Longrightarrow> good_place lc (bi_memmap (g_boot_info s)) (bitmap_bytes_for maxp) k0 k1 b"
    and init: "pmm_init lc ls s = (if b = 0 then None else Some t')"
    and at: "g_bitmap t' = b + bi_hhdm_offset (g_boot_info s)"
    and bytes: "g_bitmap_bytes t' = bitmap_bytes_for maxp"
    and free: "b \<noteq> 0 \<Longrightarrow> free_pages t' = {x. usable_page lc (bi_memmap (g_boot_info s)) 0 x \<and>
       \<not> page_in x (unat k0) (unat k1) \<and>
       \<not> page_in x (unat b) (unat b + unat (g_bitmap_bytes t'))} \<and> pmm_inv t'"
  have "t' = t" "b \<noteq> 0" using init assms(5) by (auto split: if_splits)
  with place at bytes free show ?thesis by auto
qed

text \<open>
  A range that starts at 0 is a different matter: where the bitmap would lie in its first page,
  \<open>place_bitmap_phys\<close> returns 0 for it, which means that there is no room anywhere.
\<close>

lemma pmm_init_runs:
  assumes "memmap_ok lc (bi_memmap (g_boot_info s))"
    and "kernel_phys_range ls s = (k0, k1)" "unat k0 \<le> unat k1" "unat k1 + 4095 < 2 ^ 64"
    and "\<And>j e. usable_entry lc (bi_memmap (g_boot_info s)) j e \<Longrightarrow> e_base e \<noteq> 0"
    and "find_max_phys lc s = Some maxp"
    and "usable_entry lc (bi_memmap (g_boot_info s)) i e" "has_room (bitmap_bytes_for maxp) k0 k1 e"
  shows "\<exists>t. pmm_init lc ls s = Some t"
proof (rule pmm_init_cases [OF assms(1-4)])
  fix maxp' b t'
  assume "find_max_phys lc s = Some maxp'"
    and b: "place_loop lc (bi_memmap (g_boot_info s)) (bitmap_bytes_for maxp') k0 k1 0 = Some b"
    and init: "pmm_init lc ls s = (if b = 0 then None else Some t')"
  then have "maxp' = maxp" using assms(6) by simp
  with b place_loop_finds [OF assms(1,5,7,8), where i = 0] have "b \<noteq> 0" by auto
  with init show ?thesis by simp
qed

text \<open>
  C37: \<open>pmm_init\<close> does return: if some usable range has room for the bitmap at its top, clear of the
  kernel, and no usable range starts at address 0, the halt loop is not reached.
\<close>

theorem pmm_init_returns:
  assumes "memmap_ok lc (bi_memmap (g_boot_info s))"
    and "kernel_phys_range ls s = (k0, k1)" "unat k0 \<le> unat k1" "unat k1 + 4095 < 2 ^ 64"
    and "\<And>j e. usable_entry lc (bi_memmap (g_boot_info s)) j e \<Longrightarrow> e_base e \<noteq> 0"
    and "find_max_phys lc s = Some maxp"
    and "usable_entry lc (bi_memmap (g_boot_info s)) i e" "has_room (bitmap_bytes_for maxp) k0 k1 e"
  shows "\<exists>t. pmm_init lc ls s = Some t"
  by (rule pmm_init_runs [OF assms])

section \<open>What initialisation leaves alone\<close>

text \<open>Everything but memory and the variables of \<open>pmm.c\<close>.\<close>

definition beyond_pmm where
  "beyond_pmm s = (trace s, cr3 s, msrs s, limine_requests s, g_boot_info s, pmm_state.more s)"

text \<open>A step that writes bytes of the bitmap only.\<close>

definition bitmap_only :: "'a pmm_state_scheme \<Rightarrow> 'a pmm_state_scheme \<Rightarrow> bool" where
  "bitmap_only s t \<longleftrightarrow> t = s\<lparr>mem := mem t\<rparr> \<and>
     (\<forall>a. (\<forall>y. y < g_total_pages s \<longrightarrow> a \<noteq> bitmap_addr s y) \<longrightarrow> mem t a = mem s a)"

lemma bitmap_only_refl [simp]: "bitmap_only s s"
  by (simp add: bitmap_only_def)

lemma bitmap_only_fields:
  assumes "bitmap_only s t"
  shows "g_total_pages t = g_total_pages s" "g_bitmap t = g_bitmap s" "g_bitmap_bytes t = g_bitmap_bytes s"
proof -
  from assms obtain m where "t = s\<lparr>mem := m\<rparr>" unfolding bitmap_only_def by blast
  then show "g_total_pages t = g_total_pages s" "g_bitmap t = g_bitmap s" "g_bitmap_bytes t = g_bitmap_bytes s"
    by simp_all
qed

lemma bitmap_only_trans:
  assumes st: "bitmap_only s t" and tu: "bitmap_only t u"
  shows "bitmap_only s u"
proof -
  obtain m n where t: "t = s\<lparr>mem := m\<rparr>" and u: "u = t\<lparr>mem := n\<rparr>"
    using st tu unfolding bitmap_only_def by blast
  then show ?thesis using st tu by (simp add: bitmap_only_def bitmap_addr_def)
qed

lemma bitmap_only_bit:
  assumes "i < g_total_pages s"
  shows "bitmap_only s (bitmap_set i s)" "bitmap_only s (bitmap_clear i s)"
  using assms by (simp_all add: bitmap_only_def bitmap_set_def bitmap_clear_def Let_def)

lemma bitmap_only_mark_loop: "mark_loop p e used s = Some t \<Longrightarrow> bitmap_only s t"
proof (erule mark_loop.raw_induct [rotated, where P = "\<lambda>p e used s t. bitmap_only s t"])
  fix loop p e used and s t :: "'a pmm_state_scheme"
  assume IH: "\<And>p e used s t. loop p e used s = Some t \<Longrightarrow> bitmap_only s t"
    and run: "(if p < e then
        (let idx = p div PAGE_SIZE
         in if g_total_pages s \<le> idx then Some s
            else loop (p + PAGE_SIZE) e used (if used then bitmap_set idx s else bitmap_clear idx s))
      else Some s) = Some t"
  show "bitmap_only s t"
  proof (cases "p < e \<and> p div PAGE_SIZE < g_total_pages s")
    case True
    then have "bitmap_only (if used then bitmap_set (p div PAGE_SIZE) s else bitmap_clear (p div PAGE_SIZE) s) t"
      using run IH by (simp add: Let_def not_le [symmetric])
    moreover have "bitmap_only s (if used then bitmap_set (p div PAGE_SIZE) s else bitmap_clear (p div PAGE_SIZE) s)"
      using bitmap_only_bit [of "p div PAGE_SIZE" s] True by simp
    ultimately show ?thesis by (rule bitmap_only_trans [rotated])
  next
    case False
    then show ?thesis using run by (auto simp: Let_def not_less split: if_splits)
  qed
qed

lemma bitmap_only_mark_range: "mark_range b n used s = Some t \<Longrightarrow> bitmap_only s t"
  unfolding mark_range_def by (rule bitmap_only_mark_loop)

lemma bitmap_only_mark_usable: "mark_usable_loop lc mm i s = Some t \<Longrightarrow> bitmap_only s t"
proof (induction lc mm i s rule: mark_usable_loop.induct)
  case (1 lc mm i s)
  from "1.prems" show ?case
    using "1.IH" bitmap_only_mark_range bitmap_only_trans
    by (fastforce simp: mark_usable_loop.simps [of lc mm i s] split: if_splits option.splits)
qed

lemma bitmap_only_fill:
  assumes "unat (g_bitmap_bytes s) = (unat (g_total_pages s) + 7) div 8" "unat (g_total_pages s) < 2 ^ 52"
  shows "bitmap_only s (fill_bitmap s)"
  unfolding fill_bitmap_def
proof (rule for_u64_inv [where P = "\<lambda>i t. bitmap_only s t"])
  fix j t
  assume j: "j < g_bitmap_bytes s" and t: "bitmap_only s t"
  then have "unat j < (unat (g_total_pages s) + 7) div 8" using assms(1) by (simp add: word_less_nat_alt)
  then have j8: "8 * unat j < unat (g_total_pages s)" by linarith
  then have u: "unat (8 * j) = 8 * unat j" using assms(2) by (simp add: unat_mult_no_wrap)
  then have "8 * j < g_total_pages s" using j8 by (simp add: word_less_nat_alt)
  moreover have "drop_bit 3 (8 * j) = j" using u by (simp add: word_unat_eq_iff unat_drop_bit)
  ultimately have "bitmap_only t (t\<lparr>mem := (mem t)(g_bitmap t + j := 0xff)\<rparr>)"
    using bitmap_only_fields [OF t] by (auto simp: bitmap_only_def bitmap_addr_def)
  with t show "bitmap_only s (t\<lparr>mem := (mem t)(g_bitmap t + j := 0xff)\<rparr>)" by (rule bitmap_only_trans)
qed simp_all

lemma bitmap_onlyD:
  assumes "bitmap_only s t"
  shows "beyond_pmm t = beyond_pmm s" "g_hhdm t = g_hhdm s"
    "(\<And>y. y < g_total_pages s \<Longrightarrow> a \<noteq> bitmap_addr s y) \<Longrightarrow> mem t a = mem s a"
proof -
  from assms obtain m where "t = s\<lparr>mem := m\<rparr>" unfolding bitmap_only_def by blast
  then show "beyond_pmm t = beyond_pmm s" "g_hhdm t = g_hhdm s" by (simp_all add: beyond_pmm_def)
  show "(\<And>y. y < g_total_pages s \<Longrightarrow> a \<noteq> bitmap_addr s y) \<Longrightarrow> mem t a = mem s a"
    using assms by (simp add: bitmap_only_def)
qed

text \<open>Initialisation writes to the bitmap and to the variables of \<open>pmm.c\<close> and to nothing else.\<close>

lemma pmm_init_keeps:
  assumes ok: "memmap_ok lc (bi_memmap (g_boot_info s))" and init: "pmm_init lc ls s = Some t"
  shows "beyond_pmm t = beyond_pmm s" "g_hhdm t = bi_hhdm_offset (g_boot_info s)"
    "(\<And>y. y < g_total_pages t \<Longrightarrow> a \<noteq> bitmap_addr t y) \<Longrightarrow> mem t a = mem s a"
    "\<exists>maxp. find_max_phys lc s = Some maxp \<and> unat (g_total_pages t) = (unat maxp + 4095) div 4096 \<and>
      g_bitmap_bytes t = bitmap_bytes_for maxp"
proof -
  let ?mm = "bi_memmap (g_boot_info s)"
  obtain k0 k1 where k: "kernel_phys_range ls s = (k0, k1)" by force
  obtain maxp where maxp: "find_max_phys lc s = Some maxp" "unat maxp + 4095 < 2 ^ 64"
    using find_max_loop_spec [OF ok, of 0 0] ok by (fastforce simp: find_max_phys_def memmap_ok_def)
  note tb = total_pages_bounds [OF maxp(2)]
  obtain b where b: "place_loop lc ?mm (bitmap_bytes_for maxp) k0 k1 0 = Some b" "b \<noteq> 0"
    using init maxp(1) k
    by (auto simp: pmm_init_def Let_def find_max_phys_def place_bitmap_phys_def kernel_phys_range_def
        bitmap_bytes_for_def bind_eq_Some_conv split: if_splits)
  define s1 where "s1 = s\<lparr>g_hhdm := bi_hhdm_offset (g_boot_info s),
      g_total_pages := align_up maxp PAGE_SIZE div PAGE_SIZE, g_bitmap_bytes := bitmap_bytes_for maxp,
      g_bitmap := b + bi_hhdm_offset (g_boot_info s)\<rparr>"
  obtain s2 s3 s4 where m: "mark_usable_loop lc ?mm 0 (fill_bitmap s1) = Some s2"
    "mark_range k0 (k1 - k0) True s2 = Some s3" "mark_range b (g_bitmap_bytes s3) True s3 = Some s4"
    and t: "t = s4\<lparr>g_total_bytes := g_total_pages s4 * PAGE_SIZE,
      g_free_bytes := count_free_pages (s4\<lparr>g_total_bytes := g_total_pages s4 * PAGE_SIZE\<rparr>) * PAGE_SIZE\<rparr>"
    using init maxp(1) k b
    by (auto simp: pmm_init_def Let_def find_max_phys_def place_bitmap_phys_def kernel_phys_range_def
        bitmap_bytes_for_def s1_def bind_eq_Some_conv split: if_splits)
  have "bitmap_only s1 (fill_bitmap s1)"
    by (rule bitmap_only_fill) (use tb in \<open>simp_all add: s1_def\<close>)
  then have o: "bitmap_only s1 s4"
    using m bitmap_only_mark_usable bitmap_only_mark_range bitmap_only_trans by metis
  note d = bitmap_onlyD [OF o]
  have "beyond_pmm s1 = beyond_pmm s" "mem s1 = mem s" "g_hhdm s1 = bi_hhdm_offset (g_boot_info s)"
    by (simp_all add: s1_def beyond_pmm_def)
  moreover have "g_total_pages t = g_total_pages s1" "bitmap_addr t = bitmap_addr s1" "mem t = mem s4"
    "g_hhdm t = g_hhdm s4" "beyond_pmm t = beyond_pmm s4" "g_bitmap_bytes t = g_bitmap_bytes s1"
    using bitmap_only_fields [OF o] by (simp_all add: t fun_eq_iff bitmap_addr_def beyond_pmm_def)
  moreover have "unat (g_total_pages s1) = (unat maxp + 4095) div 4096" "g_bitmap_bytes s1 = bitmap_bytes_for maxp"
    using tb(1) by (simp_all add: s1_def)
  ultimately show "beyond_pmm t = beyond_pmm s" "g_hhdm t = bi_hhdm_offset (g_boot_info s)"
    "(\<And>y. y < g_total_pages t \<Longrightarrow> a \<noteq> bitmap_addr t y) \<Longrightarrow> mem t a = mem s a"
    "\<exists>maxp. find_max_phys lc s = Some maxp \<and> unat (g_total_pages t) = (unat maxp + 4095) div 4096 \<and>
      g_bitmap_bytes t = bitmap_bytes_for maxp"
    using d maxp(1) by simp_all
qed

section \<open>A small machine\<close>

text \<open>
  Nine pages: one usable range from page 1 to page 8, the kernel image in page 3, the direct
  map at offset 0.
\<close>

definition demo_consts :: limine_consts where
  "demo_consts =
    \<lparr>MEMMAP_USABLE = 0, MEMMAP_RESERVED = 1, MEMMAP_ACPI_RECLAIMABLE = 2, MEMMAP_ACPI_NVS = 3,
     MEMMAP_BAD_MEMORY = 4, MEMMAP_BOOTLOADER_RECLAIMABLE = 5,
     MEMMAP_EXECUTABLE_AND_MODULES = 6, MEMMAP_FRAMEBUFFER = 7, MEMMAP_ACPI_TABLES = 8,
     FIRMWARE_TYPE_X86BIOS = 0, FIRMWARE_TYPE_EFI32 = 1, FIRMWARE_TYPE_EFI64 = 2,
     FIRMWARE_TYPE_SBI = 3, PAGING_MODE_X86_64_4LVL = 0, PAGING_MODE_X86_64_5LVL = 1,
     MEDIA_TYPE_GENERIC = 0, MEDIA_TYPE_OPTICAL = 1, MEDIA_TYPE_TFTP = 2, FRAMEBUFFER_RGB = 1,
     MP_RESPONSE_X86_64_X2APIC = 1\<rparr>"

definition demo_memmap :: memmap_response where
  "demo_memmap =
    \<lparr>mm_revision = 0, entry_count = 1,
     entries = Some (\<lambda>i. if i = 0
       then Some \<lparr>e_base = 0x1000, e_length = 0x8000, e_type = 0\<rparr> else None)\<rparr>"

definition demo_boot_info :: boot_info where
  "demo_boot_info = zero_boot_info\<lparr>bi_memmap := demo_memmap,
     bi_kernel_address := \<lparr>ea_revision = 0, physical_base = 0x3000, virtual_base = 0x10000\<rparr>\<rparr>"

definition demo_links :: link_symbols where
  "demo_links = \<lparr>sym_kernel_start = 0x10000, sym_kernel_end = 0x11000\<rparr>"

definition demo_boot :: pmm_state where
  "demo_boot =
    \<lparr>trace = [], mem = (\<lambda>_. 0), cr3 = 0, msrs = (\<lambda>_. 0),
     limine_requests = initial_requests, g_boot_info = demo_boot_info,
     g_hhdm = 0, g_bitmap = 0, g_bitmap_bytes = 0, g_total_bytes = 0, g_free_bytes = 0,
     g_total_pages = 0\<rparr>"

lemma demo_usable:
  "usable_entry demo_consts demo_memmap i e \<longleftrightarrow>
    i = 0 \<and> e = \<lparr>e_base = 0x1000, e_length = 0x8000, e_type = 0\<rparr>"
  by (auto simp: usable_entry_def demo_consts_def demo_memmap_def memmap_entry_def)

lemma demo_memmap_ok: "memmap_ok demo_consts demo_memmap"
  unfolding memmap_ok_def demo_usable
  by (auto simp: e_limit_def demo_memmap_def memmap_entry_def)

lemma demo_boot_fields:
  "bi_memmap (g_boot_info demo_boot) = demo_memmap"
  "kernel_phys_range demo_links demo_boot = (0x3000, 0x4000)"
  by (simp_all add: demo_boot_def demo_boot_info_def demo_links_def kernel_phys_range_def)

lemma demo_find_max: "find_max_phys demo_consts demo_boot = Some 0x9000"
  by (simp add: find_max_phys_def demo_boot_fields find_max_loop.simps demo_memmap_def
      memmap_entry_def demo_consts_def)

lemma demo_has_room:
  "has_room (bitmap_bytes_for 0x9000) 0x3000 0x4000 \<lparr>e_base = 0x1000, e_length = 0x8000, e_type = 0\<rparr>"
  by code_simp

theorem pmm_init_returns_witness: "\<exists>t. pmm_init demo_consts demo_links demo_boot = Some t"
proof (rule pmm_init_returns)
  show "memmap_ok demo_consts (bi_memmap (g_boot_info demo_boot))"
    by (simp only: demo_boot_fields demo_memmap_ok)
  show "has_room (bitmap_bytes_for 0x9000) 0x3000 0x4000
      \<lparr>e_base = 0x1000, e_length = 0x8000, e_type = 0\<rparr>" by (rule demo_has_room)
qed (simp_all add: demo_boot_fields demo_find_max demo_usable)

text \<open>The bitmap goes to page 8; pages 1, 2 and 4 to 7 are free.\<close>

lemma demo_init: "\<exists>t. pmm_init demo_consts demo_links demo_boot = Some t"
proof (rule pmm_init_cases)
  fix maxp b t
  assume a: "find_max_phys demo_consts demo_boot = Some maxp"
    "place_loop demo_consts (bi_memmap (g_boot_info demo_boot)) (bitmap_bytes_for maxp) 0x3000 0x4000 0 = Some b"
    "pmm_init demo_consts demo_links demo_boot = (if b = 0 then None else Some t)"
  have "place_loop demo_consts demo_memmap (bitmap_bytes_for 0x9000) 0x3000 0x4000 0 \<noteq> Some 0"
    by (rule place_loop_finds [OF demo_memmap_ok _ _ demo_has_room, where j = 0])
      (simp_all add: demo_usable)
  with a demo_find_max demo_boot_fields(1) show ?thesis by (auto split: if_splits)
qed (simp_all add: demo_boot_fields demo_memmap_ok)

theorem pmm_init_frees_usable_witness:
  "\<exists>t (b :: u64). pmm_init demo_consts demo_links demo_boot = Some t \<and>
    free_pages t = {x. usable_page demo_consts demo_memmap 0 x \<and> \<not> page_in x 0x3000 0x4000 \<and>
      \<not> page_in x (unat b) (unat b + unat (g_bitmap_bytes t))} \<and> pmm_inv t"
proof -
  obtain t where t: "pmm_init demo_consts demo_links demo_boot = Some t"
    using demo_init by blast
  have "memmap_ok demo_consts (bi_memmap (g_boot_info demo_boot))"
    by (simp only: demo_boot_fields demo_memmap_ok)
  from pmm_init_frees_usable [OF this demo_boot_fields(2) _ _ t] have
    "\<exists>b. good_place demo_consts demo_memmap (g_bitmap_bytes t) 0x3000 0x4000 b \<and>
      g_bitmap t = b + bi_hhdm_offset (g_boot_info demo_boot) \<and>
      free_pages t = {x. usable_page demo_consts demo_memmap 0 x \<and> \<not> page_in x 0x3000 0x4000 \<and>
        \<not> page_in x (unat b) (unat b + unat (g_bitmap_bytes t))} \<and> pmm_inv t"
    unfolding demo_boot_fields by simp
  with t show ?thesis by blast
qed

end
