(* ===== verification/Vmm_Correct.thy ===== *)
theory Vmm_Correct
  imports Vmm Pmm_Init
begin

text \<open>
  Correctness of the virtual memory manager: the pages of the physical memory manager
  provide the tables that \<open>Page_Tables\<close> asks for, mapping and unmapping change exactly one
  translation, and new address spaces share the kernel half.
\<close>

section \<open>Pages as tables\<close>

text \<open>
  The bytes of page \<open>p\<close> are not in the part of the bitmap that describes real pages.
\<close>

definition page_apart :: "'a pmm_state_scheme \<Rightarrow> u64 \<Rightarrow> bool" where
  "page_apart s p \<longleftrightarrow>
     (\<forall>y. y < g_total_pages s \<longrightarrow> \<not> unat (bitmap_addr s y - pt_virt s p) < 4096)"

definition table_page :: "'a pmm_state_scheme \<Rightarrow> u64 \<Rightarrow> bool" where
  "table_page s p \<longleftrightarrow> aligned 12 (g_hhdm s) \<and> aligned 12 p \<and> p \<noteq> 0 \<and>
     unat p div 4096 \<notin> free_pages s \<and> page_apart s p"

definition vmm_ready :: "'a pmm_state_scheme \<Rightarrow> bool" where
  "vmm_ready s \<longleftrightarrow> pmm_inv s \<and> aligned 12 (g_hhdm s) \<and>
     (\<forall>x. unat x \<in> free_pages s \<longrightarrow> page_apart s (x * PAGE_SIZE))"

lemma table_page_apart: "table_page s p \<Longrightarrow> page_apart s p"
  by (simp add: table_page_def)

lemma pt_virt_add: "pt_virt s p = p + g_hhdm s"
  by (simp add: pt_virt_def phys_to_virt_def hhdm_offset_def)

lemma pt_set_frame [simp]:
  "g_total_pages (pt_set p i v s) = g_total_pages s"
  "g_hhdm (pt_set p i v s) = g_hhdm s"
  "g_bitmap (pt_set p i v s) = g_bitmap s"
  "g_free_bytes (pt_set p i v s) = g_free_bytes s"
  "bitmap_addr (pt_set p i v s) y = bitmap_addr s y"
  "pt_virt (pt_set p i v s) q = pt_virt s q"
  "page_apart (pt_set p i v s) q = page_apart s q"
  by (simp_all add: pt_set_def bitmap_addr_def pt_virt_add page_apart_def)

lemma aligned_pt_virt: "table_page s p \<Longrightarrow> aligned 12 (pt_virt s p)"
  by (simp add: pt_virt_add table_page_def aligned_add)

lemma page_used_pt_set:
  assumes "page_apart s p" "unat i < 512" "y < g_total_pages s"
  shows "page_used (pt_set p i v s) y = page_used s y"
proof -
  have "\<not> unat (bitmap_addr s y - cell (pt_virt s p) i) < 8"
  proof
    let ?k = "bitmap_addr s y - cell (pt_virt s p) i"
    assume "unat ?k < 8"
    then have "unat (?k + 8 * i) < 4096"
      using assms(2) by (subst unat_add_no_wrap) (simp_all add: unat_cell_offset)
    moreover have "?k + 8 * i = bitmap_addr s y - pt_virt s p" by (simp add: cell_def)
    ultimately show False using assms(1,3) by (simp add: page_apart_def)
  qed
  then show ?thesis
    by (simp add: page_used_def pt_set_def bitmap_addr_def wr64_other)
qed

lemma free_pages_pt_set:
  assumes "page_apart s p" "unat i < 512"
  shows "free_pages (pt_set p i v s) = free_pages s"
proof (rule set_eqI)
  fix k
  show "k \<in> free_pages (pt_set p i v s) \<longleftrightarrow> k \<in> free_pages s"
  proof (cases "k < unat (g_total_pages s)")
    case True
    then obtain x where "k = unat x" "x < g_total_pages s" by (rule free_pages_unat)
    then show ?thesis by (simp add: mem_free_pages page_used_pt_set [OF assms])
  qed (auto dest: free_pages_less)
qed

lemma table_page_pt_set:
  "table_page s p \<Longrightarrow> unat i < 512 \<Longrightarrow> table_page (pt_set p i v s) q = table_page s q"
  by (simp add: table_page_def free_pages_pt_set)

lemma pt_get_pt_set:
  assumes "table_page s p" "table_page s q" "unat i < 512" "unat j < 512"
  shows "pt_get (pt_set p i v s) q j = (if q = p \<and> j = i then v else pt_get s q j)"
proof -
  have "pt_virt s p = pt_virt s q \<longleftrightarrow> q = p" by (auto simp: pt_virt_add)
  then show ?thesis
    using ram.table_rd_wr [OF aligned_pt_virt [OF assms(1)] aligned_pt_virt [OF assms(2)] assms(3,4),
        where m = "mem s" and v = v]
    by (auto simp: pt_get_def pt_set_def pt_virt_add)
qed

interpretation pt: table_store pt_get pt_set table_page
  by unfold_locales (simp_all add: pt_get_pt_set table_page_pt_set)

section \<open>Fresh tables\<close>

lemma unat_page_addr: "unat r < 2 ^ 52 \<Longrightarrow> unat (r * PAGE_SIZE) div 4096 = unat r"
  by (simp add: unat_pages)

lemma claim_one: "claim_run r 1 s = bitmap_set r s"
  by (simp add: claim_run_def for_u64_step for_u64_done)

lemma bitmap_set_frame [simp]:
  "g_total_pages (bitmap_set r s) = g_total_pages s"
  "g_hhdm (bitmap_set r s) = g_hhdm s"
  "g_bitmap (bitmap_set r s) = g_bitmap s"
  "bitmap_addr (bitmap_set r s) y = bitmap_addr s y"
  "pt_virt (bitmap_set r s) q = pt_virt s q"
  "page_apart (bitmap_set r s) q = page_apart s q"
  by (simp_all add: bitmap_set_def Let_def bitmap_addr_def pt_virt_add page_apart_def)

lemma free_bytes_frame [simp]:
  "g_hhdm (s\<lparr>g_free_bytes := v\<rparr>) = g_hhdm s"
  "page_apart (s\<lparr>g_free_bytes := v\<rparr>) q = page_apart s q"
  "pt_get (s\<lparr>g_free_bytes := v\<rparr>) q j = pt_get s q j"
  by (simp_all add: page_apart_def bitmap_addr_def pt_virt_add pt_get_def)

text \<open>Allocating one page: nothing changes, or one free page is taken.\<close>

lemma pmm_alloc_one:
  assumes "pmm_inv s" "pmm_alloc_pages 1 s = (p, t)"
  shows "(p = 0 \<and> t = s \<and> free_pages s = {}) \<or>
    (\<exists>r v. r < g_total_pages s \<and> unat r \<in> free_pages s \<and> p = r * PAGE_SIZE \<and>
      t = (bitmap_set r s)\<lparr>g_free_bytes := v\<rparr> \<and> free_pages t = free_pages s - {unat r} \<and> pmm_inv t)"
proof (cases "pmm_scan s 1 0 0 0")
  case None
  then have "first_fit 1 (free_pages s) = None" using first_fit_scan [of 1 s] by simp
  then have "free_pages s = {}" by (force simp: first_fit_def split: if_splits)
  with None assms show ?thesis by (simp add: pmm_alloc_pages_eq)
next
  case (Some r)
  then have sub: "{unat r..<unat r + unat (1 :: u64)} \<subseteq> free_pages s"
    using first_fit_scan [of 1 s] first_fit_subset [of 1 "free_pages s" "unat r"] by simp
  note claim = pmm_inv_claim [OF assms(1) sub]
  from sub have r: "unat r \<in> free_pages s" by simp
  then have "r < g_total_pages s" by (simp add: mem_free_pages)
  then show ?thesis
    using assms(2) Some claim r by (auto simp: pmm_alloc_pages_eq claim_one)
qed

lemma pt_get_bitmap_set:
  assumes "page_apart s q" "unat j < 512" "r < g_total_pages s"
  shows "pt_get (bitmap_set r s) q j = pt_get s q j"
proof -
  have "cell (pt_virt s q) j + k \<noteq> bitmap_addr s r" if "unat k < 8" for k
  proof
    assume "cell (pt_virt s q) j + k = bitmap_addr s r"
    then have "bitmap_addr s r - pt_virt s q = 8 * j + k" by (simp add: cell_def algebra_simps)
    moreover have "unat (8 * j + k) < 4096"
      using that assms(2) by (subst unat_add_no_wrap) (simp_all add: unat_cell_offset)
    ultimately show False using assms(1,3) unfolding page_apart_def by metis
  qed
  then show ?thesis
    unfolding pt_get_def by (intro rd64_cong) (simp add: bitmap_set_def Let_def pt_virt_add)
qed

text \<open>The invariant of the allocator under writes to table pages.\<close>

lemma vmm_ready_pt_set:
  "vmm_ready s \<Longrightarrow> table_page s p \<Longrightarrow> unat i < 512 \<Longrightarrow> vmm_ready (pt_set p i v s)"
  by (simp add: vmm_ready_def pmm_inv_def free_pages_pt_set table_page_def)

lemma alloc_one_spec:
  assumes "vmm_ready s" "pmm_alloc_pages 1 s = (p, t)"
  shows "vmm_ready t" "table_page s q \<Longrightarrow> table_page t q"
    "table_page s q \<Longrightarrow> unat j < 512 \<Longrightarrow> pt_get t q j = pt_get s q j"
    "p \<noteq> 0 \<Longrightarrow> table_page t p \<and> unat p div 4096 \<in> free_pages s"
    "p = 0 \<Longrightarrow> free_pages s = {} \<or> 0 \<in> free_pages s" "card (free_pages s) \<le> Suc (card (free_pages t))"
    "free_pages t \<subseteq> free_pages s"
proof -
  have inv: "pmm_inv s" "aligned 12 (g_hhdm s)"
    and apart: "\<And>x. unat x \<in> free_pages s \<Longrightarrow> page_apart s (x * PAGE_SIZE)"
    using assms(1) by (simp_all add: vmm_ready_def)
  from pmm_alloc_one [OF inv(1) assms(2)] consider
    "p = 0" "t = s" "free_pages s = {}" |
    r v where "r < g_total_pages s" "unat r \<in> free_pages s" "p = r * PAGE_SIZE"
      "t = (bitmap_set r s)\<lparr>g_free_bytes := v\<rparr>" "free_pages t = free_pages s - {unat r}" "pmm_inv t"
    by blast
  then have "vmm_ready t \<and> (table_page s q \<longrightarrow> table_page t q) \<and>
    (table_page s q \<and> unat j < 512 \<longrightarrow> pt_get t q j = pt_get s q j) \<and>
    (p \<noteq> 0 \<longrightarrow> table_page t p \<and> unat p div 4096 \<in> free_pages s) \<and>
    (p = 0 \<longrightarrow> free_pages s = {} \<or> 0 \<in> free_pages s) \<and> card (free_pages s) \<le> Suc (card (free_pages t)) \<and>
    free_pages t \<subseteq> free_pages s"
  proof cases
    case 1
    then show ?thesis using assms(1) by simp
  next
    case 2
    have small: "unat r < 2 ^ 52"
      using 2(1) inv(1) by (simp add: pmm_inv_def word_less_nat_alt)
    have frame: "g_hhdm t = g_hhdm s" "page_apart t x = page_apart s x" for x
      using 2(4) by simp_all
    have "vmm_ready t"
      unfolding vmm_ready_def frame using 2(5,6) inv(2) apart by simp
    moreover have "table_page s q \<longrightarrow> table_page t q"
      unfolding table_page_def frame using 2(5) by blast
    moreover have "table_page s q \<and> unat j < 512 \<longrightarrow> pt_get t q j = pt_get s q j"
      using 2(1,4) by (simp add: table_page_def pt_get_bitmap_set)
    moreover have "p \<noteq> 0 \<longrightarrow> table_page t p \<and> unat p div 4096 \<in> free_pages s"
      unfolding table_page_def frame 2(3) unat_page_addr [OF small]
      using 2(2,5) inv(2) apart by (simp add: aligned_unat unat_pages [OF small])
    moreover have "p = 0 \<longrightarrow> r = 0"
      using 2(3) unat_pages [OF small] by (auto simp: word_unat_eq_iff)
    moreover have "card (free_pages s) \<le> Suc (card (free_pages t))"
      using 2(5) card_Suc_Diff1 [OF finite_free_pages 2(2)] by simp
    moreover have "p = 0 \<longrightarrow> 0 \<in> free_pages s"
      using \<open>p = 0 \<longrightarrow> r = 0\<close> 2(2) by (metis unat_0)
    moreover have "free_pages t \<subseteq> free_pages s" using 2(5) by blast
    ultimately show ?thesis by blast
  qed
  then show "vmm_ready t" "table_page s q \<Longrightarrow> table_page t q"
    "table_page s q \<Longrightarrow> unat j < 512 \<Longrightarrow> pt_get t q j = pt_get s q j"
    "p \<noteq> 0 \<Longrightarrow> table_page t p \<and> unat p div 4096 \<in> free_pages s"
    "p = 0 \<Longrightarrow> free_pages s = {} \<or> 0 \<in> free_pages s"
    "card (free_pages s) \<le> Suc (card (free_pages t))" "free_pages t \<subseteq> free_pages s"
    by blast+
qed

lemma alloc_pt_cases:
  assumes "vmm_ready s" "alloc_pt_page_phys s = (p, t)"
  obtains u where "pmm_alloc_pages 1 s = (p, u)"
    "p = 0 \<Longrightarrow> t = u" "p \<noteq> 0 \<Longrightarrow> t = for_u64 0 512 (\<lambda>i s. pt_set p i 0 s) u"
  using assms(2) by (auto simp: alloc_pt_page_phys_def Let_def split: prod.splits if_splits)

lemma alloc_pt_spec:
  assumes "vmm_ready s" "alloc_pt_page_phys s = (p, t)"
  shows "vmm_ready t" "table_page s q \<Longrightarrow> table_page t q"
    "table_page s q \<Longrightarrow> unat j < 512 \<Longrightarrow> pt_get t q j = pt_get s q j"
    "p \<noteq> 0 \<Longrightarrow> table_page t p \<and> \<not> table_page s p \<and> (\<forall>i. unat i < 512 \<longrightarrow> pt_get t p i = 0)"
    "p = 0 \<Longrightarrow> free_pages s = {} \<or> 0 \<in> free_pages s"
    "card (free_pages s) \<le> Suc (card (free_pages t))" "free_pages t \<subseteq> free_pages s"
proof -
  obtain u where u: "pmm_alloc_pages 1 s = (p, u)"
    "p = 0 \<Longrightarrow> t = u" "p \<noteq> 0 \<Longrightarrow> t = for_u64 0 512 (\<lambda>i s. pt_set p i 0 s) u"
    using alloc_pt_cases [OF assms] by blast
  note one = alloc_one_spec [OF assms(1) u(1)]
  let ?Q = "\<lambda>x. vmm_ready x \<and> free_pages x = free_pages u"
  have "?Q t \<and> (\<forall>q. table_page u q \<longrightarrow> table_page t q) \<and>
    (\<forall>q j. table_page u q \<and> unat j < 512 \<longrightarrow>
       pt_get t q j = (if q = p \<and> p \<noteq> 0 then 0 else pt_get u q j))"
  proof (cases "p = 0")
    case True
    then show ?thesis using u(2) one(1) by simp
  next
    case False
    have Q: "?Q u" using one(1) by simp
    have step: "\<forall>x k v. ?Q x \<and> table_page x p \<and> unat k < 512 \<longrightarrow> ?Q (pt_set p k v x)"
      using vmm_ready_pt_set table_page_apart free_pages_pt_set by metis
    have f: "\<forall>x k. k < 512 \<and> table_page x p \<and> ?Q x \<and>
        (\<forall>q j. table_page u q \<and> q \<noteq> p \<and> unat j < 512 \<longrightarrow> pt_get x q j = pt_get u q j) \<longrightarrow>
        (\<lambda>_ _. 0) x k = (\<lambda>_. 0 :: u64) k" by simp
    have g: "table_page u p" using one(4) False by blast
    have n: "unat (512 :: u64) \<le> 512" "(0 :: u64) \<le> 512" by simp_all
    note fill = pt.fill [where Q = ?Q and f = "\<lambda>_ _. 0" and g = "\<lambda>_. 0", OF g n f Q step]
    have "unat j < 512 \<Longrightarrow> j < 512" for j :: u64 by (simp add: word_less_nat_alt)
    with fill show ?thesis unfolding u(3) [OF False] using False by auto
  qed
  then have t: "?Q t" "\<And>q. table_page u q \<Longrightarrow> table_page t q"
    "\<And>q j. table_page u q \<Longrightarrow> unat j < 512 \<Longrightarrow>
       pt_get t q j = (if q = p \<and> p \<noteq> 0 then 0 else pt_get u q j)"
    by blast+
  have new: "p \<noteq> 0 \<Longrightarrow> \<not> table_page s p" using one(4) by (auto simp: table_page_def)
  show "vmm_ready t" using t(1) by blast
  show "table_page s q \<Longrightarrow> table_page t q" using t(2) one(2) by blast
  show "pt_get t q j = pt_get s q j" if "table_page s q" "unat j < 512"
    using t(3) [OF one(2) [OF that(1)] that(2)] one(3) [OF that] new that(1) by auto
  show "p \<noteq> 0 \<Longrightarrow> table_page t p \<and> \<not> table_page s p \<and> (\<forall>i. unat i < 512 \<longrightarrow> pt_get t p i = 0)"
    using t(2,3) one(4) new by auto
  show "p = 0 \<Longrightarrow> free_pages s = {} \<or> 0 \<in> free_pages s" by (rule one(5))
  show "card (free_pages s) \<le> Suc (card (free_pages t))" "free_pages t \<subseteq> free_pages s"
    using t(1) one(6,7) by simp_all
qed

lemma page_low_bits: "aligned 12 p \<longleftrightarrow> p AND 0xfff = 0" for p :: u64
  by (simp add: aligned_def mask_eq_exp_minus_1)

interpretation pts: table_alloc pt_get pt_set table_page alloc_pt_page_phys vmm_ready
proof unfold_locales
  fix s :: "'a pmm_state_scheme" and p t
  assume a: "vmm_ready s" "alloc_pt_page_phys s = (p, t)"
  note spec = alloc_pt_spec [OF a]
  show "vmm_ready t" by (rule spec(1))
  show "table_page s q \<Longrightarrow> table_page t q" for q by (rule spec(2))
  show "table_page s q \<Longrightarrow> unat i < 512 \<Longrightarrow> pt_get t q i = pt_get s q i" for q i by (rule spec(3))
  show "p \<noteq> 0 \<Longrightarrow> table_page t p \<and> \<not> table_page s p \<and> p AND 0xfff = 0 \<and>
      (\<forall>i. unat i < 512 \<longrightarrow> pt_get t p i = 0)"
    using spec(4) by (auto simp: table_page_def page_low_bits)
qed (rule vmm_ready_pt_set)

section \<open>Virtual addresses as paths\<close>

definition va_path :: "u64 \<Rightarrow> u64 list" where
  "va_path va = [ucast (idx_pml4 va), ucast (idx_pdpt va), ucast (idx_pd va)]"

definition va_slot :: "u64 \<Rightarrow> u64" where
  "va_slot va = ucast (idx_pt va)"

definition translate :: "'a pmm_state_scheme \<Rightarrow> u64 \<Rightarrow> u64 \<Rightarrow> u64 option" where
  "translate s root va = leaf_at (pt_get s) root (va_path va) (va_slot va)"

text \<open>Two addresses are in the same page when bits 12 to 47 agree.\<close>

definition same_page :: "u64 \<Rightarrow> u64 \<Rightarrow> bool" where
  "same_page a b \<longleftrightarrow> take_bit 36 (drop_bit 12 a) = take_bit 36 (drop_bit 12 b)"

lemma mask_1ff: "(0x1ff :: u64) = mask 9"
  by (simp add: mask_eq_exp_minus_1)

lemma ucast_idx:
  "ucast (ucast (drop_bit k va AND 0x1ff) :: u16) = take_bit 9 (drop_bit k va)" for va :: u64
  unfolding mask_1ff take_bit_eq_mask
  by (rule bit_word_eqI) (auto simp: bit_simps)

lemma va_path_take:
  "va_path va = [take_bit 9 (drop_bit 39 va), take_bit 9 (drop_bit 30 va), take_bit 9 (drop_bit 21 va)]"
  "va_slot va = take_bit 9 (drop_bit 12 va)"
  by (simp_all add: va_path_def va_slot_def idx_pml4_def idx_pdpt_def idx_pd_def idx_pt_def ucast_idx)

lemma unat_take_9: "unat (take_bit 9 w :: u64) < 512"
  using unat_and_mask [of w 9] by (simp add: take_bit_eq_mask)

lemma path_ok_va [simp]: "path_ok (va_path va)" "length (va_path va) = 3" "unat (va_slot va) < 512"
  by (simp_all add: va_path_take path_ok_def unat_take_9)

text \<open>The paths of a set of addresses.\<close>

definition paths :: "u64 set \<Rightarrow> u64 list set" where
  "paths A = va_path ` A"

lemma va_in_paths [simp, intro]: "va \<in> A \<Longrightarrow> va_path va \<in> paths A"
  by (simp add: paths_def)

lemma path_in_va [intro]: "va_path va \<in> D \<Longrightarrow> path_in D (va_path va)"
  unfolding path_in_def by (metis append_Nil2 path_ok_va(1))

lemma path_in_take: "path_in D ps \<Longrightarrow> path_in D (take k ps)"
proof -
  assume ps: "path_in D ps"
  have "path_ok (take k ps)" using path_in_ok [OF ps] by (auto simp: path_ok_def dest: in_set_takeD)
  moreover have "take k ps @ (drop k ps @ rs) = ps @ rs" for rs by (simp flip: append_assoc)
  ultimately show ?thesis using ps unfolding path_in_def by (metis take_Nil)
qed

lemma take_drop_eq_iff:
  "take_bit n (drop_bit k a) = take_bit n (drop_bit k b) \<longleftrightarrow> (\<forall>i. k \<le> i \<and> i < k + n \<longrightarrow> bit a i = bit b i)"
  for a b :: u64
proof
  assume eq: "take_bit n (drop_bit k a) = take_bit n (drop_bit k b)"
  show "\<forall>i. k \<le> i \<and> i < k + n \<longrightarrow> bit a i = bit b i"
  proof (intro allI impI)
    fix i
    assume i: "k \<le> i \<and> i < k + n"
    have "bit (take_bit n (drop_bit k a)) (i - k) = bit (take_bit n (drop_bit k b)) (i - k)"
      by (simp only: eq)
    with i show "bit a i = bit b i" by (simp add: bit_take_bit_iff bit_drop_bit_eq less_diff_conv2)
  qed
next
  assume eq: "\<forall>i. k \<le> i \<and> i < k + n \<longrightarrow> bit a i = bit b i"
  show "take_bit n (drop_bit k a) = take_bit n (drop_bit k b)"
    by (rule bit_eqI) (use eq in \<open>auto simp: bit_take_bit_iff bit_drop_bit_eq\<close>)
qed

lemma same_page_iff: "same_page a b \<longleftrightarrow> va_path a = va_path b \<and> va_slot a = va_slot b"
proof -
  have "(\<forall>i. 12 \<le> i \<and> i < 12 + 36 \<longrightarrow> bit a i = bit b i) \<longleftrightarrow>
    (\<forall>i. 39 \<le> i \<and> i < 39 + 9 \<longrightarrow> bit a i = bit b i) \<and>
    (\<forall>i. 30 \<le> i \<and> i < 30 + 9 \<longrightarrow> bit a i = bit b i) \<and>
    (\<forall>i. 21 \<le> i \<and> i < 21 + 9 \<longrightarrow> bit a i = bit b i) \<and>
    (\<forall>i. 12 \<le> i \<and> i < 12 + 9 \<longrightarrow> bit a i = bit b i)"
    (is "?L \<longleftrightarrow> ?R")
  proof
    assume ?R
    show ?L
    proof (intro allI impI)
      fix i :: nat
      assume "12 \<le> i \<and> i < 12 + 36"
      then consider "12 \<le> i \<and> i < 12 + 9" | "21 \<le> i \<and> i < 21 + 9" | "30 \<le> i \<and> i < 30 + 9"
        | "39 \<le> i \<and> i < 39 + 9" by linarith
      then show "bit a i = bit b i" using \<open>?R\<close> by cases blast+
    qed
  qed auto
  then show ?thesis
    unfolding same_page_def va_path_take take_drop_eq_iff list.inject by blast
qed

lemma same_page_align: "same_page (vmm_align_down va) va"
proof -
  have "PAGE_SIZE - 1 = mask 12" by (simp add: PAGE_SIZE_def mask_eq_exp_minus_1)
  then show ?thesis
    unfolding same_page_def take_drop_eq_iff vmm_align_down_def by (auto simp: bit_simps)
qed

lemma va_align [simp]:
  "va_path (vmm_align_down va) = va_path va" "va_slot (vmm_align_down va) = va_slot va"
  using same_page_align [of va] by (simp_all add: same_page_iff)

section \<open>Building the tables on a path\<close>

lemma PTE_P_1: "PTE_P = 1"
  by (simp add: PTE_P_def)

lemma bit_pte:
  "bit PTE_P n \<longleftrightarrow> n = 0" "bit PTE_W n \<longleftrightarrow> n = 1" "bit PTE_U n \<longleftrightarrow> n = 2"
  "bit PTE_PWT n \<longleftrightarrow> n = 3" "bit PTE_PCD n \<longleftrightarrow> n = 4" "bit PTE_NX n \<longleftrightarrow> n = 63"
  unfolding pte_defs bit_push_bit_iff bit_1_iff by auto

text \<open>The entry that links a fresh table.\<close>

lemma link_entry:
  fixes new flags :: u64
  assumes "new AND 0xfff = 0"
  defines "v \<equiv> new OR PTE_P OR PTE_W OR (flags AND PTE_U)"
  shows "v AND 1 \<noteq> 0" "v AND NOT 0xfff = new"
proof -
  have m: "(0xfff :: u64) = mask 12" by (simp add: mask_eq_exp_minus_1)
  have "bit v 0" by (simp add: v_def bit_or_iff bit_pte)
  then show "v AND 1 \<noteq> 0" by (simp add: word_and_1_eq_0)
  have low: "\<not> bit new i" if "i < 12" for i
    using arg_cong [OF assms(1) [unfolded m], of "\<lambda>w. bit w i"] that
    by (cases "i < 64") (auto simp: bit_simps dest: bit_imp_le_length)
  show "v AND NOT 0xfff = new"
    unfolding m
  proof (rule bit_word_eqI)
    fix n
    assume "n < LENGTH(64)"
    then show "bit (v AND NOT (mask 12)) n = bit new n"
      using low [of n] by (cases "n < 12") (auto simp: v_def bit_pte bit_simps)
  qed
qed

text \<open>The state between the steps of a walk from \<open>root\<close>, seen from the start state \<open>s0\<close>.\<close>

definition walk_ok :: "u64 list set \<Rightarrow> 'a pmm_state_scheme \<Rightarrow> 'a pmm_state_scheme \<Rightarrow> u64 \<Rightarrow> bool" where
  "walk_ok D s0 s root \<longleftrightarrow> vmm_ready s \<and> tree D (pt_get s) (table_page s) root \<and>
     (\<forall>qs j. path_in D qs \<and> length qs = 3 \<and> unat j < 512 \<longrightarrow>
        leaf_at (pt_get s) root qs j = leaf_at (pt_get s0) root qs j) \<and>
     (\<forall>r. table_page s0 r \<longrightarrow> table_page s r) \<and>
     (\<forall>qs r. path_in D qs \<and> table_at (pt_get s) root qs = Some r \<longrightarrow>
        table_at (pt_get s0) root qs = Some r \<or> \<not> table_page s0 r)"

lemma walk_ok_refl: "vmm_ready s \<Longrightarrow> tree D (pt_get s) (table_page s) root \<Longrightarrow> walk_ok D s s root"
  by (simp add: walk_ok_def)

lemma walk_okD:
  assumes "walk_ok D s0 s root"
  shows "vmm_ready s" "tree D (pt_get s) (table_page s) root"
    "path_in D qs \<Longrightarrow> length qs = 3 \<Longrightarrow> unat j < 512 \<Longrightarrow>
      leaf_at (pt_get s) root qs j = leaf_at (pt_get s0) root qs j"
    "table_page s0 r \<Longrightarrow> table_page s r"
    "path_in D qs' \<Longrightarrow> table_at (pt_get s) root qs' = Some r \<Longrightarrow>
      table_at (pt_get s0) root qs' = Some r \<or> \<not> table_page s0 r"
  using assms by (simp_all add: walk_ok_def)

lemma next_table_P: "next_table rd q i = None \<longleftrightarrow> rd q i AND PTE_P = 0"
  by (simp add: next_table_def PTE_P_1)

lemma ensure_level_spec:
  assumes w: "walk_ok D s0 s root" and ps: "path_in D (ps @ [i])"
    and q: "table_at (pt_get s) root ps = Some q" and e: "ensure_level q i flags s = (res, t)"
  shows "walk_ok D s0 t root \<and> (\<forall>p. res = Some p \<longrightarrow> table_at (pt_get t) root (ps @ [i]) = Some p) \<and>
    (\<forall>r j. table_page s r \<and> r \<noteq> q \<and> unat j < 512 \<longrightarrow> pt_get t r j = pt_get s r j) \<and>
    (res = None \<longrightarrow> free_pages s = {} \<or> 0 \<in> free_pages s) \<and>
    card (free_pages s) \<le> Suc (card (free_pages t)) \<and> free_pages t \<subseteq> free_pages s"
proof (cases "pt_get s q i AND PTE_P = 0")
  case False
  then have "res = Some (pt_get s q i AND NOT 0xfff)" "t = s"
    using e by (auto simp: ensure_level_def)
  then show ?thesis using w q False by (simp add: table_at_snoc next_table_def PTE_P_1)
next
  case absent: True
  have i: "path_in D ps" "unat i < 512" using ps by (simp_all add: path_in_snocD)
  obtain new u where a: "alloc_pt_page_phys s = (new, u)" by (cases "alloc_pt_page_phys s")
  note spec = alloc_pt_spec [OF walk_okD(1) [OF w] a]
  note wd = walk_okD [OF w]
  show ?thesis
  proof (cases "new = 0")
    case True
    have "walk_ok D s0 u root"
      unfolding walk_ok_def
    proof (intro conjI allI impI)
      fix qs r
      assume "path_in D qs \<and> table_at (pt_get u) root qs = Some r"
      then show "table_at (pt_get s0) root qs = Some r \<or> \<not> table_page s0 r"
        using wd(5) [of qs r] pts.alloc_table_at [OF wd(1) a wd(2), of qs] by auto
    qed (use wd(3,4) spec(1,2) pts.alloc_tree [OF wd(1) a wd(2)]
        pts.alloc_leaf_at [OF wd(1) a wd(2)] in auto)
    moreover have "res = None" "t = u" using e absent a True by (simp_all add: ensure_level_def)
    ultimately show ?thesis using spec(3,6,7) spec(5) [OF True] by blast
  next
    case False
    let ?v = "new OR PTE_P OR PTE_W OR (flags AND PTE_U)"
    have v: "?v AND 1 \<noteq> 0" "?v AND NOT 0xfff = new"
      using spec(4) [OF False] link_entry by (simp_all add: table_page_def page_low_bits)
    have gq: "table_page s q" "table_page u q"
      using tree_good [OF wd(2) i(1) q] spec(2) by blast+
    note g = pts.grow [OF wd(1,2) ps q _ a False v, unfolded next_table_P, OF absent]
    have same: "pt_get (pt_set q i ?v u) q i = ?v"
      using pt_get_pt_set [OF gq(2) gq(2) i(2) i(2)] by simp
    have t: "t = pt_set q i ?v u" "res = Some new"
      using e absent a False same v(2) by (simp_all add: ensure_level_def Let_def)
    have "walk_ok D s0 t root"
      unfolding walk_ok_def t
    proof (intro conjI allI impI)
      fix qs r
      assume "path_in D qs \<and> table_at (pt_get (pt_set q i ?v u)) root qs = Some r"
      then show "table_at (pt_get s0) root qs = Some r \<or> \<not> table_page s0 r"
        using g(3) [of qs] wd(4) [of r] wd(5) [of qs r] spec(4) [OF False] by (auto split: if_splits)
    qed (use g(1,2,6) wd(3,4)
        pts.grow_leaf_at [OF wd(1,2) ps q _ a False v, unfolded next_table_P, OF absent] in auto)
    moreover have "free_pages t = free_pages u"
      unfolding t by (rule free_pages_pt_set [OF _ i(2)]) (use gq in \<open>simp add: table_page_def\<close>)
    moreover have "table_at (pt_get t) root (ps @ [i]) = Some new" using g(3) [OF ps] t by simp
    ultimately show ?thesis using t g(5) spec(6,7) by auto
  qed
qed

text \<open>The whole walk. It leaves alone every table that is not on the path of \<open>va\<close>.\<close>

definition off_path :: "'a pmm_state_scheme \<Rightarrow> u64 \<Rightarrow> u64 \<Rightarrow> u64 \<Rightarrow> bool" where
  "off_path s root va r \<longleftrightarrow> (\<forall>k \<le> 3. table_at (pt_get s) root (take k (va_path va)) \<noteq> Some r)"

lemma off_path_walk:
  assumes "walk_ok D s0 s root" "off_path s0 root va r" "table_page s0 r" "k \<le> 3" "va_path va \<in> D"
  shows "table_at (pt_get s) root (take k (va_path va)) \<noteq> Some r"
proof
  assume at: "table_at (pt_get s) root (take k (va_path va)) = Some r"
  have "path_in D (take k (va_path va))" using assms(5) by (intro path_in_take path_in_va)
  from walk_okD(5) [OF assms(1) this at] assms(2-4) show False by (auto simp: off_path_def)
qed

lemma ensure_pt_spec:
  assumes s: "vmm_ready s" "tree D (pt_get s) (table_page s) root"
    and e: "ensure_pt root va flags s = (p, t)" and va: "va_path va \<in> D"
  shows "walk_ok D s t root \<and> (p \<noteq> 0 \<longrightarrow> table_at (pt_get t) root (va_path va) = Some p) \<and>
    (3 \<le> card (free_pages s) \<and> 0 \<notin> free_pages s \<longrightarrow> p \<noteq> 0) \<and>
    card (free_pages s) \<le> 3 + card (free_pages t) \<and> free_pages t \<subseteq> free_pages s"
proof -
  let ?i4 = "ucast (idx_pml4 va) :: u64" and ?i3 = "ucast (idx_pdpt va) :: u64"
    and ?i2 = "ucast (idx_pd va) :: u64"
  have path: "va_path va = [?i4, ?i3, ?i2]" by (simp add: va_path_def)
  have ok: "path_in D ([] @ [?i4])" "path_in D ([?i4] @ [?i3])" "path_in D ([?i4, ?i3] @ [?i2])"
    using path_in_take [OF path_in_va [OF va], of 1] path_in_take [OF path_in_va [OF va], of 2] path_in_va [OF va]
    by (simp_all add: path)
  have w0: "walk_ok D s s root" by (rule walk_ok_refl [OF s])
  obtain r1 s1 where l1: "ensure_level root ?i4 flags s = (r1, s1)" by force
  note e1 = ensure_level_spec [OF w0 ok(1) _ l1, simplified]
  show ?thesis
  proof (cases r1)
    case None
    then show ?thesis using e l1 e1 by (auto simp: ensure_pt_def)
  next
    case (Some p1)
    obtain r2 s2 where l2: "ensure_level p1 ?i3 flags s1 = (r2, s2)" by force
    from e1 Some have at1: "table_at (pt_get s1) root [?i4] = Some p1" "walk_ok D s s1 root"
      by auto
    note e2 = ensure_level_spec [OF at1(2) ok(2) at1(1) l2, simplified]
    have c2: "card (free_pages s) \<le> 3 + card (free_pages s2)" "free_pages s2 \<subseteq> free_pages s"
      using e1 e2 by auto
    show ?thesis
    proof (cases r2)
      case None
      have "0 \<notin> free_pages s \<Longrightarrow> 3 \<le> card (free_pages s) \<Longrightarrow> False"
        using e1 e2 None by auto
      then show ?thesis using e l1 l2 e2 c2 Some None by (auto simp: ensure_pt_def)
    next
      case r2: (Some p2)
      obtain r3 s3 where l3: "ensure_level p2 ?i2 flags s2 = (r3, s3)" by force
      from e2 r2 have at2: "table_at (pt_get s2) root [?i4, ?i3] = Some p2" "walk_ok D s s2 root"
        by auto
      note e3 = ensure_level_spec [OF at2(2) ok(3) at2(1) l3, simplified]
      have c3: "card (free_pages s) \<le> 3 + card (free_pages s3)" "free_pages s3 \<subseteq> free_pages s"
        using e1 e2 e3 by auto
      show ?thesis
      proof (cases r3)
        case None
        have "0 \<notin> free_pages s \<Longrightarrow> 3 \<le> card (free_pages s) \<Longrightarrow> False"
          using e1 e2 e3 None by auto
        then show ?thesis using e l1 l2 l3 e3 c3 Some r2 None by (auto simp: ensure_pt_def)
      next
        case r3: (Some p3)
        then have pt: "p = p3" "t = s3" using e l1 l2 l3 Some r2 by (simp_all add: ensure_pt_def)
        have "walk_ok D s s3 root" "table_at (pt_get s3) root (va_path va) = Some p3"
          using e3 r3 path by auto
        moreover from this have "p3 \<noteq> 0"
          using tree_good [OF walk_okD(2) path_in_va [OF va]] by (metis table_page_def)
        ultimately show ?thesis using pt c3 by simp
      qed
    qed
  qed
qed

lemma ensure_pt_frame:
  assumes s: "vmm_ready s" "tree D (pt_get s) (table_page s) root"
    and e: "ensure_pt root va flags s = (p, t)" and va: "va_path va \<in> D"
    and r: "table_page s r" "off_path s root va r" "unat j < 512"
  shows "pt_get t r j = pt_get s r j"
proof -
  let ?i4 = "ucast (idx_pml4 va) :: u64" and ?i3 = "ucast (idx_pdpt va) :: u64"
    and ?i2 = "ucast (idx_pd va) :: u64"
  have path: "va_path va = [?i4, ?i3, ?i2]" by (simp add: va_path_def)
  have ok: "path_in D ([] @ [?i4])" "path_in D ([?i4] @ [?i3])" "path_in D ([?i4, ?i3] @ [?i2])"
    using path_in_take [OF path_in_va [OF va], of 1] path_in_take [OF path_in_va [OF va], of 2] path_in_va [OF va]
    by (simp_all add: path)
  have w0: "walk_ok D s s root" by (rule walk_ok_refl [OF s])
  have off: "table_at (pt_get u) root (take k (va_path va)) \<noteq> Some r"
    if "walk_ok D s u root" "k \<le> 3" for u k
    by (rule off_path_walk [OF that(1) r(2,1) that(2) va])
  obtain r1 s1 where l1: "ensure_level root ?i4 flags s = (r1, s1)" by force
  note e1 = ensure_level_spec [OF w0 ok(1) _ l1, simplified]
  have f1: "pt_get s1 r j = pt_get s r j" using e1 off [OF w0, of 0] r by auto
  show ?thesis
  proof (cases r1)
    case None
    then show ?thesis using e l1 f1 by (simp add: ensure_pt_def)
  next
    case (Some p1)
    obtain r2 s2 where l2: "ensure_level p1 ?i3 flags s1 = (r2, s2)" by force
    from e1 Some have at1: "table_at (pt_get s1) root [?i4] = Some p1" "walk_ok D s s1 root" by auto
    note e2 = ensure_level_spec [OF at1(2) ok(2) at1(1) l2, simplified]
    have "table_page s1 r" "r \<noteq> p1"
      using walk_okD(4) [OF at1(2) r(1)] off [OF at1(2), of 1] at1(1) by (auto simp: path)
    with e2 r(3) f1 have f2: "pt_get s2 r j = pt_get s r j" by auto
    show ?thesis
    proof (cases r2)
      case None
      then show ?thesis using e l1 l2 Some f2 by (simp add: ensure_pt_def)
    next
      case r2: (Some p2)
      obtain r3 s3 where l3: "ensure_level p2 ?i2 flags s2 = (r3, s3)" by force
      from e2 r2 have at2: "table_at (pt_get s2) root [?i4, ?i3] = Some p2" "walk_ok D s s2 root"
        by auto
      note e3 = ensure_level_spec [OF at2(2) ok(3) at2(1) l3, simplified]
      have "table_page s2 r" "r \<noteq> p2"
        using walk_okD(4) [OF at2(2) r(1)] off [OF at2(2), of 2] at2(1) by (auto simp: path)
      with e3 r(3) f2 have "pt_get s3 r j = pt_get s r j" by auto
      moreover have "t = s3" using e l1 l2 l3 Some r2 by (auto simp: ensure_pt_def split: option.splits)
      ultimately show ?thesis by simp
    qed
  qed
qed

section \<open>Mapping a page\<close>

text \<open>The leaf entry that mapping \<open>phys\<close> with \<open>flags\<close> writes.\<close>

definition leaf_value :: "u64 \<Rightarrow> u64 \<Rightarrow> u64" where
  "leaf_value phys flags = (phys AND NOT 0xfff) OR flags OR PTE_P"

lemma leaf_value_present: "leaf_value phys flags AND 1 \<noteq> 0"
  by (simp add: word_and_1_eq_0 leaf_value_def bit_or_iff bit_pte)

lemma nx_absent: "flags AND PTE_NX = 0 \<Longrightarrow> flags AND NOT PTE_NX = flags"
proof (rule bit_word_eqI)
  fix n
  assume "flags AND PTE_NX = 0"
  from arg_cong [OF this, of "\<lambda>w. bit w n"] show "n < LENGTH(64) \<Longrightarrow> bit (flags AND NOT PTE_NX) n = bit flags n"
    by (auto simp: bit_simps bit_pte)
qed

lemma nx_restored:
  assumes "flags AND PTE_NX \<noteq> 0"
  shows "(a OR (flags AND NOT PTE_NX) OR PTE_P) OR PTE_NX = a OR flags OR PTE_P"
proof -
  have "bit flags 63"
  proof (rule ccontr)
    assume "\<not> bit flags 63"
    then have "flags AND PTE_NX = 0" by (intro bit_eqI) (auto simp: bit_and_iff bit_pte)
    with assms show False by simp
  qed
  then show ?thesis by (intro bit_word_eqI) (auto simp: bit_simps bit_pte)
qed

lemma wr64_twice: "wr64 (wr64 m a v) a w = wr64 m a w"
  by (simp add: wr64_def fun_eq_iff)

lemma write_leaf_eq:
  "write_leaf p virt phys flags s = invlpg_local virt (pt_set p (va_slot virt) (leaf_value phys flags) s)"
proof (cases "flags AND PTE_NX = 0")
  case True
  then show ?thesis by (simp add: write_leaf_def va_slot_def leaf_value_def nx_absent)
next
  case False
  have same: "pt_get (pt_set p i v s) p i = v" for i v
    by (simp add: pt_get_def pt_set_def pt_virt_add rd64_wr64_same)
  have twice: "pt_set p i v (pt_set p i w s) = pt_set p i v s" for i v w
    by (simp add: pt_set_def pt_virt_add wr64_twice)
  show ?thesis
    using False by (simp add: write_leaf_def va_slot_def Let_def same twice nx_restored leaf_value_def)
qed

text \<open>Events and CR3 do not matter for the tables.\<close>

lemma machine_frame [simp]:
  "mem (emit e s) = mem s" "g_hhdm (emit e s) = g_hhdm s" "g_bitmap (emit e s) = g_bitmap s"
  "g_total_pages (emit e s) = g_total_pages s" "g_free_bytes (emit e s) = g_free_bytes s"
  "mem (s\<lparr>cr3 := v\<rparr>) = mem s" "g_hhdm (s\<lparr>cr3 := v\<rparr>) = g_hhdm s"
  "g_bitmap (s\<lparr>cr3 := v\<rparr>) = g_bitmap s" "g_total_pages (s\<lparr>cr3 := v\<rparr>) = g_total_pages s"
  "g_free_bytes (s\<lparr>cr3 := v\<rparr>) = g_free_bytes s"
  by (simp_all add: emit_def)

lemma tables_cong:
  fixes s :: "'a pmm_state_scheme" and t :: "'b pmm_state_scheme"
  assumes "mem t = mem s" "g_hhdm t = g_hhdm s" "g_bitmap t = g_bitmap s"
    "g_total_pages t = g_total_pages s" "g_free_bytes t = g_free_bytes s"
  shows "pt_get t = pt_get s" "table_page t = table_page s" "vmm_ready t = vmm_ready s"
    "free_pages t = free_pages s" "translate t = translate s"
proof -
  have b: "bitmap_addr t = bitmap_addr s" "pt_virt t = pt_virt s"
    using assms by (simp_all add: fun_eq_iff bitmap_addr_def pt_virt_add)
  show g: "pt_get t = pt_get s" by (simp add: fun_eq_iff pt_get_def b assms)
  show f: "free_pages t = free_pages s"
    by (simp add: free_pages_def page_used_def b assms)
  show "table_page t = table_page s"
    by (simp add: fun_eq_iff table_page_def page_apart_def b f assms)
  show "vmm_ready t = vmm_ready s"
    by (simp add: vmm_ready_def pmm_inv_def page_apart_def b f assms)
  show "translate t = translate s" by (simp add: fun_eq_iff translate_def g)
qed

lemma invlpg_tables [simp]:
  "pt_get (invlpg_local va s) = pt_get s" "table_page (invlpg_local va s) = table_page s"
  "vmm_ready (invlpg_local va s) = vmm_ready s" "free_pages (invlpg_local va s) = free_pages s"
  "translate (invlpg_local va s) = translate s"
  by (rule tables_cong, simp_all add: invlpg_local_def)+

lemma write_cr3_tables [simp]:
  "pt_get (write_cr3 v s) = pt_get s" "table_page (write_cr3 v s) = table_page s"
  "vmm_ready (write_cr3 v s) = vmm_ready s" "free_pages (write_cr3 v s) = free_pages s"
  "translate (write_cr3 v s) = translate s"
  by (rule tables_cong, simp_all add: write_cr3_def)+

text \<open>The common part of the two mapping functions and of unmapping.\<close>

lemma set_leaf_translate:
  assumes w: "walk_ok D s0 s root" and p: "table_at (pt_get s) root (va_path va) = Some p"
    and t: "t = pt_set p (va_slot va) v s" and va: "va_path va \<in> D"
  shows "vmm_ready t" "tree D (pt_get t) (table_page t) root"
    "va_path x \<in> D \<Longrightarrow> translate t root x = (if same_page x va then (if v AND 1 = 0 then None else Some v)
      else translate s0 root x)"
proof -
  note wd = walk_okD [OF w]
  note pv = path_in_va [OF va]
  have gp: "table_page s p" by (rule tree_good [OF wd(2) pv p])
  show "vmm_ready t" unfolding t by (rule vmm_ready_pt_set [OF wd(1) gp]) simp
  show "tree D (pt_get t) (table_page t) root"
    unfolding t by (rule pt.set_leaf_tree [OF wd(2) pv _ p]) simp_all
  assume "va_path x \<in> D"
  then show "translate t root x = (if same_page x va then (if v AND 1 = 0 then None else Some v)
      else translate s0 root x)"
    unfolding t translate_def
    using pt.set_leaf_at [OF wd(2) pv _ p, of "va_slot va" "va_path x" "va_slot x" v]
      wd(3) [of "va_path x" "va_slot x"] path_in_va [of x D]
    by (simp add: same_page_iff)
qed

text \<open>\<open>vmm_map_page_cr3\<close> and \<open>vmm_map_page_mmio\<close> with the flags they end up with.\<close>

lemma map_common:
  assumes s: "vmm_ready s" "tree D (pt_get s) (table_page s) root"
    and e: "ensure_pt root (vmm_align_down virt) flags s = (p, u)"
    and t: "t = (if p = 0 then u else write_leaf p (vmm_align_down virt) (vmm_align_down phys) flags u)"
    and va: "va_path virt \<in> D"
  shows "vmm_ready t \<and> tree D (pt_get t) (table_page t) root \<and>
    (\<forall>x. va_path x \<in> D \<longrightarrow> translate t root x =
      (if p \<noteq> 0 \<and> same_page x virt then Some (leaf_value (vmm_align_down phys) flags)
       else translate s root x)) \<and>
    (3 \<le> card (free_pages s) \<and> 0 \<notin> free_pages s \<longrightarrow> p \<noteq> 0)"
proof -
  note en = ensure_pt_spec [OF s e, unfolded va_align, OF va]
  show ?thesis
  proof (cases "p = 0")
    case True
    from en have "walk_ok D s u root" by blast
    then show ?thesis
      using True t en walk_okD(3) [of D s u root] path_in_va by (auto simp: walk_ok_def translate_def)
  next
    case False
    then have at: "walk_ok D s u root" "table_at (pt_get u) root (va_path virt) = Some p"
      using en by simp_all
    have "t = invlpg_local (vmm_align_down virt)
        (pt_set p (va_slot virt) (leaf_value (vmm_align_down phys) flags) u)"
      using t False by (simp add: write_leaf_eq)
    then show ?thesis
      using set_leaf_translate [OF at _ va] False leaf_value_present by simp
  qed
qed

lemma idx_align:
  "(ucast (idx_pml4 (vmm_align_down va)) :: u64) = ucast (idx_pml4 va)"
  "(ucast (idx_pdpt (vmm_align_down va)) :: u64) = ucast (idx_pdpt va)"
  "(ucast (idx_pd (vmm_align_down va)) :: u64) = ucast (idx_pd va)"
  "(ucast (idx_pt (vmm_align_down va)) :: u64) = ucast (idx_pt va)"
  using va_align [of va] by (simp_all add: va_path_def va_slot_def)

lemma unmap_cases:
  "vmm_unmap_page_cr3 root virt s =
    (case table_at (pt_get s) root (va_path virt) of
       None \<Rightarrow> (-1, s)
     | Some p \<Rightarrow> (0, invlpg_local (vmm_align_down virt) (pt_set p (va_slot virt) 0 s)))"
  by (simp add: vmm_unmap_page_cr3_def va_path_def va_slot_def idx_align PTE_P_1 Let_def)

section \<open>Properties of address spaces\<close>

text \<open>
  The invariant of one address space, as far as the addresses of \<open>A\<close> are concerned: the allocator is
  ready and the tables on the paths of these addresses form a tree. Whatever the boot loader left
  elsewhere, large pages included, does not matter.
\<close>

definition space_ok :: "u64 set \<Rightarrow> 'a pmm_state_scheme \<Rightarrow> u64 \<Rightarrow> bool" where
  "space_ok A s root \<longleftrightarrow> vmm_ready s \<and> tree (paths A) (pt_get s) (table_page s) root"

lemma map_page_spec:
  assumes "space_ok A s root" "virt \<in> A" "vmm_map_page_cr3 root virt phys flags s = (rc, t)"
  shows "space_ok A t root \<and> (rc = 0 \<or> rc = -1) \<and>
    (\<forall>x \<in> A. translate t root x =
      (if rc = 0 \<and> same_page x virt
       then Some (leaf_value (vmm_align_down phys) (flags AND NOT (PTE_PCD OR PTE_PWT)))
       else translate s root x))"
proof -
  let ?f = "flags AND NOT (PTE_PCD OR PTE_PWT)"
  obtain p u where e: "ensure_pt root (vmm_align_down virt) ?f s = (p, u)" by force
  with assms(3) have t:
    "t = (if p = 0 then u else write_leaf p (vmm_align_down virt) (vmm_align_down phys) ?f u)"
    "rc = (if p = 0 then -1 else 0)"
    by (auto simp: vmm_map_page_cr3_def Let_def split: if_splits)
  from assms(1) have "vmm_ready s" "tree (paths A) (pt_get s) (table_page s) root"
    by (simp_all add: space_ok_def)
  from map_common [OF this e t(1) va_in_paths [OF assms(2)]] t(2) show ?thesis
    by (auto simp: space_ok_def)
qed

lemma map_page_succeeds:
  assumes "space_ok A s root" "virt \<in> A" "3 \<le> card (free_pages s)" "0 \<notin> free_pages s"
  shows "fst (vmm_map_page_cr3 root virt phys flags s) = 0"
proof -
  let ?f = "flags AND NOT (PTE_PCD OR PTE_PWT)"
  obtain p u where e: "ensure_pt root (vmm_align_down virt) ?f s = (p, u)" by force
  from assms(1) have "vmm_ready s" "tree (paths A) (pt_get s) (table_page s) root"
    by (simp_all add: space_ok_def)
  from map_common [OF this e refl va_in_paths [OF assms(2)], of 0] assms(3,4) have "p \<noteq> 0" by blast
  with e show ?thesis by (simp add: vmm_map_page_cr3_def Let_def)
qed

text \<open>
  C1: In a space that is well formed on the addresses of \<open>A\<close>, \<open>virt\<close> among them, \<open>vmm_map_page_cr3\<close>
  either fails with -1 and leaves every translation of \<open>A\<close> as it was, or returns 0 and maps exactly the
  page of \<open>virt\<close>, to the page of \<open>phys\<close> with the flags less the two cache bits; all other translations
  of \<open>A\<close> and the invariant of the space are kept.
\<close>

theorem vmm_map_page_translation:
  assumes "space_ok A s root" "virt \<in> A" "vmm_map_page_cr3 root virt phys flags s = (rc, t)"
  shows "space_ok A t root \<and> (rc = 0 \<or> rc = -1) \<and>
    (\<forall>x \<in> A. translate t root x =
      (if rc = 0 \<and> same_page x virt
       then Some (leaf_value (vmm_align_down phys) (flags AND NOT (PTE_PCD OR PTE_PWT)))
       else translate s root x))"
  using assms by (rule map_page_spec)

text \<open>
  C20: With three free pages, none of them page 0, mapping cannot fail.
\<close>

theorem vmm_map_page_succeeds:
  assumes "space_ok A s root" "virt \<in> A" "3 \<le> card (free_pages s)" "0 \<notin> free_pages s"
  shows "fst (vmm_map_page_cr3 root virt phys flags s) = 0"
  using assms by (rule map_page_succeeds)

text \<open>
  Unmapping returns 0 exactly when the three upper levels are present; the page of \<open>virt\<close> is
  unmapped afterwards in either case, and all other translations are kept.
\<close>

lemma unmap_page_spec:
  assumes "space_ok A s root" "virt \<in> A" "vmm_unmap_page_cr3 root virt s = (rc, t)"
  shows "space_ok A t root \<and>
    (rc = 0 \<longleftrightarrow> table_at (pt_get s) root (va_path virt) \<noteq> None) \<and>
    (\<forall>x \<in> A. translate t root x =
      (if same_page x virt then None else translate s root x))"
proof (cases "table_at (pt_get s) root (va_path virt)")
  case None
  moreover from this have "translate s root x = None" if "same_page x virt" for x
    using that by (simp add: translate_def leaf_at_def same_page_iff)
  ultimately show ?thesis using assms by (auto simp: unmap_cases)
next
  case (Some p)
  from assms(1) have w: "walk_ok (paths A) s s root" by (simp add: space_ok_def walk_ok_refl)
  from set_leaf_translate [OF w Some refl va_in_paths [OF assms(2)], where v = 0] Some assms(3) show ?thesis
    by (auto simp: unmap_cases space_ok_def)
qed

text \<open>
  The device variant \<open>vmm_map_page_mmio\<close> works on the current space and keeps the cache bits.
\<close>

lemma map_page_mmio_spec:
  assumes "space_ok A s (read_cr3 s AND NOT 0xfff)" "virt \<in> A" "vmm_map_page_mmio virt phys flags s = (rc, t)"
  shows "space_ok A t (read_cr3 s AND NOT 0xfff) \<and> (rc = 0 \<or> rc = -1) \<and>
    (\<forall>x \<in> A. translate t (read_cr3 s AND NOT 0xfff) x =
      (if rc = 0 \<and> same_page x virt then Some (leaf_value (vmm_align_down phys) flags)
       else translate s (read_cr3 s AND NOT 0xfff) x))"
proof -
  let ?root = "read_cr3 s AND NOT 0xfff"
  obtain p u where e: "ensure_pt ?root (vmm_align_down virt) flags s = (p, u)" by force
  with assms(3) have t:
    "t = (if p = 0 then u else write_leaf p (vmm_align_down virt) (vmm_align_down phys) flags u)"
    "rc = (if p = 0 then -1 else 0)"
    by (auto simp: vmm_map_page_mmio_def Let_def split: if_splits)
  from assms(1) have "vmm_ready s" "tree (paths A) (pt_get s) (table_page s) ?root"
    by (simp_all add: space_ok_def)
  from map_common [OF this e t(1) va_in_paths [OF assms(2)]] t(2) show ?thesis
    by (auto simp: space_ok_def)
qed

text \<open>
  C19: Unmapping undoes mapping: after a successful map, unmapping the same page returns 0, leaves
  that page unmapped, and every other address of \<open>A\<close> translates as it did before the map.
\<close>

theorem vmm_map_unmap_roundtrip:
  assumes "space_ok A s root" "virt \<in> A" "vmm_map_page_cr3 root virt phys flags s = (0, t)"
    and "vmm_unmap_page_cr3 root virt t = (rc, u)"
  shows "space_ok A u root \<and> rc = 0 \<and>
    (\<forall>x \<in> A. translate u root x = (if same_page x virt then None else translate s root x))"
proof -
  let ?f = "flags AND NOT (PTE_PCD OR PTE_PWT)"
  obtain p v where e: "ensure_pt root (vmm_align_down virt) ?f s = (p, v)" by force
  with assms(3) have t:
    "t = (if p = 0 then v else write_leaf p (vmm_align_down virt) (vmm_align_down phys) ?f v)"
    "p \<noteq> 0"
    by (auto simp: vmm_map_page_cr3_def Let_def split: if_splits)
  from assms(1) have s: "vmm_ready s" "tree (paths A) (pt_get s) (table_page s) root"
    by (simp_all add: space_ok_def)
  note m = map_common [OF s e t(1) va_in_paths [OF assms(2)]]
  then have ok: "space_ok A t root" by (simp add: space_ok_def)
  have "same_page virt virt" by (simp add: same_page_def)
  with m t(2) assms(2) have "translate t root virt \<noteq> None" by auto
  then have "table_at (pt_get t) root (va_path virt) \<noteq> None"
    by (auto simp: translate_def leaf_at_def split: option.splits)
  with unmap_page_spec [OF ok assms(2,4)] m show ?thesis by auto
qed

text \<open>
  C8: Mapping in one address space does not disturb another: if no table on the path of \<open>virt\<close> in
  the space of \<open>a\<close> is a table of the space of \<open>b\<close> on the paths of \<open>B\<close>, every translation of \<open>B\<close> there stays.
\<close>

theorem vmm_map_page_isolated:
  assumes "space_ok A s a" "space_ok B s b" "virt \<in> A"
    and apart: "\<And>r qs. path_in (paths B) qs \<Longrightarrow> table_at (pt_get s) b qs = Some r \<Longrightarrow> off_path s a virt r"
    and "vmm_map_page_cr3 a virt phys flags s = (rc, t)"
  shows "space_ok B t b \<and> (\<forall>x \<in> B. translate t b x = translate s b x)"
proof -
  let ?f = "flags AND NOT (PTE_PCD OR PTE_PWT)"
  obtain p u where e: "ensure_pt a (vmm_align_down virt) ?f s = (p, u)" by force
  with assms(5) have t:
    "t = (if p = 0 then u else write_leaf p (vmm_align_down virt) (vmm_align_down phys) ?f u)"
    by (auto simp: vmm_map_page_cr3_def Let_def split: if_splits)
  have sa: "vmm_ready s" "tree (paths A) (pt_get s) (table_page s) a" "tree (paths B) (pt_get s) (table_page s) b"
    using assms(1,2) by (simp_all add: space_ok_def)
  note va = va_in_paths [OF assms(3)]
  have w: "walk_ok (paths A) s u a" and at: "p \<noteq> 0 \<Longrightarrow> table_at (pt_get u) a (va_path virt) = Some p"
    using ensure_pt_spec [OF sa(1,2) e] va by simp_all
  have off: "off_path s a (vmm_align_down virt) r \<longleftrightarrow> off_path s a virt r" for r
    by (simp add: off_path_def)
  define G where "G r \<longleftrightarrow> table_page s r \<and> off_path s a virt r" for r
  have G: "tree (paths B) (pt_get s) G b"
    using sa(3) apart unfolding tree_def G_def by blast
  have frame: "pt_get t r j = pt_get s r j" "table_page t r" if "G r" "unat j < 512" for r j
  proof -
    have u: "pt_get u r j = pt_get s r j" "table_page u r"
      using that ensure_pt_frame [OF sa(1,2) e] va off walk_okD(4) [OF w] by (auto simp: G_def)
    have "pt_get t r j = pt_get u r j \<and> table_page t r"
    proof (cases "p = 0")
      case False
      have gp: "table_page u p"
        by (rule tree_good [OF walk_okD(2) [OF w] path_in_va [OF va] at [OF False]])
      have "take 3 (va_path virt) = va_path virt" by simp
      then have "r \<noteq> p"
        using off_path_walk [OF w, of virt r 3] va that(1) at [OF False] by (auto simp: G_def)
      then show ?thesis
        using t False pt_get_pt_set [OF gp u(2) _ that(2)] u(2)
        by (simp add: write_leaf_eq table_page_pt_set [OF gp])
    qed (use t u in simp)
    with u show "pt_get t r j = pt_get s r j" "table_page t r" by simp_all
  qed
  have "tree (paths B) (pt_get t) (table_page t) b"
    by (rule tree_cong [OF G table_at_agree [OF G frame(1)]])
      (use frame(2) [of _ 0] in simp_all)
  moreover have "vmm_ready t"
    using map_common [OF sa(1,2) e t va] by blast
  ultimately show ?thesis
    using leaf_at_agree [OF G frame(1)] path_in_va [OF va_in_paths] by (simp add: space_ok_def translate_def)
qed

lemma space_ok_write_cr3: "space_ok A (write_cr3 v s) root = space_ok A s root"
  by (simp add: space_ok_def)

text \<open>
  \<open>vmm_map_page_space\<close> maps in the space it is given, whatever space is current, and comes back
  to the space it was called in (the low twelve bits of CR3 cleared).
\<close>

theorem vmm_map_page_space_translation:
  assumes "space_ok A s (pml4_phys space)" "pml4_phys space \<noteq> 0" "virt \<in> A"
    and "vmm_map_page_space space virt phys flags s = (rc, t)"
  shows "space_ok A t (pml4_phys space) \<and> read_cr3 t = read_cr3 s AND NOT 0xfff \<and>
    (\<forall>x \<in> A. translate t (pml4_phys space) x =
      (if rc = 0 \<and> same_page x virt
       then Some (leaf_value (vmm_align_down phys) (flags AND NOT (PTE_PCD OR PTE_PWT)))
       else translate s (pml4_phys space) x))"
proof -
  let ?f = "flags AND NOT (PTE_PCD OR PTE_PWT)" and ?root = "pml4_phys space"
  let ?s = "write_cr3 ?root s"
  obtain p u where e: "ensure_pt ?root (vmm_align_down virt) ?f ?s = (p, u)" by force
  define v where "v = (if p = 0 then u
      else write_leaf p (vmm_align_down virt) (vmm_align_down phys) ?f u)"
  have t: "t = write_cr3 (read_cr3 s AND NOT 0xfff) v" "rc = (if p = 0 then -1 else 0)"
    using assms(2,4) e
    by (auto simp: vmm_map_page_space_def vmm_map_page_cr3_def v_def Let_def split: if_splits)
  have "space_ok A ?s ?root" using assms(1) by (simp add: space_ok_write_cr3)
  then have s: "vmm_ready ?s" "tree (paths A) (pt_get ?s) (table_page ?s) ?root"
    by (simp_all add: space_ok_def)
  have "read_cr3 t = read_cr3 s AND NOT 0xfff" by (simp add: t(1) read_cr3_def write_cr3_def)
  with map_common [OF s e v_def va_in_paths [OF assms(3)]] t(2) show ?thesis
    by (auto simp: space_ok_def t(1))
qed

section \<open>New address spaces\<close>

lemma kernel_cr3_frame [simp]:
  "g_kernel_cr3_phys (pt_set p i v s) = g_kernel_cr3_phys s"
  "g_kernel_cr3_phys (bitmap_set r s) = g_kernel_cr3_phys s"
  "g_kernel_cr3_phys (claim_run r n s) = g_kernel_cr3_phys s"
proof -
  have set: "g_kernel_cr3_phys (bitmap_set r s) = g_kernel_cr3_phys s"
    for r and s :: "'b vmm_state_scheme"
    by (simp add: bitmap_set_def Let_def)
  show "g_kernel_cr3_phys (bitmap_set r s) = g_kernel_cr3_phys s" by (rule set)
  show "g_kernel_cr3_phys (claim_run r n s) = g_kernel_cr3_phys s"
    unfolding claim_run_def by (intro for_u64_frame set)
qed (simp add: pt_set_def)

lemma kernel_cr3_alloc_pt:
  "alloc_pt_page_phys s = (p, t) \<Longrightarrow> g_kernel_cr3_phys t = g_kernel_cr3_phys s"
  unfolding alloc_pt_page_phys_def pmm_alloc_pages_eq Let_def
  by (auto split: prod.splits if_splits option.splits simp: for_u64_frame)

lemma create_space_tables:
  fixes s :: "'a vmm_state_scheme"
  assumes s: "space_ok A s (g_kernel_cr3_phys s)" and c: "vmm_create_space s = (sp, t)"
    and p: "p = pml4_phys sp" "p \<noteq> 0"
  shows "vmm_ready t" "table_page t p" "\<not> table_page s p"
    "table_page s q \<Longrightarrow> table_page t q"
    "table_page s q \<Longrightarrow> unat j < 512 \<Longrightarrow> pt_get t q j = pt_get s q j"
    "unat j < 512 \<Longrightarrow>
      pt_get t p j = (if 256 \<le> unat j then pt_get s (g_kernel_cr3_phys s) j else 0)"
proof -
  let ?k = "g_kernel_cr3_phys s"
  obtain new u where a: "alloc_pt_page_phys s = (new, u)" by (cases "alloc_pt_page_phys s")
  have t: "new = p" "t = for_u64 256 512 (\<lambda>i s. pt_set p i (pt_get s (g_kernel_cr3_phys s) i) s) u"
    using c p a by (auto simp: vmm_create_space_def Let_def split: if_splits)
  have ready: "vmm_ready s" and gk: "table_page s ?k"
    using s tree_good [of _ _ _ ?k "[]"] by (auto simp: space_ok_def)
  note spec = alloc_pt_spec [OF ready a, unfolded t(1)]
  have gp: "table_page u p" "\<not> table_page s p" "\<And>i. unat i < 512 \<Longrightarrow> pt_get u p i = 0"
    using spec(4) p(2) by blast+
  have kp: "?k \<noteq> p" using gk gp(2) by blast
  let ?Q = "\<lambda>x. vmm_ready x \<and> g_kernel_cr3_phys x = ?k"
  have n: "unat (512 :: u64) \<le> 512" "(256 :: u64) \<le> 512" by simp_all
  have Q: "?Q u" using spec(1) kernel_cr3_alloc_pt [OF a] by simp
  have step: "\<forall>x k v. ?Q x \<and> table_page x p \<and> unat k < 512 \<longrightarrow> ?Q (pt_set p k v x)"
    by (simp add: vmm_ready_pt_set)
  have f: "\<forall>x k. k < 512 \<and> table_page x p \<and> ?Q x \<and>
      (\<forall>q j. table_page u q \<and> q \<noteq> p \<and> unat j < 512 \<longrightarrow> pt_get x q j = pt_get u q j) \<longrightarrow>
      pt_get x (g_kernel_cr3_phys x) k = pt_get s ?k k"
    using spec(2) [OF gk] kp spec(3) [OF gk] by (simp add: word_less_nat_alt)
  note fill = pt.fill [where Q = ?Q and f = "\<lambda>x k. pt_get x (g_kernel_cr3_phys x) k", OF gp(1) n f Q step,
      folded t(2)]
  show "vmm_ready t" using fill(1) by blast
  show "table_page t p" "\<not> table_page s p" using fill(2) gp by blast+
  show "table_page s q \<Longrightarrow> table_page t q" using fill(2) spec(2) by blast
  show "pt_get t q j = pt_get s q j" if "table_page s q" "unat j < 512"
    using fill(3) [OF spec(2) [OF that(1)] that(2)] spec(3) [OF that] that(1) gp(2) by auto
  show "unat j < 512 \<Longrightarrow>
      pt_get t p j = (if 256 \<le> unat j then pt_get s ?k j else 0)"
    using fill(3) [OF gp(1)] gp(3) by (simp add: word_le_nat_alt word_less_nat_alt)
qed

text \<open>The tables below the new root are those below the kernel root, upper half only.\<close>

lemma create_space_table_at:
  assumes new: "\<And>j. unat j < 512 \<Longrightarrow> rd' p j = (if 256 \<le> unat j then rd k j else 0)"
    and old: "tree D rd G k" "\<And>q j. G q \<Longrightarrow> unat j < 512 \<Longrightarrow> rd' q j = rd q j"
    and ps: "path_ok (i # ps)" "256 \<le> unat i \<Longrightarrow> path_in D (i # ps)"
  shows "table_at rd' p (i # ps) = (if 256 \<le> unat i then table_at rd k (i # ps) else None)"
proof -
  have i: "unat i < 512" using ps(1) by (simp add: path_ok_def)
  have gk: "G k" using tree_good [OF old(1) path_in_Nil] by simp
  have "rd' p i = (if 256 \<le> unat i then rd' k i else 0)" using new [OF i] old(2) [OF gk i] by simp
  moreover have "256 \<le> unat i \<Longrightarrow> table_at rd' k (i # ps) = table_at rd k (i # ps)"
    by (rule table_at_agree [OF old ps(2)])
  ultimately show ?thesis by (auto simp: Let_def)
qed

lemma create_space_tree:
  assumes new: "\<And>j. unat j < 512 \<Longrightarrow> rd' p j = (if 256 \<le> unat j then rd k j else 0)"
    and old: "tree D rd G k" "\<And>q j. G q \<Longrightarrow> unat j < 512 \<Longrightarrow> rd' q j = rd q j"
    and G: "\<And>q. G q \<Longrightarrow> G' q" "G' p" "\<not> G p"
    and E: "\<And>i ps. path_in E (i # ps) \<Longrightarrow> 256 \<le> unat i \<Longrightarrow> path_in D (i # ps)"
  shows "tree E rd' G' p"
proof -
  note at = create_space_table_at [OF new old]
  have at': "table_at rd' p ps = Some r \<longleftrightarrow> (ps = [] \<and> r = p) \<or> (ps \<noteq> [] \<and> 256 \<le> unat (hd ps) \<and> table_at rd k ps = Some r)"
    if "path_in E ps" for ps r
    using that at E path_in_ok [OF that] by (cases ps) auto
  have up: "path_in D ps" if "path_in E ps" "ps \<noteq> []" "256 \<le> unat (hd ps)" for ps
    using that E by (cases ps) auto
  show ?thesis
    unfolding tree_def
  proof (intro conjI allI impI; elim conjE)
    fix ps r
    assume "path_in E ps" "table_at rd' p ps = Some r"
    with at' [of ps r] have "r = p \<or> G r" using tree_good [OF old(1), of ps r] up by blast
    then show "G' r" using G by blast
  next
    fix ps qs r
    assume *: "path_in E ps" "path_in E qs" "table_at rd' p ps = Some r" "table_at rd' p qs = Some r"
    have "(ps = [] \<and> r = p) \<or> (ps \<noteq> [] \<and> path_in D ps \<and> table_at rd k ps = Some r)"
      "(qs = [] \<and> r = p) \<or> (qs \<noteq> [] \<and> path_in D qs \<and> table_at rd k qs = Some r)"
      using at' [OF *(1), THEN iffD1, OF *(3)] at' [OF *(2), THEN iffD1, OF *(4)] up *(1,2) by blast+
    moreover have "\<not> (path_in D rs \<and> table_at rd k rs = Some p)" for rs
      using tree_good [OF old(1)] G(3) by blast
    ultimately show "ps = qs" using tree_unique [OF old(1)] by blast
  qed
qed

text \<open>Addresses of the lower half of an address space.\<close>

definition lower_half :: "u64 set" where
  "lower_half = {x. unat (idx_pml4 x) < 256}"

lemma path_in_half:
  assumes "path_in (paths (A \<union> lower_half)) (i # ps)" "256 \<le> unat i"
  shows "path_in (paths A) (i # ps)"
proof -
  obtain rs x where x: "i # ps @ rs = va_path x" "x \<in> A \<union> lower_half" and ok: "path_ok (i # ps)"
    using assms(1) by (auto simp: path_in_def paths_def)
  then have "i = ucast (idx_pml4 x)" by (simp add: va_path_def)
  then have "x \<notin> lower_half" using assms(2) by (simp add: lower_half_def unat_ucast_up)
  then have "(i # ps) @ rs \<in> paths A" using x by auto
  then show ?thesis using ok unfolding path_in_def by blast
qed

text \<open>
  C7: A new address space shares the kernel half: addresses of \<open>A\<close> whose top index is 256 or more
  translate as in the kernel space, all others are unmapped, the kernel space is unchanged on \<open>A\<close>, and
  the new space satisfies the invariant on \<open>A\<close> and on all of the lower half.
\<close>

theorem vmm_create_space_shares_kernel:
  assumes "space_ok A s (g_kernel_cr3_phys s)" "vmm_create_space s = (sp, t)" "pml4_phys sp \<noteq> 0"
  shows "space_ok (A \<union> lower_half) t (pml4_phys sp) \<and> space_ok A t (g_kernel_cr3_phys s) \<and>
    (\<forall>x \<in> A. translate t (g_kernel_cr3_phys s) x = translate s (g_kernel_cr3_phys s) x) \<and>
    (\<forall>x \<in> A \<union> lower_half. translate t (pml4_phys sp) x =
      (if 256 \<le> unat (idx_pml4 x) then translate s (g_kernel_cr3_phys s) x else None))"
proof -
  let ?k = "g_kernel_cr3_phys s" and ?p = "pml4_phys sp" and ?D = "paths A"
  note c = create_space_tables [OF assms(1,2) refl assms(3)]
  have old: "tree ?D (pt_get s) (table_page s) ?k" using assms(1) by (simp add: space_ok_def)
  note at = create_space_table_at [where rd' = "pt_get t", OF c(6) old c(5)]
  have kernel: "tree ?D (pt_get t) (table_page t) ?k"
    by (rule tree_cong [OF old table_at_agree [OF old c(5)] c(4)])
  have "tree (paths (A \<union> lower_half)) (pt_get t) (table_page t) ?p"
    by (rule create_space_tree [where rd = "pt_get s" and G = "table_page s" and D = ?D])
      (use c old path_in_half in auto)
  moreover have "translate t ?k x = translate s ?k x" if "x \<in> A" for x
    unfolding translate_def by (rule leaf_at_agree [OF old c(5)]) (use that in auto)
  moreover have "translate t ?p x = (if 256 \<le> unat (idx_pml4 x) then translate s ?k x else None)"
    if x: "x \<in> A \<union> lower_half" for x
  proof -
    have path: "va_path x = ucast (idx_pml4 x) # tl (va_path x)" by (simp add: va_path_def)
    have i: "unat (ucast (idx_pml4 x) :: u64) = unat (idx_pml4 x)" by (rule unat_ucast_up) simp
    have up: "256 \<le> unat (idx_pml4 x) \<Longrightarrow> va_path x \<in> ?D"
      using x by (auto simp: lower_half_def)
    have "table_at (pt_get t) ?p (va_path x) =
      (if 256 \<le> unat (idx_pml4 x) then table_at (pt_get s) ?k (va_path x) else None)"
      using at [of "ucast (idx_pml4 x)" "tl (va_path x)"] path i up path_in_va
      by (metis path_ok_va(1))
    then show ?thesis
      using c(5) [OF tree_good [OF old path_in_va [OF up]] path_ok_va(3)]
      by (auto simp: translate_def leaf_at_def split: option.splits)
  qed
  ultimately show ?thesis using c(1) kernel by (simp add: space_ok_def)
qed

section \<open>A small machine with two empty spaces\<close>

text \<open>
  Twenty-four pages: page 0 and the bitmap in page 1 are in use, pages 5 and 6 are two roots without
  entries.
\<close>

definition demo_vmm :: vmm_state where
  "demo_vmm =
    \<lparr>trace = [], mem = (\<lambda>a. if a = 0x1000 then 0x63 else 0), cr3 = 0x5000, msrs = (\<lambda>_. 0),
     limine_requests = initial_requests, g_boot_info = zero_boot_info,
     g_hhdm = 0, g_bitmap = 0x1000, g_bitmap_bytes = 3, g_total_bytes = 98304,
     g_free_bytes = 81920, g_total_pages = 24, g_kernel_cr3_phys = 0x5000\<rparr>"

lemma demo_vmm_free: "free_pages demo_vmm = {2..<5} \<union> {7..<24}"
proof (rule set_eqI)
  fix k
  have "\<forall>k\<in>set [0..<24]. page_used demo_vmm (of_nat k) \<longleftrightarrow> k = 0 \<or> k = 1 \<or> k = 5 \<or> k = 6"
    by code_simp
  then have "k < 24 \<Longrightarrow> page_used demo_vmm (of_nat k) \<longleftrightarrow> k = 0 \<or> k = 1 \<or> k = 5 \<or> k = 6" by simp
  moreover have "unat (g_total_pages demo_vmm) = 24" by (simp add: demo_vmm_def)
  ultimately show "k \<in> free_pages demo_vmm \<longleftrightarrow> k \<in> {2..<5} \<union> {7..<24}"
    by (cases "k < 24") (auto simp: free_pages_def)
qed

lemma demo_vmm_card: "card (free_pages demo_vmm) = 20"
  unfolding demo_vmm_free by (subst card_Un_disjoint) auto

lemma demo_page_apart: "x \<noteq> 1 \<Longrightarrow> unat x < 24 \<Longrightarrow> page_apart demo_vmm (x * PAGE_SIZE)"
proof -
  assume x: "x \<noteq> 1" "unat x < 24"
  have small: "unat x < 2 ^ 52" using x(2) by simp
  have far: "\<not> unat (0x1000 + d - x * PAGE_SIZE) < 4096" if d: "unat d < 4096" for d
  proof
    assume near: "unat (0x1000 + d - x * PAGE_SIZE) < 4096"
    have "x * PAGE_SIZE + (0x1000 + d - x * PAGE_SIZE) = 0x1000 + d" by simp
    from aligned_window_unique [where n = 12, OF this] have "x * PAGE_SIZE = 0x1000"
      using near d unat_pages [OF small] by (simp add: aligned_unat)
    then have "unat x = 1"
      using unat_pages [OF small] by (simp add: word_unat_eq_iff)
    with x(1) show False by (simp add: word_unat_eq_iff)
  qed
  show "page_apart demo_vmm (x * PAGE_SIZE)"
    unfolding page_apart_def
  proof (intro allI impI)
    fix y
    assume "y < g_total_pages demo_vmm"
    then have "unat (drop_bit 3 y) < 3"
      by (simp add: demo_vmm_def word_less_nat_alt unat_drop_bit less_mult_imp_div_less)
    then have "unat (drop_bit 3 y) < 4096" by simp
    then show "\<not> unat (bitmap_addr demo_vmm y - pt_virt demo_vmm (x * PAGE_SIZE)) < 4096"
      using far by (auto simp: bitmap_addr_def pt_virt_add demo_vmm_def)
  qed
qed

lemma demo_vmm_ready: "vmm_ready demo_vmm"
proof -
  have "unat x \<in> free_pages demo_vmm \<Longrightarrow> page_apart demo_vmm (x * PAGE_SIZE)" for x
    by (rule demo_page_apart) (auto simp: demo_vmm_free)
  moreover have "pmm_inv demo_vmm"
    unfolding pmm_inv_def demo_vmm_card by (simp add: demo_vmm_def)
  moreover have "aligned 12 (g_hhdm demo_vmm)" by (simp add: demo_vmm_def aligned_def)
  ultimately show ?thesis by (simp add: vmm_ready_def)
qed

lemma demo_root: "table_page demo_vmm 0x5000" "table_page demo_vmm 0x6000"
proof -
  have "page_apart demo_vmm (5 * PAGE_SIZE)" "page_apart demo_vmm (6 * PAGE_SIZE)"
    by (rule demo_page_apart, simp_all)+
  then show "table_page demo_vmm 0x5000" "table_page demo_vmm 0x6000"
    by (simp_all add: table_page_def demo_vmm_free PAGE_SIZE_def aligned_unat)
      (simp_all add: demo_vmm_def)
qed

lemma demo_root_empty: "unat i < 512 \<Longrightarrow> r = 0x5000 \<or> r = 0x6000 \<Longrightarrow> pt_get demo_vmm r i = 0"
proof -
  assume i: "unat i < 512" and r: "r = 0x5000 \<or> r = 0x6000"
  have "mem demo_vmm (cell (pt_virt demo_vmm r) i + k) = 0" if "unat k < 8" for k
  proof -
    have o: "unat (8 * i + k) < 4096"
      using that i by (subst unat_add_no_wrap) (simp_all add: unat_cell_offset)
    then have "unat (r + (8 * i + k)) = unat r + unat (8 * i + k)"
      using r by (intro unat_add_no_wrap) auto
    with r have "unat (cell (pt_virt demo_vmm r) i + k) \<noteq> unat (0x1000 :: u64)"
      by (auto simp: cell_def pt_virt_add demo_vmm_def add.assoc)
    then show ?thesis by (auto simp: demo_vmm_def)
  qed
  then have "pt_get demo_vmm r i = rd64 (\<lambda>_. 0) 0"
    unfolding pt_get_def by (rule rd64_cong)
  then show "pt_get demo_vmm r i = 0" by (simp add: rd64_def)
qed

lemma path_ok_vas: "path_ok (va_path x) \<and> va_path x \<noteq> []"
  using path_ok_va(1) [of x] by (simp add: va_path_def)

lemma demo_paths:
  "r = 0x5000 \<or> r = 0x6000 \<Longrightarrow> path_ok ps \<Longrightarrow>
    table_at (pt_get demo_vmm) r ps = (if ps = [] then Some r else None)"
  using demo_root_empty by (cases ps) (auto simp: path_ok_def Let_def)

lemma demo_space_ok: "space_ok A demo_vmm 0x5000" "space_ok A demo_vmm 0x6000"
  using demo_vmm_ready demo_root
  by (auto simp: space_ok_def tree_def demo_paths dest!: path_in_ok split: if_splits)

theorem vmm_map_page_succeeds_witness: "fst (vmm_map_page_cr3 0x5000 0x400123 0x3456 PTE_W demo_vmm) = 0"
  by (rule vmm_map_page_succeeds [OF demo_space_ok(1) UNIV_I]) (simp_all add: demo_vmm_card, simp add: demo_vmm_free)

text \<open>The map operation on the demo state, without fixing its result.\<close>

lemma demo_map: "\<exists>rc t. vmm_map_page_cr3 0x5000 0x400123 0x3456 PTE_W demo_vmm = (rc, t)"
  by (meson surj_pair)

lemma demo_map_succeeds: "fst (vmm_map_page_cr3 0x5000 0x400123 0x3456 PTE_W demo_vmm) = 0"
  by (rule map_page_succeeds [OF demo_space_ok(1) UNIV_I]) (simp_all add: demo_vmm_card, simp add: demo_vmm_free)

theorem vmm_map_page_translation_witness:
  "\<exists>rc t. vmm_map_page_cr3 0x5000 0x400123 0x3456 PTE_W demo_vmm = (rc, t) \<and> space_ok UNIV t 0x5000 \<and>
    translate t 0x5000 0x7000 = translate demo_vmm 0x5000 0x7000"
proof -
  obtain rc t where m: "vmm_map_page_cr3 0x5000 0x400123 0x3456 PTE_W demo_vmm = (rc, t)"
    using demo_map by blast
  have "\<not> same_page 0x7000 0x400123" by (simp add: same_page_def)
  with vmm_map_page_translation [OF demo_space_ok(1) UNIV_I m] m show ?thesis by auto
qed

theorem vmm_map_unmap_roundtrip_witness:
  "\<exists>t u. vmm_map_page_cr3 0x5000 0x400123 0x3456 PTE_W demo_vmm = (0, t) \<and>
    vmm_unmap_page_cr3 0x5000 0x400123 t = (0, u) \<and> space_ok UNIV u 0x5000"
proof -
  obtain rc t where m: "vmm_map_page_cr3 0x5000 0x400123 0x3456 PTE_W demo_vmm = (rc, t)"
    using demo_map by blast
  obtain rc' u where u: "vmm_unmap_page_cr3 0x5000 0x400123 t = (rc', u)" by force
  have "rc = 0" using demo_map_succeeds m by simp
  with vmm_map_unmap_roundtrip [OF demo_space_ok(1) UNIV_I _ u] m u show ?thesis by auto
qed

theorem vmm_map_page_isolated_witness:
  "\<exists>rc t. vmm_map_page_cr3 0x5000 0x400123 0x3456 PTE_W demo_vmm = (rc, t) \<and>
    space_ok UNIV t 0x6000 \<and> translate t 0x6000 0x400123 = None"
proof -
  obtain rc t where m: "vmm_map_page_cr3 0x5000 0x400123 0x3456 PTE_W demo_vmm = (rc, t)"
    using demo_map by blast
  have path: "path_ok (take k (va_path 0x400123))" for k
    using path_ok_va(1) [of "0x400123"] by (auto simp: path_ok_def dest: in_set_takeD)
  have "off_path demo_vmm 0x5000 0x400123 r" if "path_ok qs" "table_at (pt_get demo_vmm) 0x6000 qs = Some r" for r qs
    using that path by (auto simp: off_path_def demo_paths split: if_splits)
  moreover have "translate demo_vmm 0x6000 0x400123 = None"
    using path_ok_vas [of "0x400123"] by (auto simp: translate_def leaf_at_def demo_paths)
  ultimately have "space_ok UNIV t 0x6000 \<and> (\<forall>x \<in> UNIV. translate t 0x6000 x = translate demo_vmm 0x6000 x)"
    by (intro vmm_map_page_isolated [OF demo_space_ok(1) demo_space_ok(2) UNIV_I _ m]) (auto dest: path_in_ok)
  with m \<open>translate demo_vmm 0x6000 0x400123 = None\<close> show ?thesis by auto
qed

lemma demo_cr3: "read_cr3 demo_vmm AND NOT 0xfff = 0x5000" "g_kernel_cr3_phys demo_vmm = 0x5000"
  by (simp_all add: demo_vmm_def read_cr3_def)

theorem vmm_map_page_space_translation_witness:
  "\<exists>rc t. vmm_map_page_space \<lparr>pml4_phys = 0x6000\<rparr> 0x400000 0x3000 PTE_W demo_vmm = (rc, t) \<and>
    space_ok UNIV t 0x6000 \<and> read_cr3 t = 0x5000"
proof -
  obtain rc t where m: "vmm_map_page_space \<lparr>pml4_phys = 0x6000\<rparr> 0x400000 0x3000 PTE_W demo_vmm = (rc, t)"
    by force
  then show ?thesis
    using vmm_map_page_space_translation [OF _ _ UNIV_I m] demo_space_ok unfolding demo_cr3 by simp
qed

text \<open>Page 2 becomes the root of a new space.\<close>

lemma demo_create: "\<exists>sp t. vmm_create_space demo_vmm = (sp, t) \<and> pml4_phys sp \<noteq> 0"
proof -
  obtain p u where a: "alloc_pt_page_phys demo_vmm = (p, u)" by force
  have "p \<noteq> 0" using alloc_pt_spec(5) [OF demo_vmm_ready a] by (auto simp: demo_vmm_free)
  with a show ?thesis by (simp add: vmm_create_space_def Let_def)
qed

theorem vmm_create_space_shares_kernel_witness:
  "\<exists>sp t. vmm_create_space demo_vmm = (sp, t) \<and> space_ok UNIV t (pml4_phys sp) \<and>
    translate t (pml4_phys sp) 0x400000 = None"
proof -
  obtain sp t where c: "vmm_create_space demo_vmm = (sp, t)" "pml4_phys sp \<noteq> 0"
    using demo_create by blast
  have "\<not> 256 \<le> unat (idx_pml4 0x400000)" by (simp add: idx_pml4_def)
  with vmm_create_space_shares_kernel [OF _ c, of UNIV] c demo_space_ok(1) show ?thesis
    by (simp add: demo_cr3)
qed

end
