(* ===== verification/Chains.thy ===== *)
theory Chains
  imports Prelude
begin

text \<open>
  Singly linked structures: following a successor function from one address visits a list of
  nonzero addresses and arrives at another. The timer queue ends at NULL, the ring of threads
  comes back to its start.
\<close>

fun chain :: "(u64 \<Rightarrow> u64) \<Rightarrow> u64 \<Rightarrow> u64 list \<Rightarrow> u64 \<Rightarrow> bool" where
  "chain nx p [] r \<longleftrightarrow> p = r"
| "chain nx p (a # as) r \<longleftrightarrow> p = a \<and> a \<noteq> 0 \<and> chain nx (nx a) as r"

lemma chain_append: "chain nx p (xs @ ys) r \<longleftrightarrow> (\<exists>m. chain nx p xs m \<and> chain nx m ys r)"
  by (induction xs arbitrary: p) auto

lemma chain_cong: "(\<And>a. a \<in> set q \<Longrightarrow> nx' a = nx a) \<Longrightarrow> chain nx' p q r = chain nx p q r"
  by (induction q arbitrary: p) auto

lemma chain_nonzero: "chain nx p q r \<Longrightarrow> 0 \<notin> set q"
  by (induction q arbitrary: p) auto

lemma chain_start: "chain nx p q r \<Longrightarrow> p = (if q = [] then r else hd q)"
  by (cases q) auto

lemma chain_snoc: "chain nx p (xs @ [l]) m \<longleftrightarrow> chain nx p xs l \<and> l \<noteq> 0 \<and> nx l = m"
  unfolding chain_append by auto

text \<open>Redirecting the last link.\<close>

lemma chain_redirect:
  assumes "chain nx p (xs @ [l]) m" "l \<notin> set xs" "\<And>a. a \<in> set xs \<Longrightarrow> nx' a = nx a" "nx' l = n"
  shows "chain nx' p (xs @ [l]) n"
  using assms chain_cong [of xs nx' nx] by (simp add: chain_snoc)

end
