(* ===== verification/Timerq.thy ===== *)
theory Timerq
  imports Vmm_Correct Chains "HOL-Library.Sublist"
begin

text \<open>
  The timer queue of \<open>kernel/core/timerq.c\<close>: a singly linked list of events that their owners
  allocate, ordered by deadline. Events are a typed heap indexed by address, address 0 is NULL.
  What calling a callback does to the state is a parameter (\<open>run_cb\<close>); \<open>None\<close> is a call that
  does not return.
\<close>

section \<open>State and operations\<close>

record timer_event =
  deadline_ns :: u64
  cb :: u64
  cb_arg :: u64
  ev_next :: u64

record timerq_state = vmm_state +
  g_head :: u64
  events :: "u64 \<Rightarrow> timer_event"

text \<open>The cursor \<open>pp\<close>: the address of \<open>g_head\<close>, or of the \<open>next\<close> member of an event.\<close>

datatype link = HeadLink | NextLink u64

definition load_link :: "'a timerq_state_scheme \<Rightarrow> link \<Rightarrow> u64" where
  "load_link s pp = (case pp of HeadLink \<Rightarrow> g_head s | NextLink e \<Rightarrow> ev_next (events s e))"

definition set_next :: "u64 \<Rightarrow> u64 \<Rightarrow> 'a timerq_state_scheme \<Rightarrow> 'a timerq_state_scheme" where
  "set_next e n s = s\<lparr>events := (events s)(e := (events s e)\<lparr>ev_next := n\<rparr>)\<rparr>"

definition store_link :: "link \<Rightarrow> u64 \<Rightarrow> 'a timerq_state_scheme \<Rightarrow> 'a timerq_state_scheme" where
  "store_link pp v s = (case pp of HeadLink \<Rightarrow> s\<lparr>g_head := v\<rparr> | NextLink e \<Rightarrow> set_next e v s)"

partial_function (option) timerq_seek :: "u64 \<Rightarrow> link \<Rightarrow> 'a timerq_state_scheme \<Rightarrow> link option" where
  "timerq_seek ev pp s =
     (let cur = load_link s pp
      in if cur \<noteq> 0 \<and> deadline_ns (events s cur) \<le> deadline_ns (events s ev)
         then timerq_seek ev (NextLink cur) s
         else Some pp)"

definition timerq_insert :: "u64 \<Rightarrow> 'a timerq_state_scheme \<Rightarrow> 'a timerq_state_scheme option" where
  "timerq_insert ev s =
     do {
       pp \<leftarrow> timerq_seek ev HeadLink s;
       let s = set_next ev (load_link s pp) s;
       Some (store_link pp ev s)
     }"

definition timerq_next_deadline :: "'a timerq_state_scheme \<Rightarrow> u64" where
  "timerq_next_deadline s = (if g_head s \<noteq> 0 then deadline_ns (events s (g_head s)) else 0)"

partial_function (option) timerq_run_expired ::
    "(u64 \<Rightarrow> u64 \<Rightarrow> 'a timerq_state_scheme \<Rightarrow> 'a timerq_state_scheme option) \<Rightarrow>
      u64 \<Rightarrow> 'a timerq_state_scheme \<Rightarrow> 'a timerq_state_scheme option" where
  "timerq_run_expired run_cb now s =
     (if g_head s \<noteq> 0 \<and> deadline_ns (events s (g_head s)) \<le> now then
        (let ev = g_head s;
             s = s\<lparr>g_head := ev_next (events s ev)\<rparr>;
             s = set_next ev 0 s
         in (if cb (events s ev) \<noteq> 0
             then do {
               s \<leftarrow> run_cb (cb (events s ev)) (cb_arg (events s ev)) s;
               timerq_run_expired run_cb now s
             }
             else timerq_run_expired run_cb now s))
      else Some s)"

section \<open>The queue as a list\<close>

text \<open>\<open>seg h p q r\<close>: following \<open>next\<close> from \<open>p\<close> visits the events of \<open>q\<close> and arrives at \<open>r\<close>.\<close>

definition seg :: "(u64 \<Rightarrow> timer_event) \<Rightarrow> u64 \<Rightarrow> u64 list \<Rightarrow> u64 \<Rightarrow> bool" where
  "seg h = chain (\<lambda>e. ev_next (h e))"

lemma seg_simps [simp]:
  "seg h p [] r \<longleftrightarrow> p = r"
  "seg h p (e # es) r \<longleftrightarrow> p = e \<and> e \<noteq> 0 \<and> seg h (ev_next (h e)) es r"
  by (simp_all add: seg_def)

lemma seg_append: "seg h p (xs @ ys) r \<longleftrightarrow> (\<exists>m. seg h p xs m \<and> seg h m ys r)"
  unfolding seg_def by (rule chain_append)

lemma seg_cong: "(\<And>e. e \<in> set q \<Longrightarrow> ev_next (h' e) = ev_next (h e)) \<Longrightarrow> seg h' p q r = seg h p q r"
  unfolding seg_def by (rule chain_cong)

lemma seg_upd [simp]: "e \<notin> set q \<Longrightarrow> seg (h(e := x)) p q r = seg h p q r"
  by (rule seg_cong) auto

lemma seg_nonzero: "seg h p q r \<Longrightarrow> 0 \<notin> set q"
  unfolding seg_def by (rule chain_nonzero)

lemma seg_snoc_relink:
  "seg h p (xs @ [l]) m \<Longrightarrow> l \<notin> set xs \<Longrightarrow>
    seg (h(l := (h l)\<lparr>ev_next := n\<rparr>)) p (xs @ [l]) n"
  unfolding seg_def by (erule chain_redirect) auto

text \<open>The abstraction: the events queued, first to expire first.\<close>

definition queued :: "'a timerq_state_scheme \<Rightarrow> u64 list \<Rightarrow> bool" where
  "queued s q \<longleftrightarrow> seg (events s) (g_head s) q 0 \<and> distinct q \<and>
     sorted (map (\<lambda>e. deadline_ns (events s e)) q)"

text \<open>The specification of insertion: behind every event that expires no later.\<close>

definition insert_event :: "(u64 \<Rightarrow> timer_event) \<Rightarrow> u64 \<Rightarrow> u64 list \<Rightarrow> u64 list" where
  "insert_event h ev q =
     takeWhile (\<lambda>e. deadline_ns (h e) \<le> deadline_ns (h ev)) q @
     ev # dropWhile (\<lambda>e. deadline_ns (h e) \<le> deadline_ns (h ev)) q"

lemma set_insert_event: "set (insert_event h ev q) = insert ev (set q)"
  unfolding insert_event_def by (metis Un_insert_right list.set(2) set_append takeWhile_dropWhile_id)

lemma sorted_insert_event:
  assumes "sorted (map (\<lambda>e. deadline_ns (h e)) q)"
  shows "sorted (map (\<lambda>e. deadline_ns (h e)) (insert_event h ev q))"
  using assms
proof (induction q)
  case (Cons e q)
  show ?case
  proof (cases "deadline_ns (h e) \<le> deadline_ns (h ev)")
    case True
    then have "insert_event h ev (e # q) = e # insert_event h ev q" by (simp add: insert_event_def)
    with Cons True show ?thesis by (simp add: set_insert_event)
  next
    case False
    then have "insert_event h ev (e # q) = ev # e # q" by (simp add: insert_event_def)
    with Cons.prems False show ?thesis by (auto simp: less_imp_le intro: order_trans)
  qed
qed (simp add: insert_event_def)

lemma distinct_insert_event: "distinct q \<Longrightarrow> ev \<notin> set q \<Longrightarrow> distinct (insert_event h ev q)"
  unfolding insert_event_def
  by (metis distinct.simps(2) distinct_append distinct_takeWhile distinct_dropWhile disjoint_insert(1)
      takeWhile_dropWhile_id list.set(2) set_takeWhileD set_dropWhileD)

text \<open>The link behind a prefix of the queue.\<close>

definition last_link :: "u64 list \<Rightarrow> link" where
  "last_link xs = (if xs = [] then HeadLink else NextLink (last xs))"

lemma last_link_snoc [simp]: "last_link (xs @ [e]) = NextLink e"
  by (simp add: last_link_def)

lemma load_last_link:
  assumes "seg (events s) (g_head s) (xs @ ys) 0"
  shows "load_link s (last_link xs) = (if ys = [] then 0 else hd ys)"
proof (cases xs rule: rev_cases)
  case Nil
  then show ?thesis using assms by (cases ys) (simp_all add: last_link_def load_link_def)
next
  case (snoc zs l)
  then show ?thesis using assms by (cases ys) (auto simp: load_link_def seg_append)
qed

lemma timerq_seek_spec:
  assumes "seg (events s) (g_head s) (xs @ ys) 0"
  shows "timerq_seek ev (last_link xs) s =
    Some (last_link (xs @ takeWhile (\<lambda>e. deadline_ns (events s e) \<le> deadline_ns (events s ev)) ys))"
  using assms
proof (induction ys arbitrary: xs)
  case Nil
  then show ?case
    using load_last_link [OF Nil] by (simp add: timerq_seek.simps [of ev "last_link xs" s] Let_def)
next
  case (Cons e ys)
  have "e \<noteq> 0" using seg_nonzero [OF Cons.prems] by auto
  show ?case
  proof (cases "deadline_ns (events s e) \<le> deadline_ns (events s ev)")
    case True
    then have "timerq_seek ev (last_link xs) s = timerq_seek ev (last_link (xs @ [e])) s"
      using load_last_link [OF Cons.prems] \<open>e \<noteq> 0\<close>
      by (simp add: timerq_seek.simps [of ev "last_link xs" s] Let_def)
    then show ?thesis using Cons.IH [of "xs @ [e]"] Cons.prems True by simp
  next
    case False
    then show ?thesis
      using load_last_link [OF Cons.prems] by (simp add: timerq_seek.simps [of ev "last_link xs" s] Let_def)
  qed
qed

text \<open>Linking \<open>ev\<close> in between a prefix and the rest.\<close>

lemma link_in:
  assumes "seg (events s) (g_head s) (xs @ ys) 0" "distinct (xs @ ys)" "ev \<notin> set (xs @ ys)" "ev \<noteq> 0"
  defines "t \<equiv> store_link (last_link xs) ev (set_next ev (load_link s (last_link xs)) s)"
  shows "seg (events t) (g_head t) (xs @ ev # ys) 0"
    "deadline_ns (events t e) = deadline_ns (events s e)"
    "cb (events t e) = cb (events s e)" "cb_arg (events t e) = cb_arg (events s e)"
proof -
  define n where "n = load_link s (last_link xs)"
  have ys: "seg (events s) n ys 0"
    using assms(1) load_last_link [OF assms(1)] unfolding n_def
    by (cases ys) (auto simp: seg_append)
  let ?h = "(events s)(ev := (events s ev)\<lparr>ev_next := n\<rparr>)"
  have evys: "seg ?h ev (ev # ys) 0"
    using ys assms(3,4) by simp
  show "seg (events t) (g_head t) (xs @ ev # ys) 0"
  proof (cases xs rule: rev_cases)
    case Nil
    then show ?thesis
      using evys by (simp add: t_def n_def last_link_def store_link_def set_next_def)
  next
    case (snoc zs l)
    let ?h' = "?h(l := (?h l)\<lparr>ev_next := ev\<rparr>)"
    have t: "events t = ?h'" "g_head t = g_head s"
      using snoc assms(3) by (auto simp: t_def n_def store_link_def set_next_def)
    obtain m where "seg (events s) (g_head s) (zs @ [l]) m"
      using assms(1) snoc by (auto simp: seg_append)
    then have "seg ?h (g_head s) (zs @ [l]) m"
      using snoc assms(3) by (subst seg_upd) simp_all
    then have "seg ?h' (g_head s) (zs @ [l]) ev"
      using snoc assms(2) by (intro seg_snoc_relink) auto
    moreover have "seg ?h' ev (ev # ys) 0"
      using evys snoc assms(2,3) by (subst seg_upd) auto
    ultimately show ?thesis
      unfolding t snoc by (subst seg_append) blast
  qed
  show "deadline_ns (events t e) = deadline_ns (events s e)" "cb (events t e) = cb (events s e)"
    "cb_arg (events t e) = cb_arg (events s e)"
    by (simp_all add: t_def store_link_def set_next_def split: link.split)
qed

text \<open>
  C17: \<open>timerq_insert\<close> always returns and refines insertion into a list sorted by deadline: the new
  event goes behind every queued event with the same or an earlier deadline, so that events with
  equal deadlines expire first come, first served, and nothing is lost or reordered.
\<close>

theorem timerq_insert_refines:
  assumes "queued s q" "ev \<noteq> 0" "ev \<notin> set q"
  shows "\<exists>t. timerq_insert ev s = Some t \<and> queued t (insert_event (events s) ev q) \<and>
    (\<forall>e. deadline_ns (events t e) = deadline_ns (events s e))"
proof -
  let ?P = "\<lambda>e. deadline_ns (events s e) \<le> deadline_ns (events s ev)"
  have q: "seg (events s) (g_head s) q 0" "distinct q"
    "sorted (map (\<lambda>e. deadline_ns (events s e)) q)"
    using assms(1) by (simp_all add: queued_def)
  let ?xs = "takeWhile ?P q" and ?ys = "dropWhile ?P q"
  define t where "t = store_link (last_link ?xs) ev (set_next ev (load_link s (last_link ?xs)) s)"
  have "timerq_seek ev HeadLink s = Some (last_link ?xs)"
    using timerq_seek_spec [of s "[]" q ev] q(1) by (simp add: last_link_def)
  then have "timerq_insert ev s = Some t" by (simp add: timerq_insert_def t_def)
  moreover have split: "seg (events s) (g_head s) (?xs @ ?ys) 0" "distinct (?xs @ ?ys)" "ev \<notin> set (?xs @ ?ys)"
    using q assms(3) by simp_all
  note t = link_in [OF split assms(2), folded t_def]
  have "queued t (insert_event (events s) ev q)"
    using t(1,2) distinct_insert_event [OF q(2) assms(3)] sorted_insert_event [OF q(3)]
    by (simp add: queued_def insert_event_def)
  ultimately show ?thesis using t(2) by blast
qed

section \<open>Running what has expired\<close>

text \<open>
  What the queue asks of callbacks: that they return, that they keep the queue well formed, and
  that events they insert expire later than \<open>now\<close>. They may insert such events, also the one
  that was just taken out.
\<close>

definition callbacks_ok ::
    "u64 \<Rightarrow> (u64 \<Rightarrow> u64 \<Rightarrow> 'a timerq_state_scheme \<Rightarrow> 'a timerq_state_scheme option) \<Rightarrow> bool" where
  "callbacks_ok now run_cb \<longleftrightarrow>
     (\<forall>f a s q. queued s q \<longrightarrow>
       (\<exists>t q'. run_cb f a s = Some t \<and> queued t q' \<and>
          filter (\<lambda>e. deadline_ns (events t e) \<le> now) q' = filter (\<lambda>e. deadline_ns (events s e) \<le> now) q))"

text \<open>Callbacks that take no event out of the queue: those in it stay, in their order.\<close>

definition callbacks_keep ::
    "(u64 \<Rightarrow> u64 \<Rightarrow> 'a timerq_state_scheme \<Rightarrow> 'a timerq_state_scheme option) \<Rightarrow> bool" where
  "callbacks_keep run_cb \<longleftrightarrow>
     (\<forall>f a s t q. queued s q \<longrightarrow> run_cb f a s = Some t \<longrightarrow> (\<exists>q'. queued t q' \<and> subseq q q'))"

text \<open>The events that have expired, and what happens to each: it is taken out and its callback called.\<close>

definition expired :: "u64 \<Rightarrow> (u64 \<Rightarrow> timer_event) \<Rightarrow> u64 \<Rightarrow> bool" where
  "expired now h e \<longleftrightarrow> deadline_ns (h e) \<le> now"

definition fire ::
    "(u64 \<Rightarrow> u64 \<Rightarrow> 'a timerq_state_scheme \<Rightarrow> 'a timerq_state_scheme option) \<Rightarrow>
      u64 \<Rightarrow> 'a timerq_state_scheme \<Rightarrow> 'a timerq_state_scheme option" where
  "fire run_cb ev s =
     (let s = set_next ev 0 (s\<lparr>g_head := ev_next (events s ev)\<rparr>)
      in if cb (events s ev) = 0 then Some s else run_cb (cb (events s ev)) (cb_arg (events s ev)) s)"

primrec fire_all ::
    "(u64 \<Rightarrow> u64 \<Rightarrow> 'a timerq_state_scheme \<Rightarrow> 'a timerq_state_scheme option) \<Rightarrow>
      u64 list \<Rightarrow> 'a timerq_state_scheme \<Rightarrow> 'a timerq_state_scheme option" where
  "fire_all run_cb [] s = Some s"
| "fire_all run_cb (ev # q) s = Option.bind (fire run_cb ev s) (fire_all run_cb q)"

lemma fire_all_Nil: "fire_all run_cb [] = Some"
  by (rule ext) simp

text \<open>The queue is the list it is.\<close>

lemma seg_unique: "seg h p q 0 \<Longrightarrow> seg h p q' 0 \<Longrightarrow> q = q'"
proof (induction q arbitrary: p q')
  case Nil
  then show ?case by (cases q') auto
next
  case (Cons e q)
  then show ?case by (cases q') auto
qed

lemma queued_unique: "queued s q \<Longrightarrow> queued s q' \<Longrightarrow> q = q'"
  unfolding queued_def using seg_unique by blast

lemma expired_prefix:
  assumes "queued s q"
  shows "takeWhile (expired now (events s)) q = filter (expired now (events s)) q"
    "dropWhile (expired now (events s)) q = filter (\<lambda>e. \<not> expired now (events s) e) q"
proof -
  have "sorted (map (\<lambda>e. deadline_ns (events s e)) q)" using assms by (simp add: queued_def)
  then have "takeWhile (expired now (events s)) q = filter (expired now (events s)) q \<and>
    dropWhile (expired now (events s)) q = filter (\<lambda>e. \<not> expired now (events s) e) q"
  proof (induction q)
    case (Cons e q)
    show ?case
    proof (cases "expired now (events s) e")
      case False
      then have "\<not> expired now (events s) x" if "x \<in> set q" for x
        using Cons.prems that by (auto simp: expired_def not_le intro: less_le_trans)
      with False show ?thesis by (simp add: filter_empty_conv filter_id_conv)
    qed (use Cons in simp)
  qed simp
  then show "takeWhile (expired now (events s)) q = filter (expired now (events s)) q"
    "dropWhile (expired now (events s)) q = filter (\<lambda>e. \<not> expired now (events s) e) q" by blast+
qed

text \<open>Taking the first event out.\<close>

lemma queued_pop:
  assumes "queued s (e # q)"
  shows "queued (set_next e 0 (s\<lparr>g_head := ev_next (events s e)\<rparr>)) q"
    "g_head s = e" "e \<noteq> 0"
proof -
  have same: "deadline_ns (events (set_next e 0 (s\<lparr>g_head := ev_next (events s e)\<rparr>)) i) =
      deadline_ns (events s i)" for i
    by (simp add: set_next_def)
  show "queued (set_next e 0 (s\<lparr>g_head := ev_next (events s e)\<rparr>)) q" "g_head s = e" "e \<noteq> 0"
    unfolding queued_def same using assms by (auto simp: queued_def set_next_def)
qed

lemma queued_Nil: "queued s [] \<longleftrightarrow> g_head s = 0"
  by (simp add: queued_def)

lemma queued_Cons_head: "queued s q \<Longrightarrow> g_head s = (if q = [] then 0 else hd q)"
  by (cases q) (auto simp: queued_def)

lemma filter_expired_hd:
  assumes "queued s q" "filter (\<lambda>e. deadline_ns (events s e) \<le> now) q = x # xs"
  shows "deadline_ns (events s (hd q)) \<le> now" "q \<noteq> []"
proof -
  show "q \<noteq> []" using assms(2) by auto
  have "x \<in> set q" "deadline_ns (events s x) \<le> now"
    using assms(2) by (auto dest!: filter_eq_ConsD)
  moreover have "deadline_ns (events s (hd q)) \<le> deadline_ns (events s x)"
    using assms(1) \<open>x \<in> set q\<close> by (cases q) (auto simp: queued_def)
  ultimately show "deadline_ns (events s (hd q)) \<le> now" by simp
qed

text \<open>Callbacks that keep what is queued keep in particular what expires later.\<close>

lemma late_kept:
  assumes "callbacks_keep run_cb" "run_cb f a s = Some t" "queued s q" "queued t q'"
    "filter (\<lambda>e. deadline_ns (events t e) \<le> now) q' = filter (\<lambda>e. deadline_ns (events s e) \<le> now) q"
  shows "subseq (filter (\<lambda>e. \<not> deadline_ns (events s e) \<le> now) q) (filter (\<lambda>e. \<not> deadline_ns (events t e) \<le> now) q')"
proof -
  have d: "distinct q" "distinct q'" using assms(3,4) by (simp_all add: queued_def)
  have sub: "subseq q q'"
    using assms(1-4) queued_unique unfolding callbacks_keep_def by metis
  let ?L = "{e. \<not> deadline_ns (events s e) \<le> now}" and ?M = "{e. \<not> deadline_ns (events t e) \<le> now}"
  have "filter (\<lambda>e. e \<in> ?L) q = filter (\<lambda>e. e \<in> ?M) q"
  proof (rule filter_cong [OF refl])
    fix e
    assume e: "e \<in> set q"
    then have "e \<in> set q'" using list_emb_set [OF sub] by metis
    then show "e \<in> ?L \<longleftrightarrow> e \<in> ?M" using e arg_cong [OF assms(5), of set] by auto
  qed
  then show ?thesis using subseq_filter [OF sub, of "\<lambda>e. e \<in> ?M"] by simp
qed

lemma timerq_run_expired_spec:
  assumes "queued s q" "callbacks_ok now run_cb"
  shows "\<exists>t q'. timerq_run_expired run_cb now s = Some t \<and> queued t q' \<and>
    (\<forall>e \<in> set q'. now < deadline_ns (events t e)) \<and>
    (timerq_next_deadline t = 0 \<or> now < timerq_next_deadline t) \<and>
    fire_all run_cb (filter (\<lambda>e. deadline_ns (events s e) \<le> now) q) s = Some t \<and>
    (callbacks_keep run_cb \<longrightarrow> subseq (filter (\<lambda>e. \<not> deadline_ns (events s e) \<le> now) q) q')"
  using assms(1)
proof (induction "filter (\<lambda>e. deadline_ns (events s e) \<le> now) q" arbitrary: s q)
  case Nil
  then have late: "\<forall>e \<in> set q. now < deadline_ns (events s e)"
    using filter_empty_conv [of "\<lambda>e. deadline_ns (events s e) \<le> now" q] by (auto simp: not_le)
  have "\<not> (g_head s \<noteq> 0 \<and> deadline_ns (events s (g_head s)) \<le> now)"
    using late queued_Cons_head [OF Nil.prems] by (cases q) auto
  then have "timerq_run_expired run_cb now s = Some s"
    by (subst timerq_run_expired.simps) (rule if_not_P)
  moreover have "timerq_next_deadline s = 0 \<or> now < timerq_next_deadline s"
    using late queued_Cons_head [OF Nil.prems] by (cases q) (auto simp: timerq_next_deadline_def)
  ultimately show ?case
    using Nil.prems late Nil.hyps [symmetric]
    by (intro exI [of _ s] exI [of _ q]) simp
next
  case (Cons x xs)
  note hd = filter_expired_hd [OF Cons.prems Cons.hyps(2) [symmetric]]
  then obtain e r where q: "q = e # r" by (cases q) auto
  note pop = queued_pop [OF Cons.prems [unfolded q]]
  let ?s = "set_next e 0 (s\<lparr>g_head := ev_next (events s e)\<rparr>)"
  have same: "deadline_ns (events ?s i) = deadline_ns (events s i)" for i
    by (simp add: set_next_def)
  have xs: "xs = filter (\<lambda>i. deadline_ns (events ?s i) \<le> now) r" and x: "x = e"
    unfolding same using Cons.hyps(2) hd q by simp_all
  have late: "filter (\<lambda>i. \<not> deadline_ns (events s i) \<le> now) q = filter (\<lambda>i. \<not> deadline_ns (events ?s i) \<le> now) r"
    unfolding same using hd q by simp
  have run: "timerq_run_expired run_cb now s = Option.bind (fire run_cb e s) (timerq_run_expired run_cb now)"
    using hd q pop(2,3) by (simp add: timerq_run_expired.simps [of run_cb now s] Let_def fire_def)
  have fire: "fire_all run_cb (x # xs) s = Option.bind (fire run_cb e s) (fire_all run_cb xs)" by (simp add: x)
  show ?case
  proof (cases "cb (events ?s e) = 0")
    case True
    then have "fire run_cb e s = Some ?s" by (simp add: fire_def)
    with Cons.hyps(1) [OF xs pop(1)] show ?thesis
      unfolding run Cons.hyps(2) [symmetric] fire late by (simp flip: xs)
  next
    case False
    from assms(2) pop(1) obtain t q' where t: "run_cb (cb (events ?s e)) (cb_arg (events ?s e)) ?s = Some t"
      "queued t q'" "filter (\<lambda>e. deadline_ns (events t e) \<le> now) q' = xs"
      unfolding callbacks_ok_def xs by blast
    then have f: "fire run_cb e s = Some t" using False by (simp add: fire_def)
    obtain u q'' where u: "timerq_run_expired run_cb now t = Some u" "queued u q''"
      "\<forall>e \<in> set q''. now < deadline_ns (events u e)" "timerq_next_deadline u = 0 \<or> now < timerq_next_deadline u"
      "fire_all run_cb xs t = Some u"
      "callbacks_keep run_cb \<Longrightarrow> subseq (filter (\<lambda>e. \<not> deadline_ns (events t e) \<le> now) q') q''"
      using Cons.hyps(1) [OF t(3) [symmetric] t(2)] unfolding t(3) by blast
    have "subseq (filter (\<lambda>e. \<not> deadline_ns (events ?s e) \<le> now) r) q''" if k: "callbacks_keep run_cb"
      by (rule subseq_order.trans [OF late_kept [OF k t(1) pop(1) t(2) t(3) [unfolded xs]] u(6) [OF k]])
    with u show ?thesis
      unfolding run Cons.hyps(2) [symmetric] fire late f by auto
  qed
qed

text \<open>
  C18: \<open>timerq_run_expired\<close> takes out exactly the events at the front of the queue that have expired, and
  calls their callbacks in that order, each once and with nothing in between; then it returns. This
  holds also when callbacks put events into the queue, as long as these expire later. Afterwards no
  queued event has expired, and unless callbacks take them out the rest is still queued in order.
\<close>

theorem timerq_run_expired_returns:
  assumes "queued s q" "callbacks_ok now run_cb"
  shows "\<exists>t q'. timerq_run_expired run_cb now s = Some t \<and>
    fire_all run_cb (takeWhile (expired now (events s)) q) s = Some t \<and> queued t q' \<and>
    (\<forall>e \<in> set q'. now < deadline_ns (events t e)) \<and>
    (timerq_next_deadline t = 0 \<or> now < timerq_next_deadline t) \<and>
    (callbacks_keep run_cb \<longrightarrow> subseq (dropWhile (expired now (events s)) q) q')"
  using timerq_run_expired_spec [OF assms] unfolding expired_prefix [OF assms(1)] unfolding expired_def by blast

text \<open>Whatever callbacks leave alone, running the queue leaves alone.\<close>

lemma timerq_run_expired_inv:
  assumes cb: "\<And>f a s t. P s \<Longrightarrow> run_cb f a s = Some t \<Longrightarrow> P t"
    and pop: "\<And>s e h. P s \<Longrightarrow> P (s\<lparr>g_head := e, events := h\<rparr>)"
    and run: "timerq_run_expired run_cb now s = Some t" and s: "P s"
  shows "P t"
proof -
  from run have "run_cb = run_cb \<longrightarrow> P s \<longrightarrow> P t"
  proof (rule timerq_run_expired.raw_induct [rotated, where P = "\<lambda>rc _ s t. rc = run_cb \<longrightarrow> P s \<longrightarrow> P t"])
    fix loop :: "(u64 \<Rightarrow> u64 \<Rightarrow> 'a timerq_state_scheme \<Rightarrow> 'a timerq_state_scheme option) \<Rightarrow>
        u64 \<Rightarrow> 'a timerq_state_scheme \<Rightarrow> 'a timerq_state_scheme option"
      and rc now s t
    assume IH: "\<And>rc now s t. loop rc now s = Some t \<Longrightarrow> rc = run_cb \<longrightarrow> P s \<longrightarrow> P t"
      and step: "(if g_head s \<noteq> 0 \<and> deadline_ns (events s (g_head s)) \<le> now
        then let ev = g_head s; s = s\<lparr>g_head := ev_next (events s ev)\<rparr>; s = set_next ev 0 s
          in if cb (events s ev) \<noteq> 0
             then Option.bind (rc (cb (events s ev)) (cb_arg (events s ev)) s) (loop rc now)
             else loop rc now s
        else Some s) = Some t"
    have "P s \<Longrightarrow> P (set_next ev 0 (s\<lparr>g_head := e\<rparr>))" for ev e
      by (simp add: set_next_def pop)
    then show "rc = run_cb \<longrightarrow> P s \<longrightarrow> P t"
      using step by (auto simp: Let_def bind_eq_Some_conv split: if_splits dest: IH cb)
  qed
  then show ?thesis using s by blast
qed

section \<open>A queue of two events\<close>

definition demo_event :: "u64 \<Rightarrow> u64 \<Rightarrow> timer_event" where
  "demo_event d n = \<lparr>deadline_ns = d, cb = 0x100, cb_arg = 0, ev_next = n\<rparr>"

definition demo_queue :: timerq_state where
  "demo_queue = vmm_state.extend demo_vmm (timerq_state.fields 0x10
     ((\<lambda>_. demo_event 5 0)(0x10 := demo_event 5 0x20, 0x20 := demo_event 9 0)))"

lemma demo_queued: "queued demo_queue [0x10, 0x20]"
  by (simp add: queued_def demo_queue_def demo_event_def timerq_state.defs vmm_state.defs)

theorem timerq_insert_refines_witness:
  "\<exists>t. timerq_insert 0x30 demo_queue = Some t \<and> queued t [0x10, 0x30, 0x20]"
proof -
  have "insert_event (events demo_queue) 0x30 [0x10, 0x20] = [0x10, 0x30, 0x20]"
    by (simp add: insert_event_def demo_queue_def demo_event_def timerq_state.defs vmm_state.defs)
  then show ?thesis using timerq_insert_refines [OF demo_queued, of "0x30"] by auto
qed

text \<open>At time 7 the first of the two is called, and the second stays.\<close>

theorem timerq_run_expired_returns_witness:
  "\<exists>t q'. timerq_run_expired (\<lambda>f a s. Some (s\<lparr>cr3 := f\<rparr>)) 7 demo_queue = Some t \<and>
    fire (\<lambda>f a s. Some (s\<lparr>cr3 := f\<rparr>)) 0x10 demo_queue = Some t \<and> queued t q' \<and> subseq [0x20] q'"
proof -
  let ?cb = "\<lambda>f a (s :: timerq_state). Some (s\<lparr>cr3 := f\<rparr>)"
  have q: "queued (s\<lparr>cr3 := f\<rparr>) q = queued s q" for s :: timerq_state and f q by (simp add: queued_def)
  have "callbacks_ok 7 ?cb" by (auto simp: callbacks_ok_def q)
  moreover have "callbacks_keep ?cb" by (auto simp: callbacks_keep_def q)
  moreover have "takeWhile (expired 7 (events demo_queue)) [0x10, 0x20] = [0x10]"
    "dropWhile (expired 7 (events demo_queue)) [0x10, 0x20] = [0x20]"
    by (simp_all add: expired_def demo_queue_def demo_event_def timerq_state.defs vmm_state.defs)
  ultimately show ?thesis
    using timerq_run_expired_returns [OF demo_queued, of 7 ?cb]
    by (simp only: fire_all.simps(2) fire_all_Nil bind_rzero bind_runit) blast
qed

end
