(* ===== verification/Gdt.thy ===== *)
theory Gdt
  imports Timerq
begin

text \<open>
  Segment descriptors and the task state segment, \<open>kernel/arch/x86_64/cpu/gdt.c\<close>. Addresses that
  the linker assigns are the parameter \<open>cpu_symbols\<close>. The routine \<open>gdt_flush\<close> of
  \<open>gdt_flush.S\<close>, which loads the table and reloads the selectors, is an event of the trace.
\<close>

section \<open>State\<close>

record cpu_symbols =
  sym_tss :: u64
  sym_gdtr :: u64
  sym_idt :: u64
  sym_isr_stub :: "u64 \<Rightarrow> u64"
  sym_irq_stub :: "u64 \<Rightarrow> u64"
  sym_irq_240 :: u64
  sym_irq_255 :: u64
  sym_syscall_entry :: u64
  sym_cpu_local :: u64

record tss =
  tss_reserved0 :: u32
  rsp0 :: u64
  rsp1 :: u64
  rsp2 :: u64
  tss_reserved1 :: u64
  ist1 :: u64
  ist2 :: u64
  ist3 :: u64
  ist4 :: u64
  ist5 :: u64
  ist6 :: u64
  ist7 :: u64
  tss_reserved2 :: u64
  tss_reserved3 :: u16
  iomap_base :: u16

record gdt_state = timerq_state +
  g_tss :: tss
  gdt :: "u64 list"

definition GDT_NULL :: nat where "GDT_NULL = 0"
definition GDT_KCODE :: nat where "GDT_KCODE = 1"
definition GDT_KDATA :: nat where "GDT_KDATA = 2"
definition GDT_UDATA :: nat where "GDT_UDATA = 3"
definition GDT_UCODE :: nat where "GDT_UCODE = 4"
definition GDT_TSS :: nat where "GDT_TSS = 5"
definition GDT_TSS_HI :: nat where "GDT_TSS_HI = 6"

lemmas gdt_index_defs = GDT_NULL_def GDT_KCODE_def GDT_KDATA_def GDT_UDATA_def GDT_UCODE_def
  GDT_TSS_def GDT_TSS_HI_def

definition GDT_SEL :: "nat \<Rightarrow> u16 \<Rightarrow> u16" where
  "GDT_SEL idx rpl = push_bit 3 (of_nat idx) OR rpl"

definition KERNEL_CS :: u16 where "KERNEL_CS = GDT_SEL GDT_KCODE 0"
definition KERNEL_DS :: u16 where "KERNEL_DS = GDT_SEL GDT_KDATA 0"
definition USER_DS :: u16 where "USER_DS = GDT_SEL GDT_UDATA 3"
definition USER_CS :: u16 where "USER_CS = GDT_SEL GDT_UCODE 3"
definition TSS_SEL :: u16 where "TSS_SEL = GDT_SEL GDT_TSS 0"

definition GDT_ACCESS_CODE :: u8 where "GDT_ACCESS_CODE = 0x9a"
definition GDT_ACCESS_DATA :: u8 where "GDT_ACCESS_DATA = 0x92"
definition GDT_ACCESS_TSS :: u8 where "GDT_ACCESS_TSS = 0x89"
definition GDT_ACCESS_RING3 :: u8 where "GDT_ACCESS_RING3 = 0x60"
definition GDT_FLAG_GRAN :: u8 where "GDT_FLAG_GRAN = 0x80"
definition GDT_FLAG_SIZE :: u8 where "GDT_FLAG_SIZE = 0x40"
definition GDT_FLAG_LONG :: u8 where "GDT_FLAG_LONG = 0x20"

lemmas gdt_const_defs = GDT_ACCESS_CODE_def GDT_ACCESS_DATA_def GDT_ACCESS_TSS_def
  GDT_ACCESS_RING3_def GDT_FLAG_GRAN_def GDT_FLAG_SIZE_def GDT_FLAG_LONG_def

text \<open>\<open>sizeof(struct tss)\<close>, a packed structure.\<close>

definition sizeof_tss :: nat where
  "sizeof_tss = 4 + 8 * 3 + 8 + 8 * 7 + 8 + 2 + 2"

section \<open>Operations\<close>

definition gdt_entry :: "u32 \<Rightarrow> u32 \<Rightarrow> u8 \<Rightarrow> u8 \<Rightarrow> u64" where
  "gdt_entry base limit access flags =
     (let desc = 0;
          desc = desc OR ucast (limit AND 0xffff);
          desc = desc OR push_bit 16 (ucast (base AND 0xffff));
          desc = desc OR push_bit 32 (ucast (drop_bit 16 base AND 0xff));
          desc = desc OR push_bit 40 (ucast access);
          desc = desc OR push_bit 48 (ucast (drop_bit 16 limit AND 0x0f));
          desc = desc OR push_bit 48 (ucast (flags AND 0xf0));
          desc = desc OR push_bit 56 (ucast (drop_bit 24 base AND 0xff))
      in desc)"

definition tss_low :: "u64 \<Rightarrow> u32 \<Rightarrow> u64" where
  "tss_low base limit =
     (let low = 0;
          low = low OR ucast (limit AND 0xffff);
          low = low OR push_bit 16 (base AND 0xffff);
          low = low OR push_bit 32 (drop_bit 16 base AND 0xff);
          low = low OR push_bit 40 (ucast GDT_ACCESS_TSS);
          low = low OR push_bit 48 (ucast (drop_bit 16 limit AND 0x0f));
          low = low OR push_bit 56 (drop_bit 24 base AND 0xff)
      in low)"

definition gdt_set_tss :: "u64 \<Rightarrow> u32 \<Rightarrow> 'a gdt_state_scheme \<Rightarrow> 'a gdt_state_scheme" where
  "gdt_set_tss base limit s =
     s\<lparr>gdt := (gdt s)[GDT_TSS := tss_low base limit, GDT_TSS_HI := drop_bit 32 base]\<rparr>"

definition gdt_flush :: "u64 \<Rightarrow> 'a machine_scheme \<Rightarrow> 'a machine_scheme" where
  "gdt_flush gdtr_addr s = emit (EvLgdt gdtr_addr) s"

definition set_gdt :: "nat \<Rightarrow> u64 \<Rightarrow> 'a gdt_state_scheme \<Rightarrow> 'a gdt_state_scheme" where
  "set_gdt i v s = s\<lparr>gdt := (gdt s)[i := v]\<rparr>"

definition gdt_init :: "cpu_symbols \<Rightarrow> 'a gdt_state_scheme \<Rightarrow> 'a gdt_state_scheme" where
  "gdt_init cs s =
     (let s = set_gdt GDT_NULL 0 s;
          s = set_gdt GDT_KCODE
                (gdt_entry 0 0xfffff GDT_ACCESS_CODE (GDT_FLAG_GRAN OR GDT_FLAG_LONG)) s;
          s = set_gdt GDT_KDATA
                (gdt_entry 0 0xfffff GDT_ACCESS_DATA (GDT_FLAG_GRAN OR GDT_FLAG_SIZE)) s;
          s = set_gdt GDT_UDATA
                (gdt_entry 0 0xfffff (GDT_ACCESS_DATA OR GDT_ACCESS_RING3)
                  (GDT_FLAG_GRAN OR GDT_FLAG_SIZE)) s;
          s = set_gdt GDT_UCODE
                (gdt_entry 0 0xfffff (GDT_ACCESS_CODE OR GDT_ACCESS_RING3)
                  (GDT_FLAG_GRAN OR GDT_FLAG_LONG)) s;
          s = s\<lparr>g_tss := (g_tss s)\<lparr>iomap_base := of_nat sizeof_tss\<rparr>\<rparr>;
          s = gdt_set_tss (sym_tss cs) (of_nat (sizeof_tss - 1)) s
      in gdt_flush (sym_gdtr cs) s)"

definition gdt_set_kernel_stack :: "u64 \<Rightarrow> 'a gdt_state_scheme \<Rightarrow> 'a gdt_state_scheme" where
  "gdt_set_kernel_stack v s = s\<lparr>g_tss := (g_tss s)\<lparr>rsp0 := v\<rparr>\<rparr>"

definition gdt_set_ist :: "u8 \<Rightarrow> u64 \<Rightarrow> 'a gdt_state_scheme \<Rightarrow> 'a gdt_state_scheme" where
  "gdt_set_ist index rsp s =
     (let t = g_tss s
      in if index = 1 then s\<lparr>g_tss := t\<lparr>ist1 := rsp\<rparr>\<rparr>
         else if index = 2 then s\<lparr>g_tss := t\<lparr>ist2 := rsp\<rparr>\<rparr>
         else if index = 3 then s\<lparr>g_tss := t\<lparr>ist3 := rsp\<rparr>\<rparr>
         else if index = 4 then s\<lparr>g_tss := t\<lparr>ist4 := rsp\<rparr>\<rparr>
         else if index = 5 then s\<lparr>g_tss := t\<lparr>ist5 := rsp\<rparr>\<rparr>
         else if index = 6 then s\<lparr>g_tss := t\<lparr>ist6 := rsp\<rparr>\<rparr>
         else if index = 7 then s\<lparr>g_tss := t\<lparr>ist7 := rsp\<rparr>\<rparr>
         else s)"

section \<open>Descriptors as codes\<close>

text \<open>
  An encoding that the processor decodes: what is decoded is what was encoded, up to a
  normal form of the value (bits of it that the format has no room for).
\<close>

locale codec =
  fixes enc :: "'a \<Rightarrow> 'b" and dec :: "'b \<Rightarrow> 'a" and norm :: "'a \<Rightarrow> 'a"
  assumes dec_enc: "dec (enc x) = norm x"
begin

lemma enc_inj: "norm x = x \<Longrightarrow> norm y = y \<Longrightarrow> enc x = enc y \<Longrightarrow> x = y"
  by (metis dec_enc)

lemma norm_enc: "enc x = enc y \<Longrightarrow> norm x = norm y"
  by (metis dec_enc)

end

text \<open>How the processor reads a segment descriptor: base, limit, access byte and flags.\<close>

definition seg_base :: "u64 \<Rightarrow> u32" where
  "seg_base d = ucast (drop_bit 16 d AND 0xffffff) OR push_bit 24 (ucast (drop_bit 56 d AND 0xff))"

definition seg_limit :: "u64 \<Rightarrow> u32" where
  "seg_limit d = ucast (d AND 0xffff) OR push_bit 16 (ucast (drop_bit 48 d AND 0xf))"

definition seg_access :: "u64 \<Rightarrow> u8" where
  "seg_access d = ucast (drop_bit 40 d)"

definition seg_flags :: "u64 \<Rightarrow> u8" where
  "seg_flags d = ucast (drop_bit 48 d) AND 0xf0"

lemma low_masks:
  "(0xffff :: 'a::len word) = mask 16" "(0xff :: 'a word) = mask 8" "(0xf :: 'a word) = mask 4"
  "(0xffffff :: 'a word) = mask 24" "(0xfffff :: 'a word) = mask 20"
  by (simp_all add: mask_eq_exp_minus_1)

lemma f0_mask: "(0xf0 :: u8) = NOT (mask 4)"
  by (simp add: mask_eq_exp_minus_1)

lemma bit_u8: "bit x k \<Longrightarrow> k < 8" for x :: u8
  using bit_imp_le_length [of x k] by simp

lemma bit_u32: "bit x k \<Longrightarrow> k < 32" for x :: u32
  using bit_imp_le_length [of x k] by simp

lemma bit_u8_high: "8 \<le> k \<Longrightarrow> \<not> bit x k" for x :: u8
  using bit_u8 [of x k] by auto

lemma bit_offsets:
  "32 \<le> n \<Longrightarrow> 16 + (n - 32) = n - 16" "48 \<le> n \<Longrightarrow> 16 + (n - 48) = n - 32"
  "56 \<le> n \<Longrightarrow> 24 + (n - 56) = n - 32" for n :: nat
  by simp_all

lemma bit_entry:
  "n < 64 \<Longrightarrow> bit (gdt_entry b l a f) n \<longleftrightarrow>
    (if n < 16 then bit l n else if n < 40 then bit b (n - 16) else if n < 48 then bit a (n - 40)
     else if n < 52 then bit l (n - 32) else if n < 56 then bit f (n - 48) else bit b (n - 32))"
proof -
  assume "n < 64"
  then consider "n < 16" | "16 \<le> n" "n < 32" | "32 \<le> n" "n < 40" | "40 \<le> n" "n < 48"
    | "48 \<le> n" "n < 52" | "52 \<le> n" "n < 56" | "56 \<le> n" "n < 64" by linarith
  then show ?thesis
    unfolding gdt_entry_def Let_def low_masks f0_mask
    by cases (simp_all add: bit_simps bit_offsets bit_u8_high less_diff_conv2)
qed

lemma seg_base_entry: "seg_base (gdt_entry b l a f) = b"
  unfolding seg_base_def low_masks
  by (rule bit_word_eqI) (auto simp: bit_simps bit_entry)

lemma seg_limit_entry: "seg_limit (gdt_entry b l a f) = l AND 0xfffff"
  unfolding seg_limit_def low_masks
  by (rule bit_word_eqI) (auto simp: bit_simps bit_entry)

lemma seg_access_entry: "seg_access (gdt_entry b l a f) = a"
  unfolding seg_access_def
  by (rule bit_word_eqI) (auto simp: bit_simps bit_entry)

lemma seg_flags_entry: "seg_flags (gdt_entry b l a f) = f AND 0xf0"
  unfolding seg_flags_def f0_mask
  by (rule bit_word_eqI) (auto simp: bit_simps bit_entry)

interpretation segment: codec "\<lambda>(b, l, a, f). gdt_entry b l a f"
  "\<lambda>d. (seg_base d, seg_limit d, seg_access d, seg_flags d)"
  "\<lambda>(b, l, a, f). (b, l AND 0xfffff, a, f AND 0xf0)"
  by unfold_locales
    (auto simp: seg_base_entry seg_limit_entry seg_access_entry seg_flags_entry)

text \<open>The base of a task state segment takes both quadwords.\<close>

definition tss_base :: "u64 \<Rightarrow> u64 \<Rightarrow> u64" where
  "tss_base low high = ucast (seg_base low) OR push_bit 32 high"

lemma bit_tss_low:
  "n < 64 \<Longrightarrow> bit (tss_low b l) n \<longleftrightarrow>
    (if n < 16 then bit l n else if n < 40 then bit b (n - 16)
     else if n < 48 then bit GDT_ACCESS_TSS (n - 40) else if n < 52 then bit l (n - 32)
     else if n < 56 then False else bit b (n - 32))"
proof -
  assume "n < 64"
  then consider "n < 16" | "16 \<le> n" "n < 32" | "32 \<le> n" "n < 40" | "40 \<le> n" "n < 48"
    | "48 \<le> n" "n < 52" | "52 \<le> n" "n < 56" | "56 \<le> n" "n < 64" by linarith
  then show ?thesis
    unfolding tss_low_def Let_def low_masks
    by cases (simp_all add: bit_simps bit_offsets bit_u8_high less_diff_conv2)
qed

lemma tss_low_base: "seg_base (tss_low b l) = ucast b"
  unfolding seg_base_def low_masks
  by (rule bit_word_eqI) (auto simp: bit_simps bit_tss_low)

lemma tss_low_limit: "seg_limit (tss_low b l) = l AND 0xfffff"
  unfolding seg_limit_def low_masks
  by (rule bit_word_eqI) (auto simp: bit_simps bit_tss_low)

lemma tss_low_access: "seg_access (tss_low b l) = GDT_ACCESS_TSS"
  unfolding seg_access_def
  by (rule bit_word_eqI) (auto simp: bit_simps bit_tss_low)

lemmas tss_low_decode = tss_low_base tss_low_limit tss_low_access

interpretation tss_segment: codec "\<lambda>(b, l). (tss_low b l, drop_bit 32 b)"
  "\<lambda>(lo, hi). (tss_base lo hi, seg_limit lo)" "\<lambda>(b, l). (b, l AND 0xfffff)"
proof unfold_locales
  fix x :: "u64 \<times> u32"
  have "ucast (ucast b :: u32) OR push_bit 32 (drop_bit 32 b) = b" for b :: u64
  proof (rule bit_word_eqI)
    fix n
    show "n < LENGTH(64) \<Longrightarrow> bit (ucast (ucast b :: u32) OR push_bit 32 (drop_bit 32 b)) n = bit b n"
      by (cases "n < 32") (simp_all add: bit_simps)
  qed
  then show "(\<lambda>(lo, hi). (tss_base lo hi, seg_limit lo)) ((\<lambda>(b, l). (tss_low b l, drop_bit 32 b)) x) =
      (\<lambda>(b, l). (b, l AND 0xfffff)) x"
    by (cases x) (simp add: tss_base_def tss_low_decode)
qed

text \<open>
  A descriptor built by \<open>gdt_entry\<close> is read back by the processor as the base, the low twenty
  bits of the limit, the access byte and the upper half of the flags, whatever the arguments.
\<close>

theorem gdt_entry_roundtrip:
  "seg_base (gdt_entry b l a f) = b \<and> seg_limit (gdt_entry b l a f) = l AND 0xfffff \<and>
   seg_access (gdt_entry b l a f) = a \<and> seg_flags (gdt_entry b l a f) = f AND 0xf0"
  using segment.dec_enc [of "(b, l, a, f)"] by simp

section \<open>The table that is loaded\<close>

lemma selectors:
  "KERNEL_CS = 0x08" "KERNEL_DS = 0x10" "USER_DS = 0x1b" "USER_CS = 0x23" "TSS_SEL = 0x28"
  by (simp_all add: KERNEL_CS_def KERNEL_DS_def USER_DS_def USER_CS_def TSS_SEL_def GDT_SEL_def
      gdt_index_defs)

text \<open>
  C35: After \<open>gdt_init\<close> the table holds the null descriptor, the flat ring 0 and ring 3 code and data
  segments at the selectors the rest of the kernel uses, and a task state segment descriptor
  that decodes to the address and the limit of \<open>g_tss\<close>; the table is then loaded.
\<close>

theorem gdt_init_table:
  assumes "length (gdt s) = 7" "gdt_init cs s = t"
  shows "take 5 (gdt t) =
      [0, 0x00af9a000000ffff, 0x00cf92000000ffff, 0x00cff2000000ffff, 0x00affa000000ffff] \<and>
    tss_base (gdt t ! 5) (gdt t ! 6) = sym_tss cs \<and> seg_limit (gdt t ! 5) = 103 \<and>
    seg_access (gdt t ! 5) = 0x89 \<and> iomap_base (g_tss t) = 104 \<and>
    last (trace t) = EvLgdt (sym_gdtr cs)"
proof -
  have entries: "gdt_entry 0 0xfffff 0x9a 0xa0 = 0x00af9a000000ffff"
    "gdt_entry 0 0xfffff 0x92 0xc0 = 0x00cf92000000ffff"
    "gdt_entry 0 0xfffff 0xf2 0xc0 = 0x00cff2000000ffff"
    "gdt_entry 0 0xfffff 0xfa 0xa0 = 0x00affa000000ffff"
    by (simp_all add: gdt_entry_def)
  obtain a b c d e f g where "gdt s = [a, b, c, d, e, f, g]"
    using assms(1) by (auto simp: length_Suc_conv eval_nat_numeral)
  then have "gdt t = [0, 0x00af9a000000ffff, 0x00cf92000000ffff, 0x00cff2000000ffff, 0x00affa000000ffff,
      tss_low (sym_tss cs) 103, drop_bit 32 (sym_tss cs)]"
    using assms(2)
    by (auto simp: gdt_init_def set_gdt_def gdt_set_tss_def gdt_flush_def emit_def gdt_index_defs
        gdt_const_defs sizeof_tss_def entries)
  moreover have "iomap_base (g_tss t) = 104" "last (trace t) = EvLgdt (sym_gdtr cs)"
    using assms(2) by (auto simp: gdt_init_def set_gdt_def gdt_set_tss_def gdt_flush_def emit_def
        sizeof_tss_def)
  ultimately show ?thesis
    using tss_segment.dec_enc [of "(sym_tss cs, 103)"]
    by (simp add: tss_low_decode GDT_ACCESS_TSS_def)
qed

definition ist_slot :: "tss \<Rightarrow> u8 \<Rightarrow> u64 option" where
  "ist_slot t i =
     (if i = 1 then Some (ist1 t) else if i = 2 then Some (ist2 t) else if i = 3 then Some (ist3 t)
      else if i = 4 then Some (ist4 t) else if i = 5 then Some (ist5 t) else if i = 6 then Some (ist6 t)
      else if i = 7 then Some (ist7 t) else None)"

lemma ist_slot_some: "ist_slot t i = None \<longleftrightarrow> i \<notin> {1, 2, 3, 4, 5, 6, 7}"
  by (simp add: ist_slot_def)

lemma gdt_set_ist_cases:
  assumes "i \<in> {1, 2, 3, 4, 5, 6, 7}"
  shows "ist_slot (g_tss (gdt_set_ist i v s)) j = (if i = j then Some v else ist_slot (g_tss s) j)"
  using assms unfolding insert_iff empty_iff
  by (elim disjE) (simp_all add: gdt_set_ist_def Let_def ist_slot_def)

text \<open>
  \<open>gdt_set_ist\<close> stores the stack in the slot its index names and in no other; an index outside
  1 to 7 is ignored.
\<close>

theorem gdt_set_ist_slots:
  "case ist_slot (g_tss s) i of
     None \<Rightarrow> gdt_set_ist i v s = s
   | Some w \<Rightarrow> ist_slot (g_tss (gdt_set_ist i v s)) = (ist_slot (g_tss s))(i \<mapsto> v)"
proof (cases "i \<in> {1, 2, 3, 4, 5, 6, 7}")
  case True
  then obtain w where "ist_slot (g_tss s) i = Some w" using ist_slot_some [of "g_tss s" i] by blast
  then show ?thesis by (auto simp: gdt_set_ist_cases [OF True])
next
  case False
  then have "ist_slot (g_tss s) i = None" by (simp only: ist_slot_some) simp
  moreover have "gdt_set_ist i v s = s" using False by (simp add: gdt_set_ist_def)
  ultimately show ?thesis by simp
qed

section \<open>A concrete state\<close>

definition zero_tss :: tss where
  "zero_tss = \<lparr>tss_reserved0 = 0, rsp0 = 0, rsp1 = 0, rsp2 = 0, tss_reserved1 = 0, ist1 = 0, ist2 = 0,
    ist3 = 0, ist4 = 0, ist5 = 0, ist6 = 0, ist7 = 0, tss_reserved2 = 0, tss_reserved3 = 0,
    iomap_base = 0\<rparr>"

definition demo_symbols :: cpu_symbols where
  "demo_symbols = \<lparr>sym_tss = 0xffffffff80010000, sym_gdtr = 0x80010100, sym_idt = 0x80011000,
    sym_isr_stub = (\<lambda>i. 0x80000000 + 16 * i), sym_irq_stub = (\<lambda>i. 0x80001000 + 16 * i),
    sym_irq_240 = 0x80002000, sym_irq_255 = 0x80002010, sym_syscall_entry = 0x80003000,
    sym_cpu_local = 0x80012000\<rparr>"

definition demo_gdt :: gdt_state where
  "demo_gdt = timerq_state.extend demo_queue (gdt_state.fields zero_tss [0, 0, 0, 0, 0, 0, 0])"

theorem gdt_init_table_witness:
  "length (gdt demo_gdt) = 7 \<and> gdt (gdt_init demo_symbols demo_gdt) ! 1 = 0x00af9a000000ffff \<and>
   last (trace (gdt_init demo_symbols demo_gdt)) = EvLgdt 0x80010100"
proof -
  have len: "length (gdt demo_gdt) = 7"
    by (simp add: demo_gdt_def timerq_state.defs gdt_state.defs)
  have "take 5 (gdt (gdt_init demo_symbols demo_gdt)) ! 1 = 0x00af9a000000ffff"
    using gdt_init_table [OF len refl, of demo_symbols] by simp
  then show ?thesis
    using gdt_init_table [OF len refl, of demo_symbols] len by (simp add: demo_symbols_def)
qed

end
