(* ===== verification/Idt.thy ===== *)
theory Idt
  imports Gdt
begin

text \<open>
  The interrupt descriptor table, \<open>kernel/arch/x86_64/cpu/idt.c\<close>. The stub routines of \<open>isr.S\<close>
  are addresses given by \<open>cpu_symbols\<close>.
\<close>

section \<open>State and operations\<close>

record idt_entry =
  offset_low :: u16
  selector :: u16
  ist :: u8
  type_attr :: u8
  offset_mid :: u16
  offset_high :: u32
  idt_zero :: u32

record idt_state = gdt_state +
  g_idt :: "u8 \<Rightarrow> idt_entry"

definition IDT_TYPE_INTERRUPT :: u8 where
  "IDT_TYPE_INTERRUPT = 0x8e"

definition make_gate :: "u64 \<Rightarrow> u8 \<Rightarrow> u8 \<Rightarrow> idt_entry" where
  "make_gate addr attr i =
    \<lparr>offset_low = ucast (addr AND 0xffff),
     selector = KERNEL_CS,
     ist = i AND 0x7,
     type_attr = attr,
     offset_mid = ucast (drop_bit 16 addr AND 0xffff),
     offset_high = ucast (drop_bit 32 addr AND 0xffffffff),
     idt_zero = 0\<rparr>"

definition idt_set_gate :: "u8 \<Rightarrow> u64 \<Rightarrow> u8 \<Rightarrow> u8 \<Rightarrow> 'a idt_state_scheme \<Rightarrow> 'a idt_state_scheme" where
  "idt_set_gate vec isr attr i s = s\<lparr>g_idt := (g_idt s)(vec := make_gate isr attr i)\<rparr>"

definition lidt :: "u16 \<Rightarrow> u64 \<Rightarrow> 'a machine_scheme \<Rightarrow> 'a machine_scheme" where
  "lidt limit base s = emit (EvLidt limit base) s"

text \<open>\<open>sizeof(g_idt)\<close>: 256 packed entries of 16 bytes.\<close>

definition sizeof_idt :: nat where
  "sizeof_idt = 256 * 16"

definition idt_init :: "cpu_symbols \<Rightarrow> 'a idt_state_scheme \<Rightarrow> 'a idt_state_scheme" where
  "idt_init cs s =
     (let s = for_u64 0 32 (\<lambda>i. idt_set_gate (ucast i) (sym_isr_stub cs i) IDT_TYPE_INTERRUPT 0) s;
          s = idt_set_gate 2 (sym_isr_stub cs 2) IDT_TYPE_INTERRUPT 1 s;
          s = idt_set_gate 8 (sym_isr_stub cs 8) IDT_TYPE_INTERRUPT 1 s;
          s = idt_set_gate 14 (sym_isr_stub cs 14) IDT_TYPE_INTERRUPT 2 s;
          s = idt_set_gate 240 (sym_irq_240 cs) IDT_TYPE_INTERRUPT 0 s;
          s = idt_set_gate 255 (sym_irq_255 cs) IDT_TYPE_INTERRUPT 0 s;
          s = for_u64 0 16
                (\<lambda>i. idt_set_gate (32 + ucast i) (sym_irq_stub cs i) IDT_TYPE_INTERRUPT 0) s
      in lidt (of_nat (sizeof_idt - 1)) (sym_idt cs) s)"

definition idt_enable :: "'a machine_scheme \<Rightarrow> 'a machine_scheme" where
  "idt_enable s = emit EvSti s"

section \<open>Gates\<close>

text \<open>The address the processor jumps to through a gate.\<close>

definition gate_target :: "idt_entry \<Rightarrow> u64" where
  "gate_target g = ucast (offset_low g) OR push_bit 16 (ucast (offset_mid g))
     OR push_bit 32 (ucast (offset_high g))"

lemma gate_target_make: "gate_target (make_gate addr attr i) = addr"
proof (rule bit_word_eqI)
  fix n
  assume "n < LENGTH(64)"
  then consider "n < 16" | "16 \<le> n" "n < 32" | "32 \<le> n" "n < 64" by fastforce
  moreover have m: "(0xffffffff :: u64) = mask 32" by (simp add: mask_eq_exp_minus_1)
  ultimately show "bit (gate_target (make_gate addr attr i)) n = bit addr n"
    unfolding gate_target_def make_gate_def m
    by cases (simp_all add: low_masks(1) bit_simps less_diff_conv2)
qed

interpretation gate: codec "\<lambda>(addr, attr, i). make_gate addr attr i"
  "\<lambda>g. (gate_target g, type_attr g, ist g)" "\<lambda>(addr, attr, i). (addr, attr, i AND 0x7)"
  by unfold_locales (auto simp: gate_target_make, auto simp: make_gate_def)

text \<open>A loop that sets one gate per index; \<open>g\<close> gives back the index of a vector.\<close>

lemma set_gates:
  assumes "\<And>i. i < n \<Longrightarrow> g (f i) = i"
  shows "g_idt (for_u64 0 n (\<lambda>i. idt_set_gate (f i) (isr i) a k) s) v =
    (if g v < n \<and> f (g v) = v then make_gate (isr (g v)) a k else g_idt s v)"
proof -
  let ?P = "\<lambda>m t. \<forall>v. g_idt t v =
      (if g v < m \<and> f (g v) = v then make_gate (isr (g v)) a k else g_idt s v)"
  have "?P n (for_u64 0 n (\<lambda>i. idt_set_gate (f i) (isr i) a k) s)"
  proof (rule for_u64_inv [where P = ?P])
    fix j t
    assume j: "j < n" and t: "?P j t"
    show "?P (j + 1) (idt_set_gate (f j) (isr j) a k t)"
    proof (intro allI)
      fix v
      have "v = f j \<longleftrightarrow> g v = j \<and> f (g v) = v" using assms [OF j] by auto
      with t show "g_idt (idt_set_gate (f j) (isr j) a k t) v =
          (if g v < j + 1 \<and> f (g v) = v then make_gate (isr (g v)) a k else g_idt s v)"
        by (auto simp: idt_set_gate_def less_Suc_word [OF j])
    qed
  qed simp_all
  then show ?thesis by blast
qed

lemma ucast_u8_less: "ucast v < (n :: u64) \<longleftrightarrow> unat v < unat n" for v :: u8
  by (simp add: word_less_nat_alt unat_ucast_up)

lemma ucast_u8_inverse: "i < 256 \<Longrightarrow> ucast (ucast i :: u8) = i" for i :: u64
proof -
  assume "i < 256"
  then have "unat i < 256" by (simp add: word_less_nat_alt)
  then have "unat (ucast (ucast i :: u8) :: u64) = unat i"
    by (simp add: unat_ucast_up) (simp add: unsigned_ucast_eq take_bit_nat_eq_self)
  then show ?thesis by (rule word_unat_eq_iff [THEN iffD2])
qed

lemma ucast_u64_inverse [simp]: "ucast (ucast v :: u64) = v" for v :: u8
  by (rule bit_word_eqI) (simp add: bit_simps)

text \<open>Which routine serves a vector, and on which interrupt stack.\<close>

definition handler_for :: "cpu_symbols \<Rightarrow> u8 \<Rightarrow> (u64 \<times> u8) option" where
  "handler_for cs v =
     (if v < 32
      then Some (sym_isr_stub cs (ucast v), if v = 2 \<or> v = 8 then 1 else if v = 14 then 2 else 0)
      else if v < 48 then Some (sym_irq_stub cs (ucast (v - 32)), 0)
      else if v = 240 then Some (sym_irq_240 cs, 0)
      else if v = 255 then Some (sym_irq_255 cs, 0)
      else None)"

lemma idt_init_idt:
  "g_idt (idt_init cs s) v =
    (case handler_for cs v of
       Some (addr, i) \<Rightarrow> make_gate addr IDT_TYPE_INTERRUPT i
     | None \<Rightarrow> g_idt s v)"
proof -
  have exc: "g_idt (for_u64 0 32 (\<lambda>i. idt_set_gate (ucast i) (sym_isr_stub cs i) a k) s) v =
      (if v < 32 then make_gate (sym_isr_stub cs (ucast v)) a k else g_idt s v)"
    for v a k and s :: "'b idt_state_scheme"
    by (subst set_gates [where g = ucast])
      (auto simp: ucast_u8_inverse word_less_nat_alt unat_ucast_up)
  have inv: "ucast (32 + ucast i - 32 :: u8) = i" if "i < 16" for i :: u64
    using that ucast_u8_inverse [of i] by (simp add: word_less_nat_alt)
  have irq: "g_idt (for_u64 0 16 (\<lambda>i. idt_set_gate (32 + ucast i) (sym_irq_stub cs i) a k) s) v =
      (if 32 \<le> v \<and> v < 48 then make_gate (sym_irq_stub cs (ucast (v - 32))) a k else g_idt s v)"
    for v a k and s :: "'b idt_state_scheme"
  proof -
    have "unat (v - 32) < 16 \<longleftrightarrow> 32 \<le> v \<and> v < 48"
      using unsigned_less [of v] by (auto simp: unat_sub_if' word_le_nat_alt word_less_nat_alt)
    then show ?thesis
      by (subst set_gates [where g = "\<lambda>v. ucast (v - 32)"])
        (use inv in \<open>auto simp: ucast_u8_less\<close>)
  qed
  show ?thesis
    unfolding idt_init_def Let_def lidt_def emit_def
    by (auto simp: irq exc idt_set_gate_def handler_for_def not_less dest: order.trans)
qed

text \<open>
  C34: After \<open>idt_init\<close> every processor exception, every legacy interrupt, the timer vector 240 and
  the spurious vector 255 reaches its own stub through a present ring 0 interrupt gate in the
  kernel code segment; all other vectors are as before. The page fault has interrupt stack 2 for
  itself; the non-maskable interrupt shares stack 1 with the double fault, although \<open>kmain\<close> allocates
  one for it in slot 3, which no gate uses; all others stay on the current stack.
\<close>

theorem idt_init_gates:
  "case handler_for cs v of
     Some (addr, i) \<Rightarrow>
       gate_target (g_idt (idt_init cs s) v) = addr \<and> ist (g_idt (idt_init cs s) v) = i \<and>
       type_attr (g_idt (idt_init cs s) v) = 0x8e \<and> selector (g_idt (idt_init cs s) v) = 0x08 \<and>
       (ist (g_idt (idt_init cs s) v) = 1 \<longleftrightarrow> v \<in> {2, 8}) \<and> (ist (g_idt (idt_init cs s) v) = 2 \<longleftrightarrow> v = 14) \<and>
       ist (g_idt (idt_init cs s) v) \<le> 2
   | None \<Rightarrow> g_idt (idt_init cs s) v = g_idt s v"
proof (cases "handler_for cs v")
  case (Some p)
  obtain addr i where p: "p = (addr, i)" by (cases p)
  have i: "i \<in> {0, 1, 2}" "i = 1 \<longleftrightarrow> v \<in> {2, 8}" "i = 2 \<longleftrightarrow> v = 14"
    using Some p by (auto simp: handler_for_def split: if_splits)
  then have "i AND 7 = i" "i \<le> 2" by auto
  then show ?thesis
    using Some p i(2,3) by (simp add: idt_init_idt gate_target_make)
      (simp add: make_gate_def IDT_TYPE_INTERRUPT_def selectors)
qed (simp add: idt_init_idt)

end
