(* ===== verification/Relax.thy ===== *)
theory Relax
  imports Idt
begin

text \<open>
  Busy waiting, \<open>kernel/arch/x86_64/cpu/relax.c\<close>. The kernel is built by clang with \<open>-mwaitpkg\<close>, so
  \<open>cpu_relax\<close> is modelled with the branch that executes \<open>tpause\<close>.
\<close>

record relax_state = idt_state +
  g_has_tpause :: u32
  g_tpause_step :: u64
  g_tpause_deadline :: u64

definition cpu_has_waitpkg :: "devices \<Rightarrow> u32" where
  "cpu_has_waitpkg d =
     (if cpuid_max_leaf d < 7 then 0 else drop_bit 5 (r_ecx (cpuid d 7 0)) AND 1)"

definition cpu_has_tpause :: "'a relax_state_scheme \<Rightarrow> u32" where
  "cpu_has_tpause s = g_has_tpause s"

definition cpu_relax_set_tpause_step :: "u64 \<Rightarrow> 'a relax_state_scheme \<Rightarrow> 'a relax_state_scheme" where
  "cpu_relax_set_tpause_step step s = (if step \<noteq> 0 then s\<lparr>g_tpause_step := step\<rparr> else s)"

definition cpu_relax_init :: "devices \<Rightarrow> u64 \<Rightarrow> 'a relax_state_scheme \<Rightarrow> 'a relax_state_scheme" where
  "cpu_relax_init d step s =
     (let s = s\<lparr>g_has_tpause := cpu_has_waitpkg d\<rparr>;
          s = (if step \<noteq> 0 then s\<lparr>g_tpause_step := step\<rparr> else s);
          (t, s) = rdtsc d s
      in s\<lparr>g_tpause_deadline := t\<rparr>)"

definition cpu_relax :: "'a relax_state_scheme \<Rightarrow> 'a relax_state_scheme" where
  "cpu_relax s =
     (if g_has_tpause s = 0 then mm_pause s
      else
        (let s = s\<lparr>g_tpause_deadline := g_tpause_deadline s + g_tpause_step s\<rparr>
         in emit (EvTpause (g_tpause_deadline s)) s))"

text \<open>A call of \<open>cpu_relax\<close> adds one event to the trace and may move the deadline.\<close>

definition relax_event :: "'a relax_state_scheme \<Rightarrow> hw_event" where
  "relax_event s =
     (if g_has_tpause s = 0 then EvPause else EvTpause (g_tpause_deadline s + g_tpause_step s))"

lemma cpu_relax_eq:
  "cpu_relax s = s\<lparr>trace := trace s @ [relax_event s],
     g_tpause_deadline := g_tpause_deadline (cpu_relax s)\<rparr>"
  by (simp add: cpu_relax_def relax_event_def mm_pause_def emit_def Let_def)

section \<open>Waiting for the time-stamp counter\<close>

text \<open>
  \<open>while ((int64_t)(rdtsc() - target) < 0) cpu_relax();\<close> The interface of the counter: some number
  of cycles passes with every event, and fewer than \<open>2 ^ 62\<close>.
\<close>

partial_function (option) tsc_wait ::
    "devices \<Rightarrow> u64 \<Rightarrow> 'a relax_state_scheme \<Rightarrow> 'a relax_state_scheme option" where
  "tsc_wait d target s =
     (let (t, s) = rdtsc d s
      in if sint (t - target) < 0 then tsc_wait d target (cpu_relax s) else Some s)"

definition tsc_clock :: "(history \<Rightarrow> nat) \<Rightarrow> devices \<Rightarrow> bool" where
  "tsc_clock clk d \<longleftrightarrow>
     (\<forall>h. tsc_in d h = of_nat (clk h)) \<and>
     (\<forall>h e. clk h < clk (h @ [e]) \<and> clk (h @ [e]) \<le> clk h + 2 ^ 61)"

lemma tsc_clockD:
  assumes "tsc_clock clk d"
  shows "tsc_in d h = of_nat (clk h)" "clk h < clk (h @ [e])" "clk (h @ [e]) \<le> clk h + 2 ^ 61"
  using assms by (simp_all add: tsc_clock_def)

lemma tsc_clock_mono: "tsc_clock clk d \<Longrightarrow> clk h \<le> clk (h @ es)"
proof (induction es rule: rev_induct)
  case (snoc e es)
  then show ?case using tsc_clockD(2) [OF snoc.prems, of "h @ es" e] by simp
qed simp

lemma sint_difference:
  assumes "- (2 ^ 63) \<le> int a - int b" "int a - int b < 2 ^ 63"
  shows "sint (of_nat a - of_nat b :: u64) = int a - int b"
proof -
  have "(of_nat a - of_nat b :: u64) = word_of_int (int a - int b)" by simp
  then show ?thesis
    using assms by (simp add: signed_of_int signed_take_bit_int_eq_self_iff del: of_int_diff)
qed

text \<open>
  The wait ends at the first reading of the counter that is not before the target; all it does is
  to read the counter and to relax.
\<close>

lemma tsc_wait_returns:
  assumes clk: "tsc_clock clk d" and far: "target < clk (trace s) + 2 ^ 62"
    and near: "clk (trace s) < target + 2 ^ 62"
  shows "\<exists>es dl. tsc_wait d (of_nat target) s =
      Some (s\<lparr>trace := trace s @ es @ [EvTsc (of_nat (clk (trace s @ es)))], g_tpause_deadline := dl\<rparr>) \<and>
    target \<le> clk (trace s @ es) \<and> (\<forall>e \<in> set es. \<forall>a v. e \<noteq> EvMmioW32 a v)"
  using far near
proof (induction "target - clk (trace s)" arbitrary: s rule: less_induct)
  case less
  let ?c = "clk (trace s)" and ?u = "s\<lparr>trace := trace s @ [EvTsc (of_nat (clk (trace s)))]\<rparr>"
  have u: "rdtsc d s = (of_nat ?c, ?u)"
    by (simp add: rdtsc_def Let_def emit_def tsc_clockD(1) [OF clk])
  have "- (2 ^ 63) \<le> int ?c - int target" "int ?c - int target < 2 ^ 63"
    using less.prems by simp_all
  then have early: "sint (of_nat ?c - of_nat target :: u64) < 0 \<longleftrightarrow> ?c < target"
    by (subst sint_difference) simp_all
  show ?case
  proof (cases "?c < target")
    case False
    then have "tsc_wait d (of_nat target) s = Some ?u"
      using early by (simp add: tsc_wait.simps [of d _ s] u)
    then show ?thesis using False by (intro exI [of _ "[]"] exI [of _ "g_tpause_deadline s"]) simp
  next
    case True
    let ?s = "cpu_relax ?u"
    have step: "tsc_wait d (of_nat target) s = tsc_wait d (of_nat target) ?s"
      using early True by (simp add: tsc_wait.simps [of d _ s] u)
    have tr: "trace ?s = trace s @ [EvTsc (of_nat ?c), relax_event ?u]"
      by (subst cpu_relax_eq) simp
    have "?c < clk (trace ?s)" "clk (trace ?s) \<le> ?c + 2 ^ 62"
      using tsc_clockD(2,3) [OF clk, of "trace s" "EvTsc (of_nat ?c)"]
        tsc_clockD(2,3) [OF clk, of "trace ?u" "relax_event ?u"] by (simp_all add: tr)
    then obtain es dl where t: "tsc_wait d (of_nat target) ?s = Some (?s\<lparr>trace :=
        trace ?s @ es @ [EvTsc (of_nat (clk (trace ?s @ es)))], g_tpause_deadline := dl\<rparr>)"
      "target \<le> clk (trace ?s @ es)" "\<forall>e \<in> set es. \<forall>a v. e \<noteq> EvMmioW32 a v"
      using less.hyps [of ?s] less.prems True by fastforce
    have "?s\<lparr>trace := h, g_tpause_deadline := dl\<rparr> = s\<lparr>trace := h, g_tpause_deadline := dl\<rparr>" for h
      by (subst cpu_relax_eq) simp
    with t show ?thesis
      unfolding step
      by (intro exI [of _ "[EvTsc (of_nat ?c), relax_event ?u] @ es"] exI [of _ dl])
        (simp add: tr relax_event_def)
  qed
qed

end
