(* ===== verification/Pic_Pit.thy ===== *)
theory Pic_Pit
  imports Machine
begin

text \<open>
  The legacy interrupt controllers of \<open>kernel/arch/x86_64/cpu/pic.c\<close> and the interval timer of
  \<open>pit.c\<close>. What the port writes do to the chips is stated with an automaton that reads the trace:
  the documented behaviour of the 8259A, and of the counter of channel 0 of the 8254.
\<close>

section \<open>The interrupt controllers: \<open>pic.c\<close>\<close>

definition PIC1 :: u16 where "PIC1 = 0x20"
definition PIC2 :: u16 where "PIC2 = 0xa0"
definition PIC1_COMMAND :: u16 where "PIC1_COMMAND = PIC1"
definition PIC1_DATA :: u16 where "PIC1_DATA = PIC1 + 1"
definition PIC2_COMMAND :: u16 where "PIC2_COMMAND = PIC2"
definition PIC2_DATA :: u16 where "PIC2_DATA = PIC2 + 1"

lemmas pic_port_defs = PIC1_COMMAND_def PIC1_DATA_def PIC2_COMMAND_def PIC2_DATA_def
  PIC1_def PIC2_def

definition pic_init :: "devices \<Rightarrow> u8 \<Rightarrow> u8 \<Rightarrow> 'a machine_scheme \<Rightarrow> 'a machine_scheme" where
  "pic_init d offset1 offset2 s =
     (let (a1, s) = inb d PIC1_DATA s;
          (a2, s) = inb d PIC2_DATA s;
          s = io_wait (outb PIC1_COMMAND 0x11 s);
          s = io_wait (outb PIC2_COMMAND 0x11 s);
          s = io_wait (outb PIC1_DATA offset1 s);
          s = io_wait (outb PIC2_DATA offset2 s);
          s = io_wait (outb PIC1_DATA 4 s);
          s = io_wait (outb PIC2_DATA 2 s);
          s = io_wait (outb PIC1_DATA 0x01 s);
          s = io_wait (outb PIC2_DATA 0x01 s);
          s = outb PIC1_DATA a1 s
      in outb PIC2_DATA a2 s)"

definition pic_send_eoi :: "u8 \<Rightarrow> 'a machine_scheme \<Rightarrow> 'a machine_scheme" where
  "pic_send_eoi irq s =
     (let s = (if irq \<ge> 8 then outb PIC2_COMMAND 0x20 s else s) in outb PIC1_COMMAND 0x20 s)"

definition pic_set_mask :: "devices \<Rightarrow> u8 \<Rightarrow> 'a machine_scheme \<Rightarrow> 'a machine_scheme" where
  "pic_set_mask d irq s =
     (let port = (if irq < 8 then PIC1_DATA else PIC2_DATA);
          (v, s) = inb d port s;
          val = ucast (ucast v OR push_bit (unat (irq AND 7)) (1 :: u32))
      in outb port val s)"

definition pic_clear_mask :: "devices \<Rightarrow> u8 \<Rightarrow> 'a machine_scheme \<Rightarrow> 'a machine_scheme" where
  "pic_clear_mask d irq s =
     (let port = (if irq < 8 then PIC1_DATA else PIC2_DATA);
          (v, s) = inb d port s;
          val = ucast (ucast v AND NOT (push_bit (unat (irq AND 7)) (1 :: u32)))
      in outb port val s)"

section \<open>The 8259A\<close>

text \<open>
  The state of one chip: the initialisation word it expects next (0: it is operational), the
  vector of its line 0, its interrupt mask, and the number of end-of-interrupt commands.
\<close>

record pic_chip =
  icw :: nat
  vec_base :: u8
  imr :: u8
  eois :: nat

definition pic_write :: "u16 \<Rightarrow> u16 \<Rightarrow> u8 \<Rightarrow> pic_chip \<Rightarrow> pic_chip" where
  "pic_write base port v c =
     (if port = base
      then if bit v 4 then c\<lparr>icw := 2, imr := 0\<rparr>
           else if v = 0x20 then c\<lparr>eois := eois c + 1\<rparr> else c
      else if port = base + 1
      then if icw c = 2 then c\<lparr>icw := 3, vec_base := v\<rparr>
           else if icw c = 3 then c\<lparr>icw := 4\<rparr>
           else if icw c = 4 then c\<lparr>icw := 0\<rparr>
           else c\<lparr>imr := v\<rparr>
      else c)"

definition pic_event :: "u16 \<Rightarrow> hw_event \<Rightarrow> pic_chip \<Rightarrow> pic_chip" where
  "pic_event base e c = (case e of EvOut p v \<Rightarrow> pic_write base p v c | _ \<Rightarrow> c)"

definition pic_chip_at :: "u16 \<Rightarrow> history \<Rightarrow> pic_chip" where
  "pic_chip_at base h = fold (pic_event base) h \<lparr>icw = 0, vec_base = 0, imr = 0, eois = 0\<rparr>"

abbreviation chip :: "u16 \<Rightarrow> 'a machine_scheme \<Rightarrow> pic_chip" where
  "chip base s \<equiv> pic_chip_at base (trace s)"

text \<open>An operational chip answers a read of its data port with its mask.\<close>

definition pic_device :: "devices \<Rightarrow> bool" where
  "pic_device d \<longleftrightarrow>
     (\<forall>h. \<forall>base \<in> {PIC1, PIC2}. icw (pic_chip_at base h) = 0 \<longrightarrow>
        port_in d h (base + 1) = imr (pic_chip_at base h))"

lemma pic_chip_snoc: "pic_chip_at base (h @ [e]) = pic_event base e (pic_chip_at base h)"
  by (simp add: pic_chip_at_def)

lemma chip_outb: "chip base (outb port v s) = pic_write base port v (chip base s)"
  by (simp add: outb_def emit_def pic_chip_snoc pic_event_def)

lemma chip_io_wait [simp]: "base \<in> {PIC1, PIC2} \<Longrightarrow> chip base (io_wait s) = chip base s"
  by (auto simp: io_wait_def chip_outb pic_write_def pic_port_defs)

lemma chip_inb: "inb d port s = (v, t) \<Longrightarrow> v = port_in d (trace s) port \<and> chip base t = chip base s"
  by (auto simp: inb_def Let_def emit_def pic_chip_snoc pic_event_def)

lemma pic_write_simps:
  "pic_write PIC1 PIC2_COMMAND v c = c" "pic_write PIC1 PIC2_DATA v c = c"
  "pic_write PIC2 PIC1_COMMAND v c = c" "pic_write PIC2 PIC1_DATA v c = c"
  "pic_write PIC1 PIC1_COMMAND 0x11 c = c\<lparr>icw := 2, imr := 0\<rparr>"
  "pic_write PIC2 PIC2_COMMAND 0x11 c = c\<lparr>icw := 2, imr := 0\<rparr>"
  "pic_write PIC1 PIC1_COMMAND 0x20 c = c\<lparr>eois := eois c + 1\<rparr>"
  "pic_write PIC2 PIC2_COMMAND 0x20 c = c\<lparr>eois := eois c + 1\<rparr>"
  by (simp_all add: pic_write_def pic_port_defs)

lemma pic_write_data:
  "icw c = 0 \<Longrightarrow> pic_write PIC1 PIC1_DATA v c = c\<lparr>imr := v\<rparr>"
  "icw c = 0 \<Longrightarrow> pic_write PIC2 PIC2_DATA v c = c\<lparr>imr := v\<rparr>"
  "icw c = 2 \<Longrightarrow> pic_write PIC1 PIC1_DATA v c = c\<lparr>icw := 3, vec_base := v\<rparr>"
  "icw c = 2 \<Longrightarrow> pic_write PIC2 PIC2_DATA v c = c\<lparr>icw := 3, vec_base := v\<rparr>"
  "icw c = 3 \<Longrightarrow> pic_write PIC1 PIC1_DATA v c = c\<lparr>icw := 4\<rparr>"
  "icw c = 3 \<Longrightarrow> pic_write PIC2 PIC2_DATA v c = c\<lparr>icw := 4\<rparr>"
  "icw c = 4 \<Longrightarrow> pic_write PIC1 PIC1_DATA v c = c\<lparr>icw := 0\<rparr>"
  "icw c = 4 \<Longrightarrow> pic_write PIC2 PIC2_DATA v c = c\<lparr>icw := 0\<rparr>"
  by (simp_all add: pic_write_def pic_port_defs)

lemmas chip_writes = chip_outb pic_write_simps pic_write_data

text \<open>The initialisation sequence leaves both chips operational, remapped, and with the masks
  that were read first.\<close>

lemma pic_init_chips:
  "chip PIC1 (pic_init d o1 o2 s) = (chip PIC1 s)\<lparr>icw := 0, vec_base := o1,
     imr := port_in d (trace s) PIC1_DATA\<rparr>"
  "chip PIC2 (pic_init d o1 o2 s) = (chip PIC2 s)\<lparr>icw := 0, vec_base := o2,
     imr := port_in d (trace (snd (inb d PIC1_DATA s))) PIC2_DATA\<rparr>"
proof -
  obtain a1 s1 where r1: "inb d PIC1_DATA s = (a1, s1)" by fastforce
  obtain a2 s2 where r2: "inb d PIC2_DATA s1 = (a2, s2)" by fastforce
  note reads = chip_inb [OF r1] chip_inb [OF r2]
  show "chip PIC1 (pic_init d o1 o2 s) = (chip PIC1 s)\<lparr>icw := 0, vec_base := o1,
     imr := port_in d (trace s) PIC1_DATA\<rparr>"
    using reads [of PIC1] by (simp add: pic_init_def r1 r2 chip_writes)
  show "chip PIC2 (pic_init d o1 o2 s) = (chip PIC2 s)\<lparr>icw := 0, vec_base := o2,
     imr := port_in d (trace (snd (inb d PIC1_DATA s))) PIC2_DATA\<rparr>"
    using reads [of PIC2] by (simp add: pic_init_def r1 r2 chip_writes)
qed

text \<open>The chip a line belongs to, and its number there.\<close>

definition irq_base :: "u8 \<Rightarrow> u16" where
  "irq_base irq = (if irq < 8 then PIC1 else PIC2)"

definition line_of :: "u8 \<Rightarrow> nat" where
  "line_of irq = unat irq mod 8"

definition masked :: "'a machine_scheme \<Rightarrow> u8 \<Rightarrow> bool" where
  "masked s irq \<longleftrightarrow> bit (imr (chip (irq_base irq) s)) (line_of irq)"

definition pics_operational :: "'a machine_scheme \<Rightarrow> bool" where
  "pics_operational s \<longleftrightarrow> icw (chip PIC1 s) = 0 \<and> icw (chip PIC2 s) = 0"

lemma irq_and_7: "unat (irq AND 7) = line_of irq" for irq :: u8
proof -
  have "(7 :: u8) = mask 3" by (simp add: mask_eq_exp_minus_1)
  then show ?thesis by (simp only: unat_and_mask line_of_def) simp
qed

lemma mask_val:
  "n < 8 \<Longrightarrow> bit (ucast (ucast v OR push_bit n (1 :: u32)) :: u8) k \<longleftrightarrow> bit v k \<or> k = n"
  "n < 8 \<Longrightarrow> bit (ucast (ucast v AND NOT (push_bit n (1 :: u32))) :: u8) k \<longleftrightarrow> bit v k \<and> k \<noteq> n"
  for v :: u8
  by (auto simp: bit_simps dest: bit_imp_le_length)

lemma pic_mask_chips:
  assumes d: "pic_device d" and op: "pics_operational s"
  shows "\<exists>v. (\<forall>k. bit v k \<longleftrightarrow> bit (imr (chip (irq_base irq) s)) k \<or> k = line_of irq) \<and>
      (\<forall>base \<in> {PIC1, PIC2}. chip base (pic_set_mask d irq s) =
        (if base = irq_base irq then (chip base s)\<lparr>imr := v\<rparr> else chip base s))"
    and "\<exists>v. (\<forall>k. bit v k \<longleftrightarrow> bit (imr (chip (irq_base irq) s)) k \<and> k \<noteq> line_of irq) \<and>
      (\<forall>base \<in> {PIC1, PIC2}. chip base (pic_clear_mask d irq s) =
        (if base = irq_base irq then (chip base s)\<lparr>imr := v\<rparr> else chip base s))"
proof -
  let ?port = "if irq < 8 then PIC1_DATA else PIC2_DATA"
  obtain v t where r: "inb d ?port s = (v, t)" by fastforce
  have ne: "PIC1 \<noteq> PIC2" "PIC2 \<noteq> PIC1" by (simp_all add: PIC1_def PIC2_def)
  have port: "?port = irq_base irq + 1" by (simp add: irq_base_def PIC1_DATA_def PIC2_DATA_def)
  have "icw (chip (irq_base irq) s) = 0" using op by (simp add: pics_operational_def irq_base_def)
  moreover have "irq_base irq \<in> {PIC1, PIC2}" by (simp add: irq_base_def)
  ultimately have v: "v = imr (chip (irq_base irq) s)"
    using chip_inb [OF r] d unfolding pic_device_def port by blast
  have n: "line_of irq < 8" by (simp add: line_of_def)
  have t: "icw (chip PIC1 t) = 0" "icw (chip PIC2 t) = 0" "chip PIC1 t = chip PIC1 s"
    "chip PIC2 t = chip PIC2 s"
    using op chip_inb [OF r] by (auto simp: pics_operational_def)
  show "\<exists>v. (\<forall>k. bit v k \<longleftrightarrow> bit (imr (chip (irq_base irq) s)) k \<or> k = line_of irq) \<and>
      (\<forall>base \<in> {PIC1, PIC2}. chip base (pic_set_mask d irq s) =
        (if base = irq_base irq then (chip base s)\<lparr>imr := v\<rparr> else chip base s))"
    using t ne
    by (intro exI [of _ "ucast (ucast v OR push_bit (line_of irq) (1 :: u32))"] conjI)
      (simp del: push_bit_of_1 add: mask_val [OF n] v,
       simp add: pic_set_mask_def r irq_and_7 irq_base_def chip_writes)
  show "\<exists>v. (\<forall>k. bit v k \<longleftrightarrow> bit (imr (chip (irq_base irq) s)) k \<and> k \<noteq> line_of irq) \<and>
      (\<forall>base \<in> {PIC1, PIC2}. chip base (pic_clear_mask d irq s) =
        (if base = irq_base irq then (chip base s)\<lparr>imr := v\<rparr> else chip base s))"
    using t ne
    by (intro exI [of _ "ucast (ucast v AND NOT (push_bit (line_of irq) (1 :: u32)))"] conjI)
      (simp del: push_bit_of_1 add: mask_val [OF n] v,
       simp add: pic_clear_mask_def r irq_and_7 irq_base_def chip_writes)
qed


lemma pic_send_eoi_chips:
  "chip PIC1 (pic_send_eoi irq s) = (chip PIC1 s)\<lparr>eois := eois (chip PIC1 s) + 1\<rparr>"
  "chip PIC2 (pic_send_eoi irq s) =
    (if irq < 8 then chip PIC2 s else (chip PIC2 s)\<lparr>eois := eois (chip PIC2 s) + 1\<rparr>)"
  by (simp_all add: pic_send_eoi_def chip_writes not_le)

text \<open>
  On a machine with the 8259A pair, setting or clearing the mask of a line changes the mask of
  that line as asked and of no other line, and leaves both chips operational.
\<close>

theorem pic_masks:
  assumes "pic_device d" "pics_operational s"
  shows "masked (pic_set_mask d irq s) j = (masked s j \<or> irq_base j = irq_base irq \<and> line_of j = line_of irq) \<and>
    masked (pic_clear_mask d irq s) j = (masked s j \<and> (irq_base j \<noteq> irq_base irq \<or> line_of j \<noteq> line_of irq)) \<and>
    pics_operational (pic_set_mask d irq s) \<and> pics_operational (pic_clear_mask d irq s)"
proof -
  have b: "irq_base j \<in> {PIC1, PIC2}" for j by (simp add: irq_base_def)
  obtain v where v: "\<And>k. bit v k \<longleftrightarrow> bit (imr (chip (irq_base irq) s)) k \<or> k = line_of irq"
    "\<And>base. base \<in> {PIC1, PIC2} \<Longrightarrow> chip base (pic_set_mask d irq s) =
        (if base = irq_base irq then (chip base s)\<lparr>imr := v\<rparr> else chip base s)"
    using pic_mask_chips(1) [OF assms, of irq] by blast
  obtain w where w: "\<And>k. bit w k \<longleftrightarrow> bit (imr (chip (irq_base irq) s)) k \<and> k \<noteq> line_of irq"
    "\<And>base. base \<in> {PIC1, PIC2} \<Longrightarrow> chip base (pic_clear_mask d irq s) =
        (if base = irq_base irq then (chip base s)\<lparr>imr := w\<rparr> else chip base s)"
    using pic_mask_chips(2) [OF assms, of irq] by blast
  have "PIC1 \<in> {PIC1, PIC2}" "PIC2 \<in> {PIC1, PIC2}" by simp_all
  then show ?thesis
    using assms(2) unfolding masked_def pics_operational_def
    by (simp add: v(2) w(2) b del: insert_iff) (auto simp: v(1) w(1))
qed

section \<open>The interval timer: \<open>pit.c\<close>\<close>

definition PIT_CH0 :: u16 where "PIT_CH0 = 0x40"
definition PIT_CMD :: u16 where "PIT_CMD = 0x43"
definition PIT_BASE_HZ :: u32 where "PIT_BASE_HZ = 1193182"

lemmas pit_const_defs = PIT_CH0_def PIT_CMD_def PIT_BASE_HZ_def

definition clamp_div :: "u32 \<Rightarrow> u16" where
  "clamp_div v = (if v < 1 then 1 else if v > 0xffff then 0xffff else ucast v)"

definition pit_init :: "u32 \<Rightarrow> 'a machine_scheme \<Rightarrow> 'a machine_scheme" where
  "pit_init hz s =
     (let hz = (if hz < 19 then 19 else hz);
          divisor = PIT_BASE_HZ div hz;
          divisor = (if divisor = 0 then 1 else divisor);
          divisor = (if divisor > 0xffff then 0xffff else divisor);
          s = outb PIT_CMD 0x36 s;
          s = outb PIT_CH0 (ucast (divisor AND 0xff)) s
      in outb PIT_CH0 (ucast (drop_bit 8 divisor)) s)"

definition pit_oneshot_init :: "'a machine_scheme \<Rightarrow> 'a machine_scheme" where
  "pit_oneshot_init s = outb PIT_CMD 0x30 s"

definition pit_oneshot_us :: "u32 \<Rightarrow> 'a machine_scheme \<Rightarrow> 'a machine_scheme" where
  "pit_oneshot_us us s =
     (let div64 = (ucast PIT_BASE_HZ * ucast us :: u64) div 1000000;
          divisor = clamp_div (ucast div64);
          s = outb PIT_CMD 0x30 s;
          s = outb PIT_CH0 (ucast (divisor AND 0xff)) s
      in outb PIT_CH0 (ucast (drop_bit 8 divisor AND 0xff)) s)"

text \<open>The constant \<open>0xfffffffffu\<close> of the source has nine digits; the cast drops the first.\<close>

definition pit_stop :: "'a machine_scheme \<Rightarrow> 'a machine_scheme" where
  "pit_stop s = pit_oneshot_us 0xffffffff s"

definition pit_read_count :: "devices \<Rightarrow> 'a machine_scheme \<Rightarrow> u16 \<times> 'a machine_scheme" where
  "pit_read_count d s =
     (let s = outb PIT_CMD 0x00 s;
          (lo, s) = inb d PIT_CH0 s;
          (hi, s) = inb d PIT_CH0 s
      in (ucast lo OR push_bit 8 (ucast hi), s))"

section \<open>Channel 0 of the 8254\<close>

text \<open>The operating mode, the low byte of a count half written, and the last count loaded.\<close>

record pit_channel =
  pit_mode :: u8
  pit_low :: "u8 option"
  pit_reload :: u16

definition pit_write :: "u16 \<Rightarrow> u8 \<Rightarrow> pit_channel \<Rightarrow> pit_channel" where
  "pit_write port v c =
     (if port = 0x43
      then if drop_bit 6 v = 0 \<and> drop_bit 4 v AND 3 = 3
           then c\<lparr>pit_mode := drop_bit 1 v AND 7, pit_low := None\<rparr> else c
      else if port = 0x40
      then (case pit_low c of
              None \<Rightarrow> c\<lparr>pit_low := Some v\<rparr>
            | Some lo \<Rightarrow> c\<lparr>pit_low := None, pit_reload := ucast lo OR push_bit 8 (ucast v)\<rparr>)
      else c)"

definition pit_event :: "hw_event \<Rightarrow> pit_channel \<Rightarrow> pit_channel" where
  "pit_event e c = (case e of EvOut p v \<Rightarrow> pit_write p v c | _ \<Rightarrow> c)"

definition channel0 :: "'a machine_scheme \<Rightarrow> pit_channel" where
  "channel0 s = fold pit_event (trace s) \<lparr>pit_mode = 0, pit_low = None, pit_reload = 0\<rparr>"

lemma channel0_outb: "channel0 (outb port v s) = pit_write port v (channel0 s)"
  by (simp add: channel0_def outb_def emit_def pit_event_def)

lemma two_bytes:
  "(ucast (ucast (v AND 0xff) :: u8) :: u16) OR push_bit 8 (ucast (ucast (drop_bit 8 v AND 0xff) :: u8)) = v"
  (is "?w = v") for v :: u16
proof (rule bit_word_eqI)
  fix n
  have m: "(0xff :: u16) = mask 8" by (simp add: mask_eq_exp_minus_1)
  assume "n < LENGTH(16)"
  then show "bit ?w n = bit v n"
    unfolding m by (cases "n < 8") (auto simp: bit_simps)
qed

lemma pit_oneshot_channel:
  "channel0 (pit_oneshot_us us s) =
    \<lparr>pit_mode = 0, pit_low = None,
     pit_reload = clamp_div (ucast ((ucast PIT_BASE_HZ * ucast us :: u64) div 1000000))\<rparr>"
  unfolding pit_oneshot_us_def Let_def
  by (simp add: channel0_outb pit_write_def pit_const_defs two_bytes)


lemma unat_clamp_div: "unat (clamp_div v) = max 1 (min 65535 (unat v))"
proof (cases "v < 1 \<or> v > 0xffff")
  case True
  then show ?thesis by (auto simp: clamp_div_def word_less_nat_alt)
next
  case False
  then have "unat v \<le> 65535" "1 \<le> unat v" by (simp_all add: word_less_nat_alt)
  then show ?thesis using False by (simp add: clamp_div_def unsigned_ucast_eq take_bit_nat_eq_self)
qed

lemma unat_pit_div64:
  "unat ((ucast PIT_BASE_HZ * ucast us :: u64) div 1000000) = 1193182 * unat us div 1000000"
  for us :: u32
proof -
  have "unat us < 2 ^ 32" using unsigned_less [of us] by simp
  then have "1193182 * unat us < 2 ^ 64" by simp
  then have "unat (ucast PIT_BASE_HZ * ucast us :: u64) = 1193182 * unat us"
    by (subst unat_mult_no_wrap) (simp_all add: PIT_BASE_HZ_def unat_ucast_up)
  then show ?thesis by (simp add: unat_div_distrib)
qed

lemma unat_pit_oneshot_reload:
  "unat (pit_reload (channel0 (pit_oneshot_us us s))) =
    max 1 (min 65535 (1193182 * unat us div 1000000 mod 2 ^ 32))"
  by (simp add: pit_oneshot_channel unat_clamp_div unsigned_ucast_eq unat_pit_div64 take_bit_eq_mod)

text \<open>
  A one-shot of \<open>us\<close> microseconds loads channel 0 in mode 0 with the number of ticks in that time,
  clamped to what the counter can hold, for every time below an hour (where the quotient fits
  32 bits); so the shot is never longer than asked, unless less than one tick was asked for.
\<close>

theorem pit_oneshot_reload:
  assumes "us < 3599591091"
  shows "unat (pit_reload (channel0 (pit_oneshot_us us s))) = max 1 (min 65535 (1193182 * unat us div 1000000)) \<and>
    pit_mode (channel0 (pit_oneshot_us us s)) = 0 \<and> pit_low (channel0 (pit_oneshot_us us s)) = None"
proof -
  have "unat us < 3599591091" using assms by (simp add: word_less_nat_alt)
  then have "1193182 * unat us div 1000000 < 2 ^ 32" by simp
  then show ?thesis by (simp add: unat_pit_oneshot_reload) (simp add: pit_oneshot_channel)
qed

theorem pit_oneshot_reload_witness:
  "unat (pit_reload (channel0 (pit_oneshot_us 10000
     \<lparr>trace = [], mem = \<lambda>_. 0, cr3 = 0, msrs = \<lambda>_. 0\<rparr>))) = 11931"
  using pit_oneshot_reload [of 10000 "\<lparr>trace = [], mem = \<lambda>_. 0, cr3 = 0, msrs = \<lambda>_. 0\<rparr>"] by simp

text \<open>
  The 64-bit tick count is cut to 32 bits before it is clamped, so some times of an hour and more
  load a short count: one tick for 3599591091 microseconds, although the count should saturate.
\<close>

theorem pit_oneshot_truncates:
  "unat (pit_reload (channel0 (pit_oneshot_us 3599591091 s))) = 1"
  by (simp add: unat_pit_oneshot_reload)

lemma low_bytes_u32:
  "(ucast (w AND 0xff) :: u8) = ucast ((ucast w :: u16) AND 0xff)"
  "(ucast (drop_bit 8 w) :: u8) = ucast (drop_bit 8 (ucast w :: u16) AND 0xff)"
  for w :: u32
proof -
  have m: "(0xff :: u16) = mask 8" "(0xff :: u32) = mask 8" by (simp_all add: mask_eq_exp_minus_1)
  show "(ucast (w AND 0xff) :: u8) = ucast ((ucast w :: u16) AND 0xff)"
    unfolding m by (rule bit_word_eqI) (auto simp: bit_simps)
  show "(ucast (drop_bit 8 w) :: u8) = ucast (drop_bit 8 (ucast w :: u16) AND 0xff)"
    unfolding m by (rule bit_word_eqI) (auto simp: bit_simps)
qed

lemma pit_init_reload:
  "unat (pit_reload (channel0 (pit_init hz s))) = max 1 (min 65535 (1193182 div max 19 (unat hz)))"
proof -
  define h where "h = (if hz < 19 then 19 else hz)"
  define v where "v = PIT_BASE_HZ div h"
  define w where "w = (let v = (if v = 0 then 1 else v) in if v > 0xffff then 0xffff else v)"
  have "unat h = max 19 (unat hz)" by (simp add: h_def word_less_nat_alt)
  then have v: "unat v = 1193182 div max 19 (unat hz)"
    by (simp add: v_def unat_div_distrib PIT_BASE_HZ_def)
  have w: "unat w = max 1 (min 65535 (unat v))"
    by (cases "v = 0") (auto simp: w_def Let_def word_less_nat_alt not_less Suc_le_eq unat_gt_0)
  have "pit_reload (channel0 (pit_init hz s)) = ucast w"
    unfolding pit_init_def w_def v_def h_def Let_def
    by (simp add: channel0_outb pit_write_def pit_const_defs low_bytes_u32 two_bytes)
  then show ?thesis
    using w by (simp add: v unsigned_ucast_eq take_bit_nat_eq_self)
qed


section \<open>Concrete devices\<close>

text \<open>A machine with the interrupt controllers and a time-stamp counter that counts events.\<close>

definition demo_devices :: devices where
  "demo_devices =
    \<lparr>port_in = (\<lambda>h p. if p = PIC1_DATA then imr (pic_chip_at PIC1 h)
       else if p = PIC2_DATA then imr (pic_chip_at PIC2 h) else 0),
     tsc_in = (\<lambda>h. of_nat (length h)),
     mmio_in = (\<lambda>h a. 0), mmio64_in = (\<lambda>h a. 0),
     cpuid_in = (\<lambda>leaf sub. \<lparr>r_eax = 0, r_ebx = 0, r_ecx = 0, r_edx = 0\<rparr>)\<rparr>"

lemma demo_pic_device: "pic_device demo_devices"
  by (simp add: pic_device_def demo_devices_def pic_port_defs)

lemma demo_operational: "trace s = [] \<Longrightarrow> pics_operational s"
  by (simp add: pics_operational_def pic_chip_at_def)

theorem pic_masks_witness:
  "masked (pic_set_mask demo_devices 9 \<lparr>trace = [], mem = \<lambda>_. 0, cr3 = 0, msrs = \<lambda>_. 0\<rparr>) 9"
  using pic_masks [OF demo_pic_device demo_operational, of
      "\<lparr>trace = [], mem = \<lambda>_. 0, cr3 = 0, msrs = \<lambda>_. 0\<rparr>" 9 9] by simp

end
