(* ===== verification/User_Pages.thy ===== *)
theory User_Pages
  imports Vmm_Correct
begin

text \<open>
  Which pages user mode reaches, on the tables of \<open>kernel/mm/vmm.c\<close>: the processor asks for the user
  bit in the entry of every level, and executes only where no level forbids it; an upper entry with
  the page size bit is a large page, not a table. A walk that makes missing tables leaves the entries
  that are there as they are, and what it adds has the user bit exactly when the flags ask for it.
\<close>

section \<open>Entries above the leaf\<close>

definition user_entry :: "u64 \<Rightarrow> bool" where
  "user_entry e \<longleftrightarrow> e AND PTE_U \<noteq> 0 \<and> e AND PTE_NX = 0"

definition PTE_PS :: u64 where "PTE_PS = push_bit 7 1"

lemma bit_ps: "bit PTE_PS n \<longleftrightarrow> n = 7"
  unfolding PTE_PS_def bit_push_bit_iff bit_1_iff by auto

text \<open>An upper entry that leads user mode to a table.\<close>

definition user_table :: "u64 \<Rightarrow> bool" where
  "user_table e \<longleftrightarrow> user_entry e \<and> e AND PTE_PS = 0"

text \<open>The entry at level \<open>k\<close> of the walk to \<open>va\<close>, when the walk gets there and it is present.\<close>

definition level_entry :: "'a pmm_state_scheme \<Rightarrow> u64 \<Rightarrow> u64 \<Rightarrow> nat \<Rightarrow> u64 option" where
  "level_entry s root va k = leaf_at (pt_get s) root (take k (va_path va)) (va_path va ! k)"

text \<open>The upper levels that are there let user mode in.\<close>

definition user_open :: "'a pmm_state_scheme \<Rightarrow> u64 \<Rightarrow> u64 \<Rightarrow> bool" where
  "user_open s root va \<longleftrightarrow>
     (\<forall>k < 3. case level_entry s root va k of None \<Rightarrow> True | Some e \<Rightarrow> user_table e)"

text \<open>User mode may read and execute at \<open>va\<close>: all levels are there, the leaf included, and let it in.\<close>

definition user_page :: "'a pmm_state_scheme \<Rightarrow> u64 \<Rightarrow> u64 \<Rightarrow> bool" where
  "user_page s root va \<longleftrightarrow>
     (case translate s root va of None \<Rightarrow> False | Some e \<Rightarrow> user_open s root va \<and> user_entry e)"

lemma user_page_same: "same_page x y \<Longrightarrow> user_page s root x = user_page s root y"
  unfolding user_page_def user_open_def level_entry_def translate_def same_page_iff by (elim conjE) (simp only:)

text \<open>Upper entries that are there stay as they are.\<close>

definition upper_kept :: "u64 set \<Rightarrow> u64 \<Rightarrow> 'a pmm_state_scheme \<Rightarrow> 'a pmm_state_scheme \<Rightarrow> bool" where
  "upper_kept A root s t \<longleftrightarrow>
     (\<forall>x \<in> A. \<forall>k < 3. \<forall>e. level_entry s root x k = Some e \<longrightarrow> level_entry t root x k = Some e)"

lemma upper_kept_refl [simp]: "upper_kept A root s s"
  by (simp add: upper_kept_def)

lemma upper_kept_trans: "upper_kept A root s t \<Longrightarrow> upper_kept A root t u \<Longrightarrow> upper_kept A root s u"
  by (simp add: upper_kept_def)

lemma path_in_level:
  assumes "va \<in> A" "k < 3"
  shows "path_in (paths A) (take k (va_path va) @ [va_path va ! k])" "unat (va_path va ! k) < 512"
proof -
  have "take k (va_path va) @ [va_path va ! k] = take (Suc k) (va_path va)"
    using assms(2) by (simp add: take_Suc_conv_app_nth)
  then show p: "path_in (paths A) (take k (va_path va) @ [va_path va ! k])"
    using path_in_take [OF path_in_va [OF va_in_paths [OF assms(1)]], of "Suc k"] by simp
  then show "unat (va_path va ! k) < 512" by (simp add: path_in_snocD)
qed

text \<open>A page that is mapped has all its levels.\<close>

lemma translate_levels:
  assumes "translate s root va \<noteq> None" "k < 3"
  shows "level_entry s root va k \<noteq> None"
proof -
  have step: "leaf_at rd root ps i \<noteq> None" if "table_at rd root (ps @ i # rs) \<noteq> None" for rd root ps i rs
    using that by (auto simp: table_at_append leaf_at_def Let_def split: option.splits if_splits bind_splits)
  have "table_at (pt_get s) root (va_path va) \<noteq> None"
    using assms(1) by (auto simp: translate_def leaf_at_def split: option.splits)
  then show ?thesis
    unfolding level_entry_def by (intro step [where rs = "drop (Suc k) (va_path va)"])
      (use assms(2) in \<open>simp add: id_take_nth_drop [symmetric]\<close>)
qed

lemma user_page_kept:
  assumes "user_page s root x" "upper_kept A root s t" "x \<in> A" "translate t root x = translate s root x"
  shows "user_page t root x"
proof -
  obtain e where e: "translate s root x = Some e" "user_open s root x" "user_entry e"
    using assms(1) by (auto simp: user_page_def split: option.splits)
  have "level_entry t root x k = level_entry s root x k" if "k < 3" for k
    using translate_levels [of s root x, OF _ that] e(1) assms(2,3) that by (auto simp: upper_kept_def)
  then have "user_open t root x" using e(2) by (simp add: user_open_def)
  then show ?thesis using e assms(4) by (simp add: user_page_def)
qed

text \<open>All this depends on the entries only.\<close>

lemma levels_cong:
  fixes s :: "'a pmm_state_scheme" and t :: "'b pmm_state_scheme"
  assumes "pt_get t = pt_get s"
  shows "level_entry t r x = level_entry s r x" "user_open t r x = user_open s r x"
    "user_page t r x = user_page s r x"
  unfolding level_entry_def user_open_def user_page_def translate_def assms by (rule refl)+

text \<open>Reads that agree on the tables of a tree agree on the levels.\<close>

lemma level_entry_agree:
  assumes "tree (paths A) (pt_get s) G root" "\<And>p i. G p \<Longrightarrow> unat i < 512 \<Longrightarrow> pt_get t p i = pt_get s p i"
    and "va \<in> A" "k < 3"
  shows "level_entry t root va k = level_entry s root va k"
  unfolding level_entry_def
  by (rule leaf_at_agree [OF assms(1,2)]) (use path_in_level [OF assms(3,4)] in \<open>auto dest: path_in_snocD\<close>)

lemma upper_kept_agree:
  assumes "tree (paths A) (pt_get s) G root" "\<And>p i. G p \<Longrightarrow> unat i < 512 \<Longrightarrow> pt_get t p i = pt_get s p i"
  shows "upper_kept A root s t" "x \<in> A \<Longrightarrow> user_open t root x = user_open s root x"
  using level_entry_agree [OF assms] by (simp_all add: upper_kept_def user_open_def)

section \<open>What a walk adds\<close>

text \<open>
  From \<open>s\<close> to \<open>t\<close> the upper entries stay, but for absent ones that now point to a page that was free.
\<close>

definition grows :: "u64 list set \<Rightarrow> u64 \<Rightarrow> 'a pmm_state_scheme \<Rightarrow> 'a pmm_state_scheme \<Rightarrow> u64 \<Rightarrow> bool" where
  "grows D f s t root \<longleftrightarrow> free_pages t \<subseteq> free_pages s \<and>
     (\<forall>qs j. path_in D (qs @ [j]) \<longrightarrow>
        leaf_at (pt_get t) root qs j = leaf_at (pt_get s) root qs j \<or>
        leaf_at (pt_get s) root qs j = None \<and>
          (\<exists>new. leaf_at (pt_get t) root qs j = Some (new OR PTE_P OR PTE_W OR (f AND PTE_U)) \<and>
             aligned 12 new \<and> unat new div 4096 \<in> free_pages s))"

lemma grows_refl [simp]: "grows D f s s root"
  by (simp add: grows_def)

lemma grows_trans:
  assumes "grows D f s t root" "grows D f t u root"
  shows "grows D f s u root"
  unfolding grows_def
proof (intro conjI allI impI)
  show "free_pages u \<subseteq> free_pages s" using assms by (auto simp: grows_def)
  fix qs j
  assume p: "path_in D (qs @ [j])"
  let ?new = "\<lambda>x y. \<exists>new. leaf_at (pt_get x) root qs j = Some (new OR PTE_P OR PTE_W OR (f AND PTE_U)) \<and>
             aligned 12 new \<and> unat new div 4096 \<in> free_pages y"
  have 1: "leaf_at (pt_get t) root qs j = leaf_at (pt_get s) root qs j \<or>
      leaf_at (pt_get s) root qs j = None \<and> ?new t s"
    and 2: "leaf_at (pt_get u) root qs j = leaf_at (pt_get t) root qs j \<or>
      leaf_at (pt_get t) root qs j = None \<and> ?new u t"
    and sub: "free_pages t \<subseteq> free_pages s"
    using assms p by (simp_all add: grows_def)
  from 2 show "leaf_at (pt_get u) root qs j = leaf_at (pt_get s) root qs j \<or>
      leaf_at (pt_get s) root qs j = None \<and> ?new u s"
  proof
    assume "leaf_at (pt_get u) root qs j = leaf_at (pt_get t) root qs j"
    then show ?thesis using 1 by simp
  next
    assume "leaf_at (pt_get t) root qs j = None \<and> ?new u t"
    then have "leaf_at (pt_get t) root qs j = None" "?new u s" using sub by blast+
    then show ?thesis using 1 by (auto 0 0)
  qed
qed

lemma ensure_level_grows:
  assumes w: "walk_ok D s0 s root" and ps: "path_in D (ps @ [i])"
    and q: "table_at (pt_get s) root ps = Some q" and e: "ensure_level q i flags s = (res, t)"
  shows "grows D flags s t root"
proof (cases "pt_get s q i AND PTE_P = 0")
  case False
  then show ?thesis using e by (auto simp: ensure_level_def)
next
  case absent: True
  have i: "path_in D ps" "unat i < 512" using ps by (simp_all add: path_in_snocD)
  obtain new u where a: "alloc_pt_page_phys s = (new, u)" by (cases "alloc_pt_page_phys s")
  note wd = walk_okD [OF w]
  note spec = alloc_pt_spec [OF wd(1) a]
  show ?thesis
  proof (cases "new = 0")
    case True
    then have "t = u" using e absent a by (simp add: ensure_level_def)
    then show ?thesis
      using spec(7) pts.alloc_leaf_at [OF wd(1) a wd(2)] by (auto simp: grows_def dest: path_in_snocD)
  next
    case False
    let ?v = "new OR PTE_P OR PTE_W OR (flags AND PTE_U)"
    have v: "?v AND 1 \<noteq> 0" "?v AND NOT 0xfff = new"
      using spec(4) [OF False] link_entry by (simp_all add: table_page_def page_low_bits)
    have gq: "table_page s q" "table_page u q"
      using tree_good [OF wd(2) i(1) q] spec(2) by blast+
    note g = pts.grow [OF wd(1,2) ps q _ a False v, unfolded next_table_P, OF absent]
    have same: "pt_get (pt_set q i ?v u) q i = ?v"
      using pt_get_pt_set [OF gq(2) gq(2) i(2) i(2)] by simp
    have t: "t = pt_set q i ?v u"
      using e absent a False by (simp add: ensure_level_def Let_def)
    have free: "free_pages t = free_pages u"
      unfolding t by (rule free_pages_pt_set [OF _ i(2)]) (use gq in \<open>simp add: table_page_def\<close>)
    have new: "unat new div 4096 \<in> free_pages s" "aligned 12 new"
    proof -
      obtain x where "pmm_alloc_pages 1 s = (new, x)"
        using alloc_pt_cases [OF wd(1) a] by metis
      from alloc_one_spec(4) [OF wd(1) this False] show "unat new div 4096 \<in> free_pages s" by blast
      show "aligned 12 new" using spec(4) [OF False] by (simp add: table_page_def)
    qed
    show ?thesis
      unfolding grows_def
    proof (intro conjI allI impI)
      show "free_pages t \<subseteq> free_pages s" using free spec(7) by simp
      fix qs j
      assume p: "path_in D (qs @ [j])"
      then have j: "path_in D qs" "unat j < 512" by (auto dest: path_in_snocD)
      show "leaf_at (pt_get t) root qs j = leaf_at (pt_get s) root qs j \<or>
        leaf_at (pt_get s) root qs j = None \<and>
          (\<exists>new. leaf_at (pt_get t) root qs j = Some (new OR PTE_P OR PTE_W OR (flags AND PTE_U)) \<and>
             aligned 12 new \<and> unat new div 4096 \<in> free_pages s)"
      proof (cases "qs = ps \<and> j = i")
        case True
        then have "leaf_at (pt_get s) root qs j = None" using q absent by (simp add: leaf_at_def PTE_P_1)
        moreover have "leaf_at (pt_get t) root qs j = Some ?v"
          using True g(3) [OF j(1)] q same v(1) by (simp add: leaf_at_def t)
        ultimately show ?thesis using new by blast
      next
        case False
        have "leaf_at (pt_get t) root qs j = leaf_at (pt_get s) root qs j"
        proof (cases "table_at (pt_get s) root qs")
          case None
          then show ?thesis using g(3) [OF j(1)] g(4) [OF j(2)] by (simp add: leaf_at_def t)
        next
          case (Some r)
          then have "qs \<noteq> ps @ [i]" using q absent by (auto simp: table_at_snoc next_table_def PTE_P_1)
          moreover have "\<not> (r = q \<and> j = i)"
            using False tree_unique [OF wd(2) j(1) i(1) Some] q by auto
          ultimately show ?thesis
            using g(3) [OF j(1)] g(5) [OF tree_good [OF wd(2) j(1) Some] j(2)] Some by (simp add: leaf_at_def t)
        qed
        then show ?thesis ..
      qed
    qed
  qed
qed

text \<open>The whole walk, and the leaf, which is below the upper levels.\<close>

lemma ensure_pt_grows:
  assumes s: "vmm_ready s" "tree D (pt_get s) (table_page s) root"
    and e: "ensure_pt root va flags s = (p, t)" and va: "va_path va \<in> D"
  shows "grows D flags s t root"
proof -
  let ?i4 = "ucast (idx_pml4 va) :: u64" and ?i3 = "ucast (idx_pdpt va) :: u64"
    and ?i2 = "ucast (idx_pd va) :: u64"
  have path: "va_path va = [?i4, ?i3, ?i2]" by (simp add: va_path_def)
  have ok: "path_in D ([] @ [?i4])" "path_in D ([?i4] @ [?i3])" "path_in D ([?i4, ?i3] @ [?i2])"
    using path_in_take [OF path_in_va [OF va], of 1] path_in_take [OF path_in_va [OF va], of 2] path_in_va [OF va]
    by (simp_all add: path)
  have w0: "walk_ok D s s root" by (rule walk_ok_refl [OF s])
  obtain r1 s1 where l1: "ensure_level root ?i4 flags s = (r1, s1)" by force
  note e1 = ensure_level_spec [OF w0 ok(1) _ l1, simplified]
  have g1: "grows D flags s s1 root" by (rule ensure_level_grows [OF w0 ok(1) _ l1]) simp
  show ?thesis
  proof (cases r1)
    case None
    then show ?thesis using e l1 g1 by (simp add: ensure_pt_def)
  next
    case (Some p1)
    obtain r2 s2 where l2: "ensure_level p1 ?i3 flags s1 = (r2, s2)" by force
    from e1 Some have at1: "table_at (pt_get s1) root [?i4] = Some p1" "walk_ok D s s1 root" by auto
    note e2 = ensure_level_spec [OF at1(2) ok(2) at1(1) l2, simplified]
    have g2: "grows D flags s s2 root"
      by (rule grows_trans [OF g1 ensure_level_grows [OF at1(2) ok(2) at1(1) l2]])
    show ?thesis
    proof (cases r2)
      case None
      then show ?thesis using e l1 l2 Some g2 by (simp add: ensure_pt_def)
    next
      case r2: (Some p2)
      obtain r3 s3 where l3: "ensure_level p2 ?i2 flags s2 = (r3, s3)" by force
      from e2 r2 have at2: "table_at (pt_get s2) root [?i4, ?i3] = Some p2" "walk_ok D s s2 root" by auto
      have "grows D flags s s3 root"
        by (rule grows_trans [OF g2 ensure_level_grows [OF at2(2) ok(3) at2(1) l3]])
      moreover have "t = s3" using e l1 l2 l3 Some r2 by (auto simp: ensure_pt_def split: option.splits)
      ultimately show ?thesis by simp
    qed
  qed
qed

lemma common_grows:
  assumes s: "space_ok A s root" and va: "virt \<in> A"
    and e: "ensure_pt root (vmm_align_down virt) f s = (p, u)"
    and t: "t = (if p = 0 then u else write_leaf p (vmm_align_down virt) phys f u)"
  shows "grows (paths A) f s t root"
proof -
  from s have s': "vmm_ready s" "tree (paths A) (pt_get s) (table_page s) root" by (simp_all add: space_ok_def)
  note pv = va_in_paths [OF va]
  note en = ensure_pt_spec [OF s' e, unfolded va_align, OF pv]
  have g: "grows (paths A) f s u root" by (rule ensure_pt_grows [OF s' e]) (simp add: pv)
  show ?thesis
  proof (cases "p = 0")
    case False
    from en have w: "walk_ok (paths A) s u root" by blast
    have p: "table_at (pt_get u) root (va_path virt) = Some p" using en False by blast
    note gp = tree_good [OF walk_okD(2) [OF w] path_in_va [OF pv] p]
    have t': "pt_get t = pt_get (pt_set p (va_slot virt) (leaf_value phys f) u)"
      "free_pages t = free_pages (pt_set p (va_slot virt) (leaf_value phys f) u)"
      using t False by (simp_all add: write_leaf_eq)
    have "leaf_at (pt_get t) root qs j = leaf_at (pt_get u) root qs j" if "path_in (paths A) (qs @ [j])" for qs j
    proof -
      have "path_in (paths A) qs" "unat j < 512" "qs \<noteq> va_path virt" using path_in_snocD [OF that] by auto
      then show ?thesis
        unfolding t' using pt.set_leaf_at [OF walk_okD(2) [OF w] path_in_va [OF pv] _ p] by simp
    qed
    moreover have "free_pages t = free_pages u"
      unfolding t'(2) by (rule free_pages_pt_set [OF table_page_apart [OF gp]]) simp
    ultimately show ?thesis using g by (simp add: grows_def)
  qed (use g t in simp)
qed

lemma grows_flags: "f AND PTE_U = g AND PTE_U \<Longrightarrow> grows D f s t root = grows D g s t root"
  by (simp add: grows_def)

lemma map_grows:
  assumes s: "space_ok A s root" and va: "virt \<in> A" and m: "vmm_map_page_cr3 root virt phys flags s = (rc, t)"
  shows "grows (paths A) flags s t root"
proof -
  let ?f = "flags AND NOT (PTE_PCD OR PTE_PWT)"
  obtain p u where e: "ensure_pt root (vmm_align_down virt) ?f s = (p, u)" by force
  with m have t: "t = (if p = 0 then u else write_leaf p (vmm_align_down virt) (vmm_align_down phys) ?f u)"
    by (auto simp: vmm_map_page_cr3_def Let_def split: if_splits)
  have "?f AND PTE_U = flags AND PTE_U" by (rule bit_word_eqI) (auto simp: bit_simps bit_pte)
  from common_grows [OF s va e t] grows_flags [OF this] show ?thesis by blast
qed

lemma map_mmio_grows:
  assumes s: "space_ok A s (read_cr3 s AND NOT 0xfff)" and va: "virt \<in> A"
    and m: "vmm_map_page_mmio virt phys flags s = (rc, t)"
  shows "grows (paths A) flags s t (read_cr3 s AND NOT 0xfff)"
proof -
  obtain p u where e: "ensure_pt (read_cr3 s AND NOT 0xfff) (vmm_align_down virt) flags s = (p, u)" by force
  with m have t: "t = (if p = 0 then u else write_leaf p (vmm_align_down virt) (vmm_align_down phys) flags u)"
    by (auto simp: vmm_map_page_mmio_def Let_def split: if_splits)
  show ?thesis by (rule common_grows [OF s va e t])
qed

section \<open>What user mode gains\<close>

lemma grows_level:
  assumes "grows (paths A) f s t root" "x \<in> A" "k < 3"
  shows "level_entry t root x k = level_entry s root x k \<or>
    level_entry s root x k = None \<and>
      (\<exists>new. level_entry t root x k = Some (new OR PTE_P OR PTE_W OR (f AND PTE_U)) \<and>
         aligned 12 new \<and> unat new div 4096 \<in> free_pages s)"
  using assms(1) path_in_level(1) [OF assms(2,3)] unfolding grows_def level_entry_def by blast

lemma grows_upper_kept: "grows (paths A) f s t root \<Longrightarrow> upper_kept A root s t"
  unfolding upper_kept_def using grows_level by (metis option.distinct(1))

lemma and_bit_set:
  assumes "f AND PTE_U \<noteq> 0"
  shows "bit f 2"
proof (rule ccontr)
  assume "\<not> bit f 2"
  then have "f AND PTE_U = 0" by (intro bit_eqI) (auto simp: bit_and_iff bit_pte)
  with assms show False by simp
qed

text \<open>A new entry lets user mode in when the flags do and pages are below \<open>2 ^ 52\<close> bytes.\<close>

lemma user_entry_new:
  assumes "f AND PTE_U \<noteq> 0" "aligned 12 new" "unat new div 4096 < 2 ^ 40"
  shows "user_table (new OR PTE_P OR PTE_W OR (f AND PTE_U))"
proof -
  have f: "bit f 2" by (rule and_bit_set [OF assms(1)])
  have "unat new < 2 ^ 52" using assms(3) by simp
  then have "take_bit 52 new = new" by (simp add: word_unat_eq_iff unsigned_take_bit_eq take_bit_nat_eq_self)
  then have "bit new 63 = bit (take_bit 52 new) 63" by (simp only:)
  then have n: "\<not> bit new 63" by (simp add: bit_take_bit_iff)
  let ?e = "new OR PTE_P OR PTE_W OR (f AND PTE_U)"
  have "bit (?e AND PTE_U) 2" using f by (simp add: bit_simps bit_pte)
  then have "?e AND PTE_U \<noteq> 0" by auto
  moreover have "?e AND PTE_NX = 0" using n by (intro bit_word_eqI) (auto simp: bit_simps bit_pte)
  moreover have "\<not> bit new 7"
    using arg_cong [OF assms(2) [unfolded aligned_def], of "\<lambda>w. bit w 7"] by (simp add: bit_simps)
  then have "?e AND PTE_PS = 0" by (intro bit_word_eqI) (auto simp: bit_simps bit_pte bit_ps)
  ultimately show ?thesis by (simp add: user_table_def user_entry_def)
qed

lemma grows_user_open:
  assumes "grows (paths A) f s t root" "f AND PTE_U \<noteq> 0" "free_pages s \<subseteq> {..<2 ^ 40}" "x \<in> A" "user_open s root x"
  shows "user_open t root x"
  unfolding user_open_def
proof (intro allI impI)
  fix k :: nat
  assume k: "k < 3"
  have s: "case level_entry s root x k of None \<Rightarrow> True | Some e \<Rightarrow> user_table e"
    using assms(5) k by (simp add: user_open_def)
  from grows_level [OF assms(1,4) k] show "case level_entry t root x k of None \<Rightarrow> True | Some e \<Rightarrow> user_table e"
    using s user_entry_new [OF assms(2)] assms(3) by fastforce
qed

text \<open>The leaf entry of a page for user mode.\<close>

lemma user_leaf:
  assumes "flags AND PTE_U \<noteq> 0" "flags AND PTE_NX = 0" "phys AND PTE_NX = 0"
  shows "user_entry (leaf_value (vmm_align_down phys) (flags AND NOT (PTE_PCD OR PTE_PWT)))"
proof -
  let ?e = "leaf_value (vmm_align_down phys) (flags AND NOT (PTE_PCD OR PTE_PWT))"
  have f: "bit flags 2" by (rule and_bit_set [OF assms(1)])
  have n: "\<not> bit flags 63" "\<not> bit phys 63"
    using arg_cong [OF assms(2), of "\<lambda>w. bit w 63"] arg_cong [OF assms(3), of "\<lambda>w. bit w 63"]
    by (simp_all add: bit_simps bit_pte)
  have "bit (?e AND PTE_U) 2" using f by (simp add: leaf_value_def bit_simps bit_pte)
  then have "?e AND PTE_U \<noteq> 0" by auto
  moreover have "?e AND PTE_NX = 0"
    using n by (intro bit_word_eqI) (auto simp: leaf_value_def vmm_align_down_def bit_simps bit_pte)
  ultimately show ?thesis by (simp add: user_entry_def)
qed

text \<open>The walk cannot repair an entry that keeps user mode out: it stays, and so does its page.\<close>

lemma grows_closed:
  assumes "grows (paths A) f s t root" "x \<in> A" "\<not> user_open s root x"
  shows "\<not> user_page t root x"
proof -
  obtain k e where k: "k < 3" "level_entry s root x k = Some e" "\<not> user_table e"
    using assms(3) by (auto simp: user_open_def split: option.splits)
  have "level_entry t root x k = Some e"
    using grows_upper_kept [OF assms(1)] assms(2) k(1,2) by (simp add: upper_kept_def)
  with k have "\<not> user_open t root x" by (auto simp: user_open_def)
  then show ?thesis by (simp add: user_page_def split: option.split)
qed

text \<open>
  C9: Mapping a page for user mode, with the user bit and without the no-execute bit in flags and address,
  lets user mode read and execute there exactly when no upper entry that was already present keeps it
  out: \<open>ensure_pt\<close> gives the user bit to the tables it makes and leaves every upper entry that is
  present on the paths of \<open>A\<close> exactly as it is, and the status does not tell. Pages are below \<open>2 ^ 52\<close> bytes.
\<close>

theorem vmm_map_page_user:
  assumes "space_ok A s root" "virt \<in> A" "vmm_map_page_cr3 root virt phys flags s = (0, t)"
    and "flags AND PTE_U \<noteq> 0" "flags AND PTE_NX = 0" "phys AND PTE_NX = 0" "unat (g_total_pages s) \<le> 2 ^ 40"
  shows "(user_page t root virt \<longleftrightarrow> user_open s root virt) \<and> upper_kept A root s t"
proof -
  have g: "grows (paths A) flags s t root" by (rule map_grows [OF assms(1-3)])
  have e: "translate t root virt = Some (leaf_value (vmm_align_down phys) (flags AND NOT (PTE_PCD OR PTE_PWT)))"
    using map_page_spec [OF assms(1-3)] assms(2) by (simp add: same_page_def)
  have "free_pages s \<subseteq> {..<2 ^ 40}" using assms(7) by (auto dest: free_pages_less)
  note op = grows_user_open [OF g assms(4) this assms(2)] and cl = grows_closed [OF g assms(2)]
  from user_leaf [OF assms(4-6)] e op cl grows_upper_kept [OF g] show ?thesis by (auto simp: user_page_def)
qed

text \<open>The demo space has no upper entries.\<close>

lemma demo_user_open: "user_open demo_vmm 0x5000 x"
proof -
  have "level_entry demo_vmm 0x5000 x k = None" if k: "k < 3" for k
  proof -
    have p: "path_in (paths UNIV) (take k (va_path x) @ [va_path x ! k])" by (rule path_in_level [OF UNIV_I k])
    then have "path_ok (take k (va_path x))" "unat (va_path x ! k) < 512"
      by (auto dest: path_in_snocD path_in_ok)
    then show ?thesis using demo_root_empty by (simp add: level_entry_def leaf_at_def demo_paths)
  qed
  then show ?thesis by (simp add: user_open_def)
qed

theorem vmm_map_page_user_witness:
  "user_page (snd (vmm_map_page_cr3 0x5000 0x400000 0x3000 (PTE_U OR PTE_W) demo_vmm)) 0x5000 0x400000"
proof -
  have f: "(PTE_U OR PTE_W) AND PTE_U \<noteq> 0" "(PTE_U OR PTE_W) AND PTE_NX = 0" "0x3000 AND PTE_NX = 0"
    by (simp_all add: pte_defs)
  have "3 \<le> card (free_pages demo_vmm)" "0 \<notin> free_pages demo_vmm" by (simp_all only: demo_vmm_card, simp_all add: demo_vmm_free)
  from map_page_succeeds [OF demo_space_ok(1) UNIV_I this] obtain t where
    t: "vmm_map_page_cr3 0x5000 0x400000 0x3000 (PTE_U OR PTE_W) demo_vmm = (0, t)"
    by (metis prod.collapse)
  have "unat (g_total_pages demo_vmm) \<le> 2 ^ 40" by (simp add: demo_vmm_def)
  with vmm_map_page_user [OF demo_space_ok(1) UNIV_I t f] t demo_user_open show ?thesis by simp
qed

end
