(* ===== verification/User_Access.thy ===== *)
theory User_Access
  imports User_Pages
begin

text \<open>
  What a C pointer of unknown origin reaches: it goes through the page tables in CR3, in either half of
  the address space, and a page that is not present is a page fault. A byte of physical memory is kept
  at its address in the direct map. Pages that the kernel hands out as data are never page tables, so
  that filling them leaves every translation alone.
\<close>

section \<open>Access through the page tables\<close>

definition page_frame :: "u64 \<Rightarrow> u64" where
  "page_frame e = e AND 0x000ffffffffff000"

text \<open>
  The walk of the processor, to a physical address. In the kernel's half the boot loader maps large pages
  too: an entry with the page size bit ends the walk at the second or the third level.
\<close>

definition hw_entry :: "'a pmm_state_scheme \<Rightarrow> u64 \<Rightarrow> u64 \<Rightarrow> u64 option" where
  "hw_entry s q i = (let e = pt_get s q i in if e AND PTE_P = 0 then None else Some e)"

definition hw_walk :: "'a pmm_state_scheme \<Rightarrow> u64 \<Rightarrow> u64 \<Rightarrow> u64 option" where
  "hw_walk s root va =
     do {
       e4 \<leftarrow> hw_entry s root (ucast (idx_pml4 va));
       e3 \<leftarrow> hw_entry s (page_frame e4) (ucast (idx_pdpt va));
       if e3 AND PTE_PS \<noteq> 0 then Some ((e3 AND 0x000fffffc0000000) + (va AND 0x3fffffff))
       else do {
         e2 \<leftarrow> hw_entry s (page_frame e3) (ucast (idx_pd va));
         if e2 AND PTE_PS \<noteq> 0 then Some ((e2 AND 0x000fffffffe00000) + (va AND 0x1fffff))
         else do {
           e1 \<leftarrow> hw_entry s (page_frame e2) (ucast (idx_pt va));
           Some (page_frame e1 + (va AND 0xfff))
         }
       }
     }"

text \<open>
  Where the byte at \<open>va\<close> is kept; \<open>None\<close> when the access faults. In the user half there are only the
  small pages that the kernel maps itself.
\<close>

definition access :: "'a pmm_state_scheme \<Rightarrow> u64 \<Rightarrow> u64 option" where
  "access s va =
     (if drop_bit 47 va = 0x1ffff then
        map_option (phys_to_virt s) (hw_walk s (read_cr3 s AND NOT 0xfff) va)
      else if drop_bit 47 va = 0 then
        (case translate s (read_cr3 s AND NOT 0xfff) va of
           None \<Rightarrow> None
         | Some e \<Rightarrow> Some (phys_to_virt s (page_frame e + (va AND 0xfff))))
      else None)"

definition load_byte :: "'a pmm_state_scheme \<Rightarrow> u64 \<Rightarrow> u8 option" where
  "load_byte s va = map_option (mem s) (access s va)"

text \<open>A user program reads and executes the user pages of the lower half.\<close>

definition user_fetch :: "'a pmm_state_scheme \<Rightarrow> u64 \<Rightarrow> u8 option" where
  "user_fetch s va =
     (if drop_bit 47 va = 0 \<and> user_page s (read_cr3 s AND NOT 0xfff) va then load_byte s va else None)"

definition store_byte :: "u64 \<Rightarrow> u8 \<Rightarrow> 'a pmm_state_scheme \<Rightarrow> 'a pmm_state_scheme option" where
  "store_byte va b s =
     (case access s va of None \<Rightarrow> None | Some a \<Rightarrow> Some (s\<lparr>mem := (mem s)(a := b)\<rparr>))"

text \<open>The bytes of a list, stored in order from \<open>va\<close> on.\<close>

primrec store_bytes :: "u64 \<Rightarrow> u8 list \<Rightarrow> 'a pmm_state_scheme \<Rightarrow> 'a pmm_state_scheme option" where
  "store_bytes va [] s = Some s"
| "store_bytes va (b # bs) s =
     (case store_byte va b s of None \<Rightarrow> None | Some s \<Rightarrow> store_bytes (va + 1) bs s)"

lemma access_cong:
  assumes "pt_get t = pt_get s" "cr3 t = cr3 s" "g_hhdm t = g_hhdm s"
  shows "access t = access s"
  unfolding access_def [abs_def] hw_walk_def hw_entry_def translate_def read_cr3_def phys_to_virt_def
    hhdm_offset_def assms by (rule refl)

text \<open>
  In the user half the two agree: where no upper entry is a large page or uses the bits from 52 on, the
  processor gets where the kernel's own tables say.
\<close>

lemma hw_walk_translate:
  assumes t: "translate s root va = Some e"
    and upper: "\<And>k f. k < 3 \<Longrightarrow> level_entry s root va k = Some f \<Longrightarrow> f AND PTE_PS = 0 \<and> page_frame f = f AND NOT 0xfff"
  shows "hw_walk s root va = Some (page_frame e + (va AND 0xfff))"
proof -
  let ?p = "pt_get s"
  define i4 i3 i2 i1 :: u64 where "i4 = ucast (idx_pml4 va)" and "i3 = ucast (idx_pdpt va)"
    and "i2 = ucast (idx_pd va)" and "i1 = ucast (idx_pt va)"
  have path: "va_path va = [i4, i3, i2]" "va_slot va = i1"
    by (simp_all add: va_path_def va_slot_def i4_def i3_def i2_def i1_def)
  obtain q3 where q3: "table_at ?p root [i4, i3, i2] = Some q3" "?p q3 i1 AND 1 \<noteq> 0" "e = ?p q3 i1"
    using t by (auto simp: translate_def path leaf_at_def Let_def split: option.splits if_splits)
  then obtain q1 q2 where q: "next_table ?p root i4 = Some q1" "next_table ?p q1 i3 = Some q2"
    "next_table ?p q2 i2 = Some q3"
    by (auto simp: table_at_Cons bind_eq_Some_conv simp del: table_at.simps(2))
  then have n: "?p root i4 AND 1 \<noteq> 0" "q1 = ?p root i4 AND NOT 0xfff" "?p q1 i3 AND 1 \<noteq> 0" "q2 = ?p q1 i3 AND NOT 0xfff"
    "?p q2 i2 AND 1 \<noteq> 0" "q3 = ?p q2 i2 AND NOT 0xfff"
    by (auto simp: next_table_def Let_def split: if_splits)
  have l: "level_entry s root va 0 = Some (?p root i4)" "level_entry s root va 1 = Some (?p q1 i3)"
    "level_entry s root va 2 = Some (?p q2 i2)"
    using q(1,2) n by (simp_all add: level_entry_def path leaf_at_def Let_def)
  have u: "page_frame (?p root i4) = q1" "?p q1 i3 AND PTE_PS = 0" "page_frame (?p q1 i3) = q2"
    "?p q2 i2 AND PTE_PS = 0" "page_frame (?p q2 i2) = q3"
    using upper [OF _ l(1)] upper [OF _ l(2)] upper [OF _ l(3)] n by simp_all
  show ?thesis
    using n q3(2,3) u
    by (simp add: hw_walk_def hw_entry_def Let_def PTE_P_1 flip: i4_def i3_def i2_def i1_def)
qed

section \<open>Data pages\<close>

text \<open>A page that was handed out and is not a table on the paths of \<open>A\<close> in the space.\<close>

definition data_page :: "u64 set \<Rightarrow> 'a pmm_state_scheme \<Rightarrow> u64 \<Rightarrow> u64 \<Rightarrow> bool" where
  "data_page A s root p \<longleftrightarrow> table_page s p \<and>
     (\<forall>qs. path_in (paths A) qs \<longrightarrow> table_at (pt_get s) root qs \<noteq> Some p)"

lemma data_page_alloc:
  assumes s: "space_ok A s root" and a: "pmm_alloc_pages 1 s = (p, t)" and "p \<noteq> 0"
  shows "data_page A t root p"
proof -
  from s have r: "vmm_ready s" and t: "tree (paths A) (pt_get s) (table_page s) root" by (simp_all add: space_ok_def)
  note one = alloc_one_spec [OF r a]
  have "table_at (pt_get t) root qs \<noteq> Some p" if "path_in (paths A) qs" for qs
  proof
    assume at: "table_at (pt_get t) root qs = Some p"
    have "table_at (pt_get t) root qs = table_at (pt_get s) root qs"
      by (rule table_at_agree [OF t one(3) that])
    with at tree_good [OF t that] have "table_page s p" by simp
    with one(4) [OF \<open>p \<noteq> 0\<close>] show False by (simp add: table_page_def)
  qed
  with one(4) [OF \<open>p \<noteq> 0\<close>] show ?thesis by (simp add: data_page_def)
qed

text \<open>Address spaces depend on the fields of the memory managers only.\<close>

lemma space_ok_fields:
  fixes s :: "'a pmm_state_scheme" and t :: "'b pmm_state_scheme"
  assumes "mem t = mem s" "g_hhdm t = g_hhdm s" "g_bitmap t = g_bitmap s"
    "g_total_pages t = g_total_pages s" "g_free_bytes t = g_free_bytes s"
  shows "space_ok A t root = space_ok A s root"
  by (simp add: space_ok_def tables_cong [OF assms])

lemma data_page_fields:
  fixes s :: "'a pmm_state_scheme" and t :: "'b pmm_state_scheme"
  assumes "mem t = mem s" "g_hhdm t = g_hhdm s" "g_bitmap t = g_bitmap s"
    "g_total_pages t = g_total_pages s" "g_free_bytes t = g_free_bytes s"
  shows "data_page A t root q = data_page A s root q"
  by (simp add: data_page_def tables_cong [OF assms])

text \<open>An allocation keeps the space and its data pages, and takes one page.\<close>

lemma alloc_keeps_space:
  assumes s: "space_ok A s root" and a: "pmm_alloc_pages 1 s = (p, t)"
  shows "space_ok A t root" "x \<in> A \<Longrightarrow> translate t root x = translate s root x"
    "data_page A s root q \<Longrightarrow> data_page A t root q"
    "upper_kept A root s t" "x \<in> A \<Longrightarrow> user_open t root x = user_open s root x"
proof -
  from s have r: "vmm_ready s" and t: "tree (paths A) (pt_get s) (table_page s) root" by (simp_all add: space_ok_def)
  note one = alloc_one_spec [OF r a]
  show "upper_kept A root s t" "x \<in> A \<Longrightarrow> user_open t root x = user_open s root x"
    by (rule upper_kept_agree [OF t one(3)], assumption+)+
  have at: "table_at (pt_get t) root qs = table_at (pt_get s) root qs" if "path_in (paths A) qs" for qs
    by (rule table_at_agree [OF t one(3) that])
  show "space_ok A t root"
    unfolding space_ok_def using one(1) tree_cong [OF t, of "pt_get t" "table_page t"] at one(2) by blast
  show "x \<in> A \<Longrightarrow> translate t root x = translate s root x"
    unfolding translate_def by (rule leaf_at_agree [OF t one(3) path_in_va]) simp_all
  show "data_page A s root q \<Longrightarrow> data_page A t root q"
    using one(2) at by (simp add: data_page_def)
qed

lemma alloc_succeeds:
  assumes "vmm_ready s" "pmm_alloc_pages 1 s = (p, t)" "0 \<notin> free_pages s" "n < card (free_pages s)"
  shows "p \<noteq> 0" "n \<le> card (free_pages t)" "0 \<notin> free_pages t"
  using alloc_one_spec [OF assms(1,2)] assms(3,4) by auto

text \<open>
  So do the two mapping functions, which end up in the tables of the path and one leaf entry; the
  contents of data pages stay too.
\<close>

lemma data_page_off_path: "data_page A s root q \<Longrightarrow> va \<in> A \<Longrightarrow> off_path s root va q"
  by (auto simp: data_page_def off_path_def intro: path_in_take)

lemma common_keeps_data:
  assumes s: "space_ok A s root" and va: "virt \<in> A"
    and e: "ensure_pt root (vmm_align_down virt) f s = (p, u)"
    and t: "t = (if p = 0 then u else write_leaf p (vmm_align_down virt) phys f u)"
  shows "data_page A s root q \<Longrightarrow> data_page A t root q"
    "data_page A s root q \<Longrightarrow> unat j < 512 \<Longrightarrow> pt_get t q j = pt_get s q j"
    "card (free_pages s) \<le> 3 + card (free_pages t)" "free_pages t \<subseteq> free_pages s"
proof -
  from s have s': "vmm_ready s" "tree (paths A) (pt_get s) (table_page s) root" by (simp_all add: space_ok_def)
  note pv = va_in_paths [OF va]
  note en = ensure_pt_spec [OF s' e, unfolded va_align, OF pv]
  then have w: "walk_ok (paths A) s u root" and card: "card (free_pages s) \<le> 3 + card (free_pages u)"
    and sub: "free_pages u \<subseteq> free_pages s" by simp_all
  have p: "table_at (pt_get u) root (va_path virt) = Some p" "table_page u p" if "p \<noteq> 0"
    using en that tree_good [OF walk_okD(2) [OF w] path_in_va [OF pv]] by simp_all
  have u: "data_page A s root q \<Longrightarrow> data_page A u root q"
    using walk_okD(4,5) [OF w] unfolding data_page_def by blast
  have leaf: "p \<noteq> 0 \<Longrightarrow> pt_get t = pt_get (pt_set p (va_slot virt) (leaf_value phys f) u)"
    "p \<noteq> 0 \<Longrightarrow> table_page t = table_page (pt_set p (va_slot virt) (leaf_value phys f) u)"
    "p \<noteq> 0 \<Longrightarrow> free_pages t = free_pages (pt_set p (va_slot virt) (leaf_value phys f) u)"
    by (simp_all add: t write_leaf_eq)
  have ut: "data_page A u root q \<Longrightarrow> data_page A t root q"
  proof (cases "p = 0")
    case False
    have "table_at (pt_get (pt_set p (va_slot virt) v u)) root qs = table_at (pt_get u) root qs"
      if "path_in (paths A) qs" for qs v
      by (rule pt.set_leaf_table_at [OF walk_okD(2) [OF w] path_in_va [OF pv] _ p(1) [OF False] _ that]) simp_all
    then show "data_page A u root q \<Longrightarrow> data_page A t root q"
      using p(2) [OF False] leaf(1,2) [OF False] by (simp add: data_page_def table_page_pt_set)
  qed (simp add: t)
  with u show "data_page A s root q \<Longrightarrow> data_page A t root q" by blast
  have "free_pages t = free_pages u"
    using p(2) leaf(3) by (cases "p = 0") (simp_all add: t free_pages_pt_set table_page_apart)
  with card sub show "card (free_pages s) \<le> 3 + card (free_pages t)" "free_pages t \<subseteq> free_pages s"
    by simp_all
  assume q: "data_page A s root q" and j: "unat j < 512"
  have "pt_get u q j = pt_get s q j"
    by (rule ensure_pt_frame [OF s' e _ _ _ j])
      (use q pv data_page_off_path [OF q va] in \<open>simp_all add: data_page_def off_path_def\<close>)
  moreover have "pt_get t q j = pt_get u q j"
  proof (cases "p = 0")
    case False
    have "q \<noteq> p" using u [OF q] p(1) [OF False] path_in_va [OF pv] by (auto simp: data_page_def)
    moreover have "table_page u q" using u [OF q] by (simp add: data_page_def)
    ultimately show ?thesis
      using leaf(1) [OF False] pt_get_pt_set [OF p(2) [OF False] _ _ j] by simp
  qed (simp add: t)
  ultimately show "pt_get t q j = pt_get s q j" by simp
qed

lemma map_keeps_data:
  assumes s: "space_ok A s root" and va: "virt \<in> A" and m: "vmm_map_page_cr3 root virt phys flags s = (rc, t)"
  shows "data_page A s root q \<Longrightarrow> data_page A t root q"
    "data_page A s root q \<Longrightarrow> unat j < 512 \<Longrightarrow> pt_get t q j = pt_get s q j"
    "card (free_pages s) \<le> 3 + card (free_pages t)" "free_pages t \<subseteq> free_pages s"
proof -
  let ?f = "flags AND NOT (PTE_PCD OR PTE_PWT)"
  obtain p u where e: "ensure_pt root (vmm_align_down virt) ?f s = (p, u)" by force
  with m have t: "t = (if p = 0 then u else write_leaf p (vmm_align_down virt) (vmm_align_down phys) ?f u)"
    by (auto simp: vmm_map_page_cr3_def Let_def split: if_splits)
  note c = common_keeps_data [OF s va e t]
  show "data_page A s root q \<Longrightarrow> data_page A t root q" by (rule c(1))
  show "data_page A s root q \<Longrightarrow> unat j < 512 \<Longrightarrow> pt_get t q j = pt_get s q j" by (rule c(2))
  show "card (free_pages s) \<le> 3 + card (free_pages t)" "free_pages t \<subseteq> free_pages s" by (rule c(3), rule c(4))
qed

lemma map_mmio_keeps_data:
  assumes s: "space_ok A s (read_cr3 s AND NOT 0xfff)" and va: "virt \<in> A"
    and m: "vmm_map_page_mmio virt phys flags s = (rc, t)"
  defines "root \<equiv> read_cr3 s AND NOT 0xfff"
  shows "data_page A s root q \<Longrightarrow> data_page A t root q"
    "data_page A s root q \<Longrightarrow> unat j < 512 \<Longrightarrow> pt_get t q j = pt_get s q j"
    "card (free_pages s) \<le> 3 + card (free_pages t)" "free_pages t \<subseteq> free_pages s"
proof -
  obtain p u where e: "ensure_pt root (vmm_align_down virt) flags s = (p, u)" by force
  with m have t: "t = (if p = 0 then u else write_leaf p (vmm_align_down virt) (vmm_align_down phys) flags u)"
    by (auto simp: vmm_map_page_mmio_def Let_def root_def split: if_splits)
  note c = common_keeps_data [OF s [folded root_def] va e t]
  show "data_page A s root q \<Longrightarrow> data_page A t root q" by (rule c(1))
  show "data_page A s root q \<Longrightarrow> unat j < 512 \<Longrightarrow> pt_get t q j = pt_get s q j" by (rule c(2))
  show "card (free_pages s) \<le> 3 + card (free_pages t)" "free_pages t \<subseteq> free_pages s" by (rule c(3), rule c(4))
qed

text \<open>A step that keeps the data pages of a space and what is in them, and the upper entries.\<close>

definition keeps_data :: "u64 set \<Rightarrow> u64 \<Rightarrow> 'a pmm_state_scheme \<Rightarrow> 'a pmm_state_scheme \<Rightarrow> bool" where
  "keeps_data A root s t \<longleftrightarrow> upper_kept A root s t \<and>
     (\<forall>q. data_page A s root q \<longrightarrow> data_page A t root q \<and>
        (\<forall>j. unat j < 512 \<longrightarrow> pt_get t q j = pt_get s q j))"

lemma keeps_data_refl [simp]: "keeps_data A root s s"
  by (simp add: keeps_data_def)

lemma keeps_data_trans: "keeps_data A root s t \<Longrightarrow> keeps_data A root t u \<Longrightarrow> keeps_data A root s u"
  unfolding keeps_data_def using upper_kept_trans by fastforce

text \<open>The bytes of a page whose quadwords are kept.\<close>

lemma page_bytes_kept:
  assumes "\<And>j. unat j < 512 \<Longrightarrow> pt_get t q j = pt_get s q j" "g_hhdm t = g_hhdm s" "unat off < 4096"
  shows "mem t (phys_to_virt t q + off) = mem s (phys_to_virt s q + off)"
proof (rule bit_word_eqI)
  fix r
  assume "r < LENGTH(8)"
  then have r: "r < 8" by simp
  define j where "j = (of_nat (unat off div 8) :: u64)"
  have uj: "unat j = unat off div 8" unfolding j_def using assms(3) by (intro unat_of_nat_u64) simp
  then have j: "unat j < 512" using assms(3) by simp
  have o: "8 * j + of_nat (unat off mod 8) = off"
  proof -
    have "8 * j + of_nat (unat off mod 8) = (of_nat (8 * (unat off div 8) + unat off mod 8) :: u64)"
      unfolding j_def of_nat_add of_nat_mult by simp
    also have "\<dots> = off" by simp
    finally show ?thesis .
  qed
  have b: "bit (pt_get x q j) (8 * (unat off mod 8) + r) = bit (mem x (phys_to_virt x q + off)) r"
    for x :: "'c pmm_state_scheme"
    using bit_rd64 [of "unat off mod 8" r "mem x" "cell (pt_virt x q) j"] r o
    by (simp add: pt_get_def cell_def pt_virt_def add.assoc)
  show "bit (mem t (phys_to_virt t q + off)) r = bit (mem s (phys_to_virt s q + off)) r"
    using b [of t] b [of s] assms(1) [OF j] by simp
qed

text \<open>Filling a data page leaves the tables, the bitmap and so every translation alone.\<close>

lemma cell_in_page: "unat i < 512 \<Longrightarrow> unat k < 8 \<Longrightarrow> unat (8 * i + k) < 4096" for i k :: u64
  by (simp add: unat_word_ariths unat_cell_offset)

lemma store_keeps_space:
  fixes b :: u8
  assumes s: "space_ok A s root" and p: "data_page A s root p" and o: "unat off < 4096"
  defines "t \<equiv> s\<lparr>mem := (mem s)(phys_to_virt s p + off := b)\<rparr>"
  shows "space_ok A t root" "x \<in> A \<Longrightarrow> translate t root x = translate s root x"
    "data_page A t root q = data_page A s root q"
    "free_pages t = free_pages s" "upper_kept A root s t"
proof -
  have tp: "table_page s p" using p by (simp add: data_page_def)
  have pv: "phys_to_virt s p = pt_virt s p" by (simp add: pt_virt_def)
  have frame: "g_hhdm t = g_hhdm s" "g_total_pages t = g_total_pages s" "g_bitmap t = g_bitmap s"
    "g_free_bytes t = g_free_bytes s" "bitmap_addr t = bitmap_addr s" "pt_virt t = pt_virt s"
    by (simp_all add: t_def fun_eq_iff bitmap_addr_def pt_virt_add)
  have get: "pt_get t q i = pt_get s q i" if "table_page s q" "q \<noteq> p" "unat i < 512" for q i
  proof -
    have "pt_virt s q + (8 * i + k) \<noteq> pt_virt s p + off" if k: "unat k < 8" for k
    proof
      assume "pt_virt s q + (8 * i + k) = pt_virt s p + off"
      from aligned_window_unique [OF this aligned_pt_virt [OF \<open>table_page s q\<close>] aligned_pt_virt [OF tp]]
      have "pt_virt s q = pt_virt s p" using o cell_in_page [OF \<open>unat i < 512\<close> k] by simp
      with \<open>q \<noteq> p\<close> show False by (simp add: pt_virt_add)
    qed
    then show ?thesis
      unfolding pt_get_def frame by (intro rd64_cong) (simp add: t_def pv cell_def add.assoc)
  qed
  have used: "page_used t y = page_used s y" if "y < g_total_pages s" for y
  proof -
    have "bitmap_addr s y \<noteq> pt_virt s p + off"
      using table_page_apart [OF tp] that o by (force simp: page_apart_def)
    then show ?thesis by (simp add: page_used_def frame) (simp add: t_def pv)
  qed
  show free: "free_pages t = free_pages s"
  proof (rule set_eqI)
    fix k
    show "k \<in> free_pages t \<longleftrightarrow> k \<in> free_pages s"
    proof (cases "k < unat (g_total_pages s)")
      case True
      then obtain x where "k = unat x" "x < g_total_pages s" by (rule free_pages_unat)
      then show ?thesis by (simp add: mem_free_pages used frame)
    qed (auto simp: frame dest: free_pages_less)
  qed
  have same: "table_page t = table_page s" "page_apart t = page_apart s"
    by (simp_all add: fun_eq_iff table_page_def page_apart_def frame free)
  have ready: "vmm_ready t = vmm_ready s"
    by (simp add: vmm_ready_def pmm_inv_def frame free same)
  define G where "G q \<longleftrightarrow> table_page s q \<and> q \<noteq> p" for q
  have G: "tree (paths A) (pt_get s) G root"
    using s p unfolding space_ok_def tree_def G_def data_page_def by blast
  have agree: "pt_get t q i = pt_get s q i" if "G q" "unat i < 512" for q i
    using get that by (simp add: G_def)
  note at = table_at_agree [OF G agree]
  have "tree (paths A) (pt_get t) (table_page t) root"
    by (rule tree_cong [OF G at]) (simp_all add: G_def same)
  with s show "space_ok A t root" by (simp add: space_ok_def ready)
  show "x \<in> A \<Longrightarrow> translate t root x = translate s root x"
    unfolding translate_def by (rule leaf_at_agree [OF G agree path_in_va]) simp_all
  show "data_page A t root q = data_page A s root q"
    using at by (simp add: data_page_def same)
  show "upper_kept A root s t" by (rule upper_kept_agree(1) [OF G agree])
qed

section \<open>Filling a mapped page\<close>

lemma drop_page_offset:
  fixes P off :: u64
  assumes "aligned 12 P" "unat off < 4096" "12 \<le> n"
  shows "drop_bit n (P + off) = drop_bit n P"
proof -
  have "unat (P + off) div 2 ^ 12 = unat P div 2 ^ 12"
    using aligned_add_div [of 12 P off] assms(1,2) by simp
  then have "drop_bit 12 (P + off) = drop_bit 12 P"
    by (simp add: word_unat_eq_iff unat_drop_bit)
  then have "drop_bit (n - 12) (drop_bit 12 (P + off)) = drop_bit (n - 12) (drop_bit 12 P)" by simp
  with assms(3) show ?thesis by simp
qed

lemma page_offset:
  fixes P off :: u64
  assumes "aligned 12 P" "unat off < 4096"
  shows "(P + off) AND 0xfff = off"
proof -
  have m: "(0xfff :: u64) = mask 12" by (simp add: mask_eq_exp_minus_1)
  have "unat (P + off) = unat P + unat off"
    using aligned_add_unat [of 12 P off] assms by simp
  moreover have "unat P mod 2 ^ 12 = 0" using assms(1) by (simp add: aligned_unat)
  ultimately have "unat ((P + off) AND 0xfff) = unat off"
    unfolding m unat_and_mask using assms(2) by (simp add: mod_add_left_eq [symmetric] del: mod_add_left_eq)
  then show ?thesis by (simp only: word_unat_eq_iff)
qed

text \<open>A user page that is mapped to the data page \<open>p\<close>.\<close>

definition maps_to :: "'a pmm_state_scheme \<Rightarrow> u64 \<Rightarrow> u64 \<Rightarrow> bool" where
  "maps_to s P p \<longleftrightarrow> aligned 12 P \<and> drop_bit 47 P = 0 \<and>
     map_option page_frame (translate s (read_cr3 s AND NOT 0xfff) P) = Some p"

lemma access_page:
  assumes "maps_to s P p" "unat off < 4096"
  shows "access s (P + off) = Some (phys_to_virt s p + off)"
proof -
  have a: "aligned 12 P" and P: "drop_bit 47 P = 0" using assms(1) by (simp_all add: maps_to_def)
  note d = drop_page_offset [OF a assms(2)]
  have "same_page (P + off) P" using d [of 12] by (simp add: same_page_def)
  then have t: "translate s r (P + off) = translate s r P" for r
    by (simp add: translate_def same_page_iff)
  have z: "drop_bit 47 (P + off) = 0" using d [of 47] P by simp
  obtain e where e: "translate s (read_cr3 s AND NOT 0xfff) P = Some e" "page_frame e = p"
    using assms(1) by (auto simp: maps_to_def)
  show ?thesis
    unfolding access_def z t e(1) option.case e(2) page_offset [OF a assms(2)]
    by (simp add: phys_to_virt_def)
qed

lemma unat_of_nat_less: "n < 4096 \<Longrightarrow> unat (of_nat n :: u64) = n"
  by (rule unat_of_nat_u64) simp

text \<open>Memory with the bytes \<open>bs\<close> from \<open>base\<close> on.\<close>

definition overlay :: "(u64 \<Rightarrow> u8) \<Rightarrow> u64 \<Rightarrow> u8 list \<Rightarrow> (u64 \<Rightarrow> u8)" where
  "overlay m base bs = (\<lambda>a. if unat (a - base) < length bs then bs ! unat (a - base) else m a)"

lemma overlay_Nil: "overlay m base [] = m"
  by (simp add: overlay_def)

lemma overlay_Cons:
  assumes "length bs < 4096"
  shows "overlay (m(base := b)) (base + 1) bs = overlay m base (b # bs)"
proof
  fix a
  show "overlay (m(base := b)) (base + 1) bs a = overlay m base (b # bs) a"
  proof (cases "a = base")
    case True
    have "unat (- 1 :: u64) = 2 ^ 64 - 1" by (simp add: unsigned_minus_1_eq_mask mask_eq_exp_minus_1)
    with assms have "\<not> unat (- 1 :: u64) < length bs" by simp
    with True show ?thesis by (simp add: overlay_def)
  next
    case False
    have "a - base = (a - (base + 1)) + 1" by simp
    moreover have "a - (base + 1) \<noteq> - 1" using False by (simp add: algebra_simps)
    then have "a - (base + 1) < - 1" by (rule le_neq_trans [OF word_n1_ge])
    ultimately have "unat (a - base) = Suc (unat (a - (base + 1)))" using unat_Suc_less by metis
    then show ?thesis using False by (simp add: overlay_def)
  qed
qed

lemma overlay_at: "i < length bs \<Longrightarrow> i < 4096 \<Longrightarrow> overlay m base bs (base + of_nat i) = bs ! i"
  by (simp add: overlay_def unat_of_nat_less)

lemma overlay_other: "(\<And>i. i < length bs \<Longrightarrow> a \<noteq> base + of_nat i) \<Longrightarrow> overlay m base bs a = m a"
proof -
  assume other: "\<And>i. i < length bs \<Longrightarrow> a \<noteq> base + of_nat i"
  have "a = base + of_nat (unat (a - base))" by simp
  with other show ?thesis unfolding overlay_def by metis
qed

text \<open>
  Bytes stored through a user page that is mapped to a data page arrive in order, and nothing else
  changes.
\<close>

lemma store_bytes_page:
  assumes "space_ok A s (read_cr3 s AND NOT 0xfff)" "maps_to s P p"
    "data_page A s (read_cr3 s AND NOT 0xfff) p" "P \<in> A" and "k + length bs \<le> 4096"
  defines "t \<equiv> s\<lparr>mem := overlay (mem s) (phys_to_virt s p + of_nat k) bs\<rparr>"
  shows "store_bytes (P + of_nat k) bs s = Some t \<and> space_ok A t (read_cr3 s AND NOT 0xfff) \<and>
    (\<forall>x \<in> A. translate t (read_cr3 s AND NOT 0xfff) x = translate s (read_cr3 s AND NOT 0xfff) x) \<and>
    data_page A t (read_cr3 s AND NOT 0xfff) = data_page A s (read_cr3 s AND NOT 0xfff) \<and>
    upper_kept A (read_cr3 s AND NOT 0xfff) s t \<and> free_pages t = free_pages s"
  unfolding t_def using assms(1-5)
proof (induction bs arbitrary: s k)
  case (Cons b bs)
  let ?root = "read_cr3 s AND NOT 0xfff"
  let ?a = "phys_to_virt s p + of_nat k" and ?off = "of_nat k :: u64"
  define u where "u = s\<lparr>mem := (mem s)(?a := b)\<rparr>"
  have off: "unat ?off < 4096" using Cons.prems(5) by (simp add: unat_of_nat_less)
  note keep = store_keeps_space [OF Cons.prems(1,3) off, where b = b, folded u_def]
  have u: "read_cr3 u = read_cr3 s" "phys_to_virt u = phys_to_virt s" "mem u = (mem s)(?a := b)"
    by (simp_all add: u_def read_cr3_def phys_to_virt_def fun_eq_iff hhdm_offset_def)
  have store: "store_byte (P + of_nat k) b s = Some u"
    using access_page [OF Cons.prems(2) off] by (simp add: store_byte_def u_def)
  have m: "maps_to u P p" using Cons.prems(2) unfolding maps_to_def u keep(2) [OF Cons.prems(4)] .
  have eq: "P + of_nat (Suc k) = P + of_nat k + 1" "phys_to_virt s p + of_nat (Suc k) = ?a + 1" by simp_all
  have "length bs < 4096" using Cons.prems(5) by simp
  note ov = overlay_Cons [OF this, of "mem s" ?a b]
  have mem: "u\<lparr>mem := m\<rparr> = s\<lparr>mem := m\<rparr>" for m by (simp add: u_def)
  have dp: "data_page A u ?root = data_page A s ?root" by (rule ext) (rule keep(3))
  with Cons.prems(3) have "data_page A u ?root p" by simp
  from Cons.IH [of u "Suc k", unfolded u dp, OF keep(1) m this [unfolded dp] Cons.prems(4)] Cons.prems(5)
  show ?case unfolding eq ov mem store_bytes.simps store option.case
    using keep(2,4) upper_kept_trans [OF keep(5)] by auto
qed (simp add: overlay_Nil)

lemma store_bytes_append:
  "store_bytes va (xs @ ys) s = Option.bind (store_bytes va xs s) (store_bytes (va + of_nat (length xs)) ys)"
  by (induction xs arbitrary: va s) (simp_all add: add.assoc split: option.split)

text \<open>The bytes behind a user pointer.\<close>

definition holds_bytes :: "'a pmm_state_scheme \<Rightarrow> u64 \<Rightarrow> u8 list \<Rightarrow> bool" where
  "holds_bytes s va bs \<longleftrightarrow> (\<forall>i < length bs. load_byte s (va + of_nat i) = Some (bs ! i))"

text \<open>Bytes that user mode may execute.\<close>

definition holds_code :: "'a pmm_state_scheme \<Rightarrow> u64 \<Rightarrow> u8 list \<Rightarrow> bool" where
  "holds_code s va bs \<longleftrightarrow> (\<forall>i < length bs. user_fetch s (va + of_nat i) = Some (bs ! i))"

lemma holds_code_bytes: "holds_code s va bs \<Longrightarrow> holds_bytes s va bs"
  by (auto simp: holds_code_def holds_bytes_def user_fetch_def split: if_splits)

lemma holds_code_page:
  assumes "maps_to s P p" "user_page s (read_cr3 s AND NOT 0xfff) P" "length bs \<le> 4096" "holds_bytes s P bs"
  shows "holds_code s P bs"
  unfolding holds_code_def
proof (intro allI impI)
  fix i
  assume i: "i < length bs"
  then have off: "unat (of_nat i :: u64) < 4096" using assms(3) by (simp add: unat_of_nat_less)
  have P: "aligned 12 P" "drop_bit 47 P = 0" using assms(1) by (simp_all add: maps_to_def)
  note d = drop_page_offset [OF P(1) off]
  have "same_page (P + of_nat i) P" using d [of 12] by (simp add: same_page_def)
  with assms(2) have "user_page s (read_cr3 s AND NOT 0xfff) (P + of_nat i)" by (simp add: user_page_same)
  moreover have "drop_bit 47 (P + of_nat i) = 0" using d [of 47] P by simp
  ultimately show "user_fetch s (P + of_nat i) = Some (bs ! i)"
    using assms(4) i by (simp add: user_fetch_def holds_bytes_def)
qed

lemma holds_bytes_page:
  assumes "maps_to s P p" "length bs \<le> 4096" "\<And>i. i < length bs \<Longrightarrow> mem s (phys_to_virt s p + of_nat i) = bs ! i"
  shows "holds_bytes s P bs"
  using assms access_page [OF assms(1)] by (simp add: holds_bytes_def load_byte_def unat_of_nat_less)

end
