(* ===== verification/Mmio.thy ===== *)
theory Mmio
  imports User_Access
begin

text \<open>
  Device memory, \<open>kernel/mm/mmio.c\<close>: mapping a physical range into the direct map with caching
  disabled, and unmapping it. \<open>None\<close> would be a loop that never ends; the loops are shown to
  end.
\<close>

section \<open>Model\<close>

datatype mmio_cache = MMIO_CACHE_UC | MMIO_CACHE_WC | MMIO_CACHE_WT | MMIO_CACHE_WB

record mmio_opts =
  opt_cache :: mmio_cache
  opt_global :: u32
  opt_writable :: u32
  opt_nx :: u32

definition PTE_G :: u64 where "PTE_G = push_bit 8 1"

definition PAGE_MASK :: u64 where
  "PAGE_MASK = PAGE_SIZE - 1"

definition mmio_align_down :: "u64 \<Rightarrow> u64" where
  "mmio_align_down x = x AND NOT PAGE_MASK"

definition mmio_align_up :: "u64 \<Rightarrow> u64" where
  "mmio_align_up x = (x + PAGE_MASK) AND NOT PAGE_MASK"

definition mmio_default_opts :: mmio_opts where
  "mmio_default_opts = \<lparr>opt_cache = MMIO_CACHE_UC, opt_global = 1, opt_writable = 1, opt_nx = 0\<rparr>"

definition mmio_flags :: "mmio_opts \<Rightarrow> u64" where
  "mmio_flags opts =
     PTE_P OR (if opt_writable opts \<noteq> 0 then PTE_W else 0)
       OR (if opt_global opts \<noteq> 0 then PTE_G else 0)
       OR (PTE_PCD OR PTE_PWT)"

text \<open>The loop returns whether it ran to the end.\<close>

partial_function (option) mmio_map_loop ::
    "u64 \<Rightarrow> u64 \<Rightarrow> u64 \<Rightarrow> u64 \<Rightarrow> 'a pmm_state_scheme \<Rightarrow> (bool \<times> 'a pmm_state_scheme) option" where
  "mmio_map_loop p v p1 flags s =
     (if p < p1 then
        (let (rc, s) = vmm_map_page_mmio v p flags s
         in if rc \<noteq> 0 then Some (False, s)
            else mmio_map_loop (p + PAGE_SIZE) (v + PAGE_SIZE) p1 flags s)
      else Some (True, s))"

definition mmio_map ::
    "u64 \<Rightarrow> u64 \<Rightarrow> mmio_opts option \<Rightarrow> 'a pmm_state_scheme \<Rightarrow> (u64 \<times> 'a pmm_state_scheme) option" where
  "mmio_map phys len opts s =
     (if len = 0 then Some (0, s)
      else
        (let opts = (case opts of None \<Rightarrow> mmio_default_opts | Some o1 \<Rightarrow> o1);
             p0 = mmio_align_down phys;
             p1 = mmio_align_up (phys + len);
             v0 = p0 + bi_hhdm_offset (g_boot_info s)
         in do {
           (done, s) \<leftarrow> mmio_map_loop p0 v0 p1 (mmio_flags opts) s;
           Some (if done then v0 + (phys - p0) else 0, s)
         }))"

definition mmio_map_page :: "u64 \<Rightarrow> 'a pmm_state_scheme \<Rightarrow> (u64 \<times> 'a pmm_state_scheme) option" where
  "mmio_map_page phys s = mmio_map phys 0x1000 None s"

partial_function (option) mmio_unmap_loop ::
    "u64 \<Rightarrow> u64 \<Rightarrow> 'a pmm_state_scheme \<Rightarrow> 'a pmm_state_scheme option" where
  "mmio_unmap_loop v v1 s =
     (if v < v1 then mmio_unmap_loop (v + PAGE_SIZE) v1 (snd (vmm_unmap_page v s)) else Some s)"

definition mmio_unmap :: "u64 \<Rightarrow> u64 \<Rightarrow> 'a pmm_state_scheme \<Rightarrow> 'a pmm_state_scheme option" where
  "mmio_unmap virt len s =
     (if len = 0 then Some s
      else mmio_unmap_loop (mmio_align_down virt) (mmio_align_up (virt + len)) s)"

section \<open>What the memory managers leave alone\<close>

text \<open>Everything but memory, the trace and the bookkeeping of the physical memory manager.\<close>

definition beyond_memory where
  "beyond_memory s = (cr3 s, msrs s, limine_requests s, g_boot_info s, pmm_state.more s, g_hhdm s)"

lemma beyond_memoryD:
  assumes "beyond_memory t = beyond_memory s"
  shows "cr3 t = cr3 s" "msrs t = msrs s" "limine_requests t = limine_requests s"
    "g_boot_info t = g_boot_info s" "pmm_state.more t = pmm_state.more s" "g_hhdm t = g_hhdm s"
  using assms by (simp_all add: beyond_memory_def)

lemma beyond_memory_frame [frame_simps]:
  "beyond_memory (pt_set p i v s) = beyond_memory s"
  "beyond_memory (bitmap_set r s) = beyond_memory s"
  "beyond_memory (bitmap_clear r s) = beyond_memory s"
  "beyond_memory (s\<lparr>g_free_bytes := b\<rparr>) = beyond_memory s"
  "beyond_memory (emit e s) = beyond_memory s"
  "beyond_memory (invlpg_local va s) = beyond_memory s"
  by (simp_all add: beyond_memory_def pt_set_def bitmap_set_def bitmap_clear_def Let_def
      invlpg_local_def emit_def)

lemma beyond_alloc_pages [frame_simps]:
  "beyond_memory (snd (pmm_alloc_pages n s)) = beyond_memory s"
  unfolding pmm_alloc_pages_eq claim_run_def Let_def
  by (auto split: prod.splits if_splits option.splits simp: for_u64_frame frame_simps)

lemma beyond_alloc_pt [frame_simps]:
  "beyond_memory (snd (alloc_pt_page_phys s)) = beyond_memory s"
  by (simp add: alloc_pt_page_phys_def Let_def case_prod_beta for_u64_frame frame_simps)

lemma beyond_ensure_level [frame_simps]:
  "beyond_memory (snd (ensure_level q i flags s)) = beyond_memory s"
  by (simp add: ensure_level_def Let_def case_prod_beta frame_simps)

lemma beyond_ensure_pt [frame_simps]:
  "beyond_memory (snd (ensure_pt root va flags s)) = beyond_memory s"
proof -
  obtain r1 s1 where 1: "ensure_level root (ucast (idx_pml4 va)) flags s = (r1, s1)" by force
  obtain r2 s2 where 2: "ensure_level (the r1) (ucast (idx_pdpt va)) flags s1 = (r2, s2)" by force
  obtain r3 s3 where 3: "ensure_level (the r2) (ucast (idx_pd va)) flags s2 = (r3, s3)" by force
  from beyond_ensure_level [of root "ucast (idx_pml4 va)" flags s] 1
    beyond_ensure_level [of "the r1" "ucast (idx_pdpt va)" flags s1] 2
    beyond_ensure_level [of "the r2" "ucast (idx_pd va)" flags s2] 3
  show ?thesis by (auto simp: ensure_pt_def split: option.split)
qed

lemma beyond_map_page_cr3 [frame_simps]:
  "beyond_memory (snd (vmm_map_page_cr3 root v p flags s)) = beyond_memory s"
  by (simp add: vmm_map_page_cr3_def Let_def case_prod_beta write_leaf_eq frame_simps)

lemma beyond_map_page_mmio [frame_simps]:
  "beyond_memory (snd (vmm_map_page_mmio v p flags s)) = beyond_memory s"
  by (simp add: vmm_map_page_mmio_def Let_def case_prod_beta write_leaf_eq frame_simps)

lemma beyond_map_page [frame_simps]:
  "beyond_memory (snd (vmm_map_page v p flags s)) = beyond_memory s"
  by (simp add: vmm_map_page_def frame_simps)

lemma beyond_unmap_page [frame_simps]:
  "beyond_memory (snd (vmm_unmap_page v s)) = beyond_memory s"
  by (auto simp: vmm_unmap_page_def Let_def unmap_cases frame_simps split: option.split)

lemma beyond_mmio_map_loop:
  "mmio_map_loop p v p1 flags s = Some y \<Longrightarrow> beyond_memory (snd y) = beyond_memory s"
proof (erule mmio_map_loop.raw_induct [rotated, where P = "\<lambda>p v p1 flags s y. beyond_memory (snd y) = beyond_memory s"])
  fix loop :: "u64 \<Rightarrow> u64 \<Rightarrow> u64 \<Rightarrow> u64 \<Rightarrow> 'a pmm_state_scheme \<Rightarrow> (bool \<times> 'a pmm_state_scheme) option"
    and p v p1 flags s y
  assume IH: "\<And>p v p1 flags s y. loop p v p1 flags s = Some y \<Longrightarrow> beyond_memory (snd y) = beyond_memory s"
    and "(if p < p1 then (let (rc, s) = vmm_map_page_mmio v p flags s
         in if rc \<noteq> 0 then Some (False, s) else loop (p + PAGE_SIZE) (v + PAGE_SIZE) p1 flags s)
       else Some (True, s)) = Some y"
  then show "beyond_memory (snd y) = beyond_memory s"
    by (auto simp: case_prod_beta frame_simps split: if_splits dest: IH)
qed

lemma beyond_mmio_map: "mmio_map phys len opts s = Some (r, t) \<Longrightarrow> beyond_memory t = beyond_memory s"
  by (auto simp: mmio_map_def Let_def bind_eq_Some_conv dest!: beyond_mmio_map_loop split: if_splits)

section \<open>Ranges of pages\<close>

text \<open>\<open>nth_page v k\<close>: the address \<open>k\<close> pages after \<open>v\<close>.\<close>

definition nth_page :: "u64 \<Rightarrow> nat \<Rightarrow> u64" where
  "nth_page v k = v + of_nat k * PAGE_SIZE"

lemma nth_page_0 [simp]: "nth_page v 0 = v"
  by (simp add: nth_page_def)

lemma nth_page_Suc: "nth_page v (Suc k) = nth_page (v + PAGE_SIZE) k"
  by (simp add: nth_page_def algebra_simps)

lemma same_page_unat:
  "same_page a b \<longleftrightarrow> unat a div 4096 mod 2 ^ 36 = unat b div 4096 mod 2 ^ 36"
proof -
  have "unat (take_bit 36 (drop_bit 12 x)) = unat x div 4096 mod 2 ^ 36" for x :: u64
    by (simp only: take_bit_eq_mask unat_and_mask unat_drop_bit) simp
  then show ?thesis unfolding same_page_def by (metis word_unat_eq_iff)
qed

lemma unat_nth_page:
  "unat (nth_page v k) mod 2 ^ 64 = (unat v + 4096 * k) mod 2 ^ 64"
proof -
  have eq: "nth_page v k = of_nat (unat v + 4096 * k)"
    by (simp add: nth_page_def PAGE_SIZE_def algebra_simps)
  show ?thesis unfolding eq unat_of_nat by (simp add: take_bit_eq_mod)
qed

lemma nth_page_div: "unat (nth_page v k) div 4096 mod 2 ^ 36 = (unat v div 4096 + k) mod 2 ^ 36"
proof -
  have "unat (nth_page v k) = (unat v + 4096 * k) mod 2 ^ 64"
    using unat_nth_page [of v k] unat_less_u64 [of "nth_page v k"] by simp
  moreover have "(2 :: nat) ^ 64 = 4096 * 2 ^ 52" by simp
  ultimately have "unat (nth_page v k) div 4096 = (unat v + 4096 * k) div 4096 mod 2 ^ 52"
    using mod_mult2_eq [of "unat v + 4096 * k" 4096 "2 ^ 52"] by simp
  also have "(unat v + 4096 * k) div 4096 = unat v div 4096 + k" by simp
  finally show ?thesis by (simp add: mod_mod_cancel le_imp_power_dvd)
qed

lemma add_mod_inj:
  fixes a j k m :: nat
  assumes "(a + j) mod m = (a + k) mod m" "j < m" "k < m"
  shows "j = k"
proof (rule ccontr)
  have less: False if "(a + j) mod m = (a + k) mod m" "j < k" "k < m" for j k
  proof -
    have "m dvd (a + k) - (a + j)"
      using that mod_eq_dvd_iff_nat [of "a + j" "a + k" m] by simp
    with that show False using nat_dvd_not_less [of "k - j" m] by simp
  qed
  assume "j \<noteq> k"
  then consider "j < k" | "k < j" by linarith
  then show False using assms less [of j k] less [of k j] by cases simp_all
qed

lemma same_page_nth:
  "same_page (nth_page v j) (nth_page v k) \<Longrightarrow> j < 2 ^ 36 \<Longrightarrow> k < 2 ^ 36 \<Longrightarrow> j = k"
  unfolding same_page_unat nth_page_div by (rule add_mod_inj)

lemma page_step:
  assumes "aligned 12 p" "aligned 12 e" "p < e"
  shows "unat (p + PAGE_SIZE) = unat p + 4096" "aligned 12 (p + PAGE_SIZE)"
    "unat p + 4096 \<le> unat e"
proof -
  show le: "unat p + 4096 \<le> unat e"
    using assms by (auto simp: aligned_12 word_less_nat_alt mod_eq_0_iff_dvd elim!: dvdE)
  then show step: "unat (p + PAGE_SIZE) = unat p + 4096"
    using unat_less_u64 [of e] by (subst unat_add_no_wrap) simp_all
  then show "aligned 12 (p + PAGE_SIZE)" using assms(1) by (simp add: aligned_12)
qed

text \<open>How many pages a loop from \<open>p\<close> to \<open>e\<close> visits.\<close>

definition page_count :: "u64 \<Rightarrow> u64 \<Rightarrow> nat" where
  "page_count p e = (unat e - unat p) div 4096"

lemma page_count_step:
  assumes "aligned 12 p" "aligned 12 e" "p < e"
  shows "page_count p e = Suc (page_count (p + PAGE_SIZE) e)"
proof -
  have eq: "unat e - unat p = 4096 + (unat e - (unat p + 4096))"
    using page_step(3) [OF assms] by simp
  show ?thesis unfolding page_count_def page_step(1) [OF assms] by (subst eq) simp
qed

lemma page_count_0: "\<not> p < e \<Longrightarrow> page_count p e = 0"
  by (simp add: page_count_def word_less_nat_alt)

lemma vmm_align_same: "aligned 12 p \<Longrightarrow> vmm_align_down p = p"
proof -
  assume "aligned 12 p"
  moreover have m: "PAGE_SIZE - 1 = mask 12" by (simp add: PAGE_SIZE_def mask_eq_exp_minus_1)
  ultimately have "unat (vmm_align_down p) = unat p"
    unfolding vmm_align_down_def m unat_and_not_mask by (auto simp: aligned_12 mod_eq_0_iff_dvd)
  then show ?thesis by (simp add: word_unat_eq_iff)
qed

lemma leaf_value_align: "leaf_value (vmm_align_down p) f = leaf_value p f"
proof -
  have m: "PAGE_SIZE - 1 = mask 12" "(0xfff :: u64) = mask 12"
    by (simp_all add: PAGE_SIZE_def mask_eq_exp_minus_1)
  show ?thesis unfolding leaf_value_def vmm_align_down_def m by (simp add: and.assoc)
qed

section \<open>The loops\<close>

abbreviation current_root :: "'a pmm_state_scheme \<Rightarrow> u64" where
  "current_root s \<equiv> read_cr3 s AND NOT 0xfff"

text \<open>One page is mapped when there is memory for the tables of its path.\<close>

lemma map_page_mmio_succeeds:
  assumes "space_ok A s (current_root s)" "virt \<in> A" "3 \<le> card (free_pages s)" "0 \<notin> free_pages s"
  shows "fst (vmm_map_page_mmio virt phys flags s) = 0"
proof -
  obtain p u where e: "ensure_pt (current_root s) (vmm_align_down virt) flags s = (p, u)" by force
  from assms(1) have "vmm_ready s" "tree (paths A) (pt_get s) (table_page s) (current_root s)"
    by (simp_all add: space_ok_def)
  from map_common [OF this e refl va_in_paths [OF assms(2)], of 0] assms(3,4) have "p \<noteq> 0" by blast
  with e show ?thesis by (simp add: vmm_map_page_mmio_def Let_def)
qed

text \<open>
  The mapping loop from \<open>p\<close>: the first \<open>k\<close> pages are mapped, all of them when it succeeds, and
  no page outside the range changes. It takes three free pages for a page at most, and succeeds when
  there are as many.
\<close>

lemma mmio_map_loop_spec:
  assumes "space_ok A s root" "current_root s = root" "aligned 12 p" "aligned 12 p1"
    "page_count p p1 \<le> 2 ^ 36" "\<And>j. j < page_count p p1 \<Longrightarrow> nth_page v j \<in> A"
  shows "\<exists>ok t k. mmio_map_loop p v p1 flags s = Some (ok, t) \<and> space_ok A t root \<and>
    current_root t = root \<and> k \<le> page_count p p1 \<and> (ok \<longrightarrow> k = page_count p p1) \<and>
    (\<forall>j < k. translate t root (nth_page v j) = Some (leaf_value (nth_page p j) flags)) \<and>
    (\<forall>x \<in> A. (\<forall>j < k. \<not> same_page x (nth_page v j)) \<longrightarrow> translate t root x = translate s root x) \<and>
    keeps_data A root s t \<and> free_pages t \<subseteq> free_pages s \<and>
    card (free_pages s) \<le> 3 * page_count p p1 + card (free_pages t) \<and>
    (3 * page_count p p1 \<le> card (free_pages s) \<and> 0 \<notin> free_pages s \<longrightarrow> ok)"
  using assms
proof (induction "page_count p p1" arbitrary: p v s)
  case 0
  then have "\<not> p < p1" using page_count_step by force
  then have "mmio_map_loop p v p1 flags s = Some (True, s)"
    by (simp add: mmio_map_loop.simps [of p v p1 flags s])
  with 0 show ?case by (intro exI [of _ True] exI [of _ s] exI [of _ 0]) simp
next
  case (Suc n)
  then have lt: "p < p1" using page_count_0 by force
  note step = page_step [OF Suc.prems(3,4) lt]
  have n: "page_count (p + PAGE_SIZE) p1 = n"
    using page_count_step [OF Suc.prems(3,4) lt] Suc.hyps(2) by simp
  obtain rc u where m: "vmm_map_page_mmio v p flags s = (rc, u)" by force
  have root: "current_root u = root" and s: "space_ok A s (current_root s)"
    using beyond_memoryD(1) [OF beyond_map_page_mmio, of v p flags s] m Suc.prems(1,2)
    by (simp_all add: read_cr3_def)
  have v: "v \<in> A" using Suc.prems(6) [of 0] Suc.hyps(2) by simp
  have keep: "keeps_data A root s u"
    using map_mmio_keeps_data [OF s v m] grows_upper_kept [OF map_mmio_grows [OF s v m]]
    unfolding Suc.prems(2) keeps_data_def by blast
  from map_page_mmio_spec [OF s v m] have u: "space_ok A u root" "rc = 0 \<or> rc = -1"
    "\<And>x. x \<in> A \<Longrightarrow> translate u root x = (if rc = 0 \<and> same_page x v then Some (leaf_value p flags)
      else translate s root x)"
    unfolding Suc.prems(2) leaf_value_align by auto
  note free = map_mmio_keeps_data(3,4) [OF s v m]
  have ok: "rc = 0" if "3 * page_count p p1 \<le> card (free_pages s)" "0 \<notin> free_pages s"
    using map_page_mmio_succeeds [OF s v _ that(2), of p flags] that(1) m Suc.hyps(2) by simp
  show ?case
  proof (cases "rc = 0")
    case False
    then have "mmio_map_loop p v p1 flags s = Some (False, u)"
      using lt m by (simp add: mmio_map_loop.simps [of p v p1 flags s])
    with u root keep False free ok Suc.hyps(2) show ?thesis
      by (intro exI [of _ False] exI [of _ u] exI [of _ 0]) auto
  next
    case True
    have A: "nth_page (v + PAGE_SIZE) j \<in> A" if "j < n" for j
      using Suc.prems(6) [of "Suc j"] Suc.hyps(2) that by (simp add: nth_page_Suc)
    from Suc.hyps(1) [OF n [symmetric] u(1) root step(2) Suc.prems(4), unfolded n, OF _ A] Suc.prems(5) Suc.hyps(2)
    obtain ok t k where t: "mmio_map_loop (p + PAGE_SIZE) (v + PAGE_SIZE) p1 flags u = Some (ok, t)"
      "space_ok A t root" "current_root t = root" "k \<le> n" "ok \<longrightarrow> k = n"
      "\<And>j. j < k \<Longrightarrow> translate t root (nth_page (v + PAGE_SIZE) j) =
        Some (leaf_value (nth_page (p + PAGE_SIZE) j) flags)"
      "\<And>x. x \<in> A \<Longrightarrow> (\<forall>j < k. \<not> same_page x (nth_page (v + PAGE_SIZE) j)) \<Longrightarrow>
        translate t root x = translate u root x" "keeps_data A root u t" "free_pages t \<subseteq> free_pages u"
      "card (free_pages u) \<le> 3 * n + card (free_pages t)"
      "3 * n \<le> card (free_pages u) \<Longrightarrow> 0 \<notin> free_pages u \<Longrightarrow> ok"
      by (metis Suc_leD)
    have "mmio_map_loop p v p1 flags s = Some (ok, t)"
      using lt m True t(1) by (simp add: mmio_map_loop.simps [of p v p1 flags s])
    moreover have "translate t root (nth_page v j) = Some (leaf_value (nth_page p j) flags)"
      if "j < Suc k" for j
    proof (cases j)
      case 0
      have "\<not> same_page v (nth_page (v + PAGE_SIZE) i)" if "i < k" for i
        using same_page_nth [of v 0 "Suc i"] that t(4) Suc.prems(5) Suc.hyps(2)
        by (auto simp: nth_page_Suc)
      then have "translate t root v = translate u root v" by (intro t(7) [OF v]) blast
      with 0 u(3) [OF v] True show ?thesis by (simp add: same_page_def)
    next
      case (Suc i)
      then show ?thesis using t(6) [of i] that by (simp add: nth_page_Suc)
    qed
    moreover have "translate t root x = translate s root x"
      if "x \<in> A" "\<forall>j < Suc k. \<not> same_page x (nth_page v j)" for x
    proof -
      have "\<not> same_page x (nth_page v 0)" using that by blast
      moreover have "\<forall>j < k. \<not> same_page x (nth_page (v + PAGE_SIZE) j)"
        using that unfolding nth_page_Suc [symmetric] by auto
      ultimately show ?thesis using t(7) u(3) that(1) by simp
    qed
    moreover have "free_pages t \<subseteq> free_pages s" using t(9) free(2) by simp
    moreover have "card (free_pages s) \<le> 3 * page_count p p1 + card (free_pages t)"
      using t(10) free(1) Suc.hyps(2) by simp
    moreover have "ok" if "3 * page_count p p1 \<le> card (free_pages s)" "0 \<notin> free_pages s"
      using t(11) that free Suc.hyps(2) by auto
    ultimately show ?thesis
      using t(2-5) Suc.hyps(2) keeps_data_trans [OF keep t(8)]
      by (intro exI [of _ ok] exI [of _ t] exI [of _ "Suc k"]) simp
  qed
qed

text \<open>The unmapping loop.\<close>

lemma mmio_unmap_loop_spec:
  assumes "space_ok A s root" "current_root s = root" "aligned 12 v" "aligned 12 v1"
    "\<And>j. j < page_count v v1 \<Longrightarrow> nth_page v j \<in> A"
  shows "\<exists>t. mmio_unmap_loop v v1 s = Some t \<and> space_ok A t root \<and> current_root t = root \<and>
    (\<forall>x \<in> A. translate t root x =
      (if \<exists>j < page_count v v1. same_page x (nth_page v j) then None else translate s root x))"
  using assms
proof (induction "page_count v v1" arbitrary: v s)
  case 0
  then have "\<not> v < v1" using page_count_step by force
  then have "mmio_unmap_loop v v1 s = Some s" by (simp add: mmio_unmap_loop.simps [of v v1 s])
  with 0 show ?case by simp
next
  case (Suc n)
  then have lt: "v < v1" using page_count_0 by force
  note step = page_step [OF Suc.prems(3,4) lt]
  have n: "page_count (v + PAGE_SIZE) v1 = n"
    using page_count_step [OF Suc.prems(3,4) lt] Suc.hyps(2) by simp
  obtain rc u where m: "vmm_unmap_page_cr3 root v s = (rc, u)" by force
  have mu: "vmm_unmap_page v s = (rc, u)" using m Suc.prems(2) by (simp add: vmm_unmap_page_def)
  have root: "current_root u = root"
    using beyond_memoryD(1) [OF beyond_unmap_page, of v s] mu Suc.prems(2) by (simp add: read_cr3_def)
  have v: "v \<in> A" using Suc.prems(5) [of 0] Suc.hyps(2) by simp
  have A: "nth_page (v + PAGE_SIZE) j \<in> A" if "j < n" for j
    using Suc.prems(5) [of "Suc j"] Suc.hyps(2) that by (simp add: nth_page_Suc)
  note u = unmap_page_spec [OF Suc.prems(1) v m]
  from Suc.hyps(1) [OF n [symmetric] _ root step(2) Suc.prems(4), unfolded n, OF _ A] u obtain t where t:
    "mmio_unmap_loop (v + PAGE_SIZE) v1 u = Some t" "space_ok A t root" "current_root t = root"
    "\<And>x. x \<in> A \<Longrightarrow> translate t root x =
      (if \<exists>j < n. same_page x (nth_page (v + PAGE_SIZE) j) then None else translate u root x)"
    by auto
  have "mmio_unmap_loop v v1 s = Some t"
    using lt mu t(1) by (simp add: mmio_unmap_loop.simps [of v v1 s])
  moreover have "translate t root x =
      (if \<exists>j < Suc n. same_page x (nth_page v j) then None else translate s root x)" if "x \<in> A" for x
  proof -
    have "(\<exists>j < Suc n. same_page x (nth_page v j)) \<longleftrightarrow>
        same_page x v \<or> (\<exists>j < n. same_page x (nth_page (v + PAGE_SIZE) j))"
      unfolding nth_page_Suc [symmetric] Ex_less_Suc2 by simp
    then show ?thesis using t(4) u that by auto
  qed
  ultimately show ?case using t(2,3) Suc.hyps(2) by auto
qed

section \<open>Mapping device memory\<close>

lemma mmio_align_eq:
  "mmio_align_down x = align_down x PAGE_SIZE" "mmio_align_up x = align_up x PAGE_SIZE"
  by (simp_all add: mmio_align_down_def mmio_align_up_def align_down_def align_up_def PAGE_MASK_def
      add_diff_eq)

text \<open>How many pages hold a byte of the range.\<close>

definition range_pages :: "u64 \<Rightarrow> u64 \<Rightarrow> nat" where
  "range_pages base len = (unat base + unat len + 4095) div 4096 - unat base div 4096"

lemma mmio_range:
  assumes "unat phys + unat len + 4095 < 2 ^ 64" "unat len + 8191 < 2 ^ 48"
  shows "page_count (mmio_align_down phys) (mmio_align_up (phys + len)) = range_pages phys len"
    "page_count (mmio_align_down phys) (mmio_align_up (phys + len)) \<le> 2 ^ 36"
    "j < page_count (mmio_align_down phys) (mmio_align_up (phys + len)) \<longleftrightarrow>
      page_in (unat phys div 4096 + j) (unat phys) (unat phys + unat len)"
proof -
  have sum: "unat (phys + len) = unat phys + unat len"
    using assms(1) by (intro unat_add_no_wrap) simp
  have down: "unat (mmio_align_down phys) = unat phys div 4096 * 4096"
    by (simp add: mmio_align_eq align_down_unat)
  have up: "unat (mmio_align_up (phys + len)) = (unat phys + unat len + 4095) div 4096 * 4096"
    using assms(1) unfolding mmio_align_eq by (subst align_up_unat) (simp_all add: sum)
  have count: "page_count (mmio_align_down phys) (mmio_align_up (phys + len)) =
      (unat phys + unat len + 4095) div 4096 - unat phys div 4096"
    unfolding page_count_def down up by (simp flip: diff_mult_distrib)
  then show "page_count (mmio_align_down phys) (mmio_align_up (phys + len)) = range_pages phys len"
    by (simp add: range_pages_def)
  have "(unat phys + unat len + 4095) div 4096 \<le> unat phys div 4096 + (unat len + 8191) div 4096"
    by linarith
  moreover have "(unat len + 8191) div 4096 \<le> 2 ^ 36"
    using div_le_mono [of "unat len + 8191" "2 ^ 48" 4096] assms(2) by simp
  ultimately show "page_count (mmio_align_down phys) (mmio_align_up (phys + len)) \<le> 2 ^ 36"
    unfolding count by linarith
  show "j < page_count (mmio_align_down phys) (mmio_align_up (phys + len)) \<longleftrightarrow>
      page_in (unat phys div 4096 + j) (unat phys) (unat phys + unat len)"
    unfolding count page_in_ceil by linarith
qed

lemma mmio_map_spec:
  assumes "space_ok A s root" "current_root s = root" "0 < len"
    and "unat phys + unat len + 4095 < 2 ^ 64" "unat len + 8191 < 2 ^ 48"
    and v0: "v0 = mmio_align_down phys + bi_hhdm_offset (g_boot_info s)"
    and opts: "opts = (case o1 of None \<Rightarrow> mmio_default_opts | Some o1 \<Rightarrow> o1)"
    and A: "\<And>j. page_in (unat phys div 4096 + j) (unat phys) (unat phys + unat len) \<Longrightarrow> nth_page v0 j \<in> A"
  shows "\<exists>ok t. mmio_map phys len o1 s = Some (if ok then phys + bi_hhdm_offset (g_boot_info s) else 0, t) \<and>
    space_ok A t root \<and>
    (ok \<longrightarrow> (\<forall>j. page_in (unat phys div 4096 + j) (unat phys) (unat phys + unat len) \<longrightarrow>
        translate t root (nth_page v0 j) =
          Some (leaf_value (nth_page (mmio_align_down phys) j) (mmio_flags opts)))) \<and>
    (3 * range_pages phys len \<le> card (free_pages s) \<and> 0 \<notin> free_pages s \<longrightarrow> ok) \<and>
    (\<forall>x \<in> A. (\<forall>j. page_in (unat phys div 4096 + j) (unat phys) (unat phys + unat len) \<longrightarrow>
        \<not> same_page x (nth_page v0 j)) \<longrightarrow> translate t root x = translate s root x) \<and> keeps_data A root s t \<and>
    free_pages t \<subseteq> free_pages s \<and> card (free_pages s) \<le> 3 * range_pages phys len + card (free_pages t)"
proof -
  have al: "aligned 12 (mmio_align_down phys)" "aligned 12 (mmio_align_up (phys + len))"
    by (simp_all add: mmio_align_eq aligned_align)
  note range = mmio_range [OF assms(4,5)]
  have A': "\<And>j. j < page_count (mmio_align_down phys) (mmio_align_up (phys + len)) \<Longrightarrow> nth_page v0 j \<in> A"
    using A unfolding range(3) by blast
  from mmio_map_loop_spec [OF assms(1,2) al range(2) A', where flags = "mmio_flags opts"]
  obtain ok t k where t:
    "mmio_map_loop (mmio_align_down phys) v0 (mmio_align_up (phys + len)) (mmio_flags opts) s = Some (ok, t)"
    "space_ok A t root" "k \<le> page_count (mmio_align_down phys) (mmio_align_up (phys + len))"
    "ok \<Longrightarrow> k = page_count (mmio_align_down phys) (mmio_align_up (phys + len))"
    "\<And>j. j < k \<Longrightarrow> translate t root (nth_page v0 j) =
      Some (leaf_value (nth_page (mmio_align_down phys) j) (mmio_flags opts))"
    "\<And>x. x \<in> A \<Longrightarrow> (\<forall>j < k. \<not> same_page x (nth_page v0 j)) \<Longrightarrow> translate t root x = translate s root x"
    "keeps_data A root s t" "free_pages t \<subseteq> free_pages s"
    "card (free_pages s) \<le> 3 * range_pages phys len + card (free_pages t)"
    "3 * range_pages phys len \<le> card (free_pages s) \<Longrightarrow> 0 \<notin> free_pages s \<Longrightarrow> ok"
    unfolding range(1) [symmetric] by blast
  have "v0 + (phys - mmio_align_down phys) = phys + bi_hhdm_offset (g_boot_info s)"
    by (simp add: v0)
  then have "mmio_map phys len o1 s = Some (if ok then phys + bi_hhdm_offset (g_boot_info s) else 0, t)"
    using assms(3) t(1) by (auto simp: mmio_map_def Let_def v0 opts)
  moreover have "translate t root x = translate s root x"
    if "x \<in> A" "\<forall>j. page_in (unat phys div 4096 + j) (unat phys) (unat phys + unat len) \<longrightarrow>
        \<not> same_page x (nth_page v0 j)" for x
    by (rule t(6)) (use that t(3) range(3) less_le_trans in blast)+
  moreover have "translate t root (nth_page v0 j) =
      Some (leaf_value (nth_page (mmio_align_down phys) j) (mmio_flags opts))"
    if "ok" "page_in (unat phys div 4096 + j) (unat phys) (unat phys + unat len)" for j
    using t(4,5) that range(3) by simp
  ultimately show ?thesis
    using t(2,7-10) by (intro exI [of _ ok] exI [of _ t]) blast
qed

text \<open>
  C29: \<open>mmio_map\<close> returns for every range that is not empty and does not wrap around. With three free pages
  for every page of the range, none of them page 0, it succeeds: it returns
  the address of \<open>phys\<close> in the direct map, and every page that holds a byte of the range is mapped
  uncached there. With less it may fail and return 0; either way no page of \<open>A\<close> outside the range changes.
\<close>

theorem mmio_map_maps_range:
  assumes "space_ok A s root" "current_root s = root" "0 < len"
    and "unat phys + unat len + 4095 < 2 ^ 64" "unat len + 8191 < 2 ^ 48"
    and v0: "v0 = mmio_align_down phys + bi_hhdm_offset (g_boot_info s)"
    and opts: "opts = (case o1 of None \<Rightarrow> mmio_default_opts | Some o1 \<Rightarrow> o1)"
    and A: "\<And>j. page_in (unat phys div 4096 + j) (unat phys) (unat phys + unat len) \<Longrightarrow> nth_page v0 j \<in> A"
  shows "\<exists>ok t. mmio_map phys len o1 s = Some (if ok then phys + bi_hhdm_offset (g_boot_info s) else 0, t) \<and>
    space_ok A t root \<and>
    (ok \<longrightarrow> (\<forall>j. page_in (unat phys div 4096 + j) (unat phys) (unat phys + unat len) \<longrightarrow>
        translate t root (nth_page v0 j) =
          Some (leaf_value (nth_page (mmio_align_down phys) j) (mmio_flags opts)))) \<and>
    (3 * range_pages phys len \<le> card (free_pages s) \<and> 0 \<notin> free_pages s \<longrightarrow> ok) \<and>
    (\<forall>x \<in> A. (\<forall>j. page_in (unat phys div 4096 + j) (unat phys) (unat phys + unat len) \<longrightarrow>
        \<not> same_page x (nth_page v0 j)) \<longrightarrow> translate t root x = translate s root x)"
  using mmio_map_spec [OF assms] by blast

text \<open>
  C30: \<open>mmio_unmap\<close> always returns, unmaps every page that holds a byte of the range, and changes
  no other translation of \<open>A\<close>.
\<close>

theorem mmio_unmap_unmaps_range:
  assumes "space_ok A s root" "current_root s = root" "0 < len"
    and "unat virt + unat len + 4095 < 2 ^ 64" "unat len + 8191 < 2 ^ 48"
    and A: "\<And>j. page_in (unat virt div 4096 + j) (unat virt) (unat virt + unat len) \<Longrightarrow>
      nth_page (mmio_align_down virt) j \<in> A"
  shows "\<exists>t. mmio_unmap virt len s = Some t \<and> space_ok A t root \<and>
    (\<forall>x \<in> A. translate t root x =
      (if \<exists>j. page_in (unat virt div 4096 + j) (unat virt) (unat virt + unat len) \<and>
          same_page x (nth_page (mmio_align_down virt) j)
       then None else translate s root x))"
proof -
  have al: "aligned 12 (mmio_align_down virt)" "aligned 12 (mmio_align_up (virt + len))"
    by (simp_all add: mmio_align_eq aligned_align)
  note A' = A [folded mmio_range(3) [OF assms(4,5)]]
  from mmio_unmap_loop_spec [OF assms(1,2) al A'] show ?thesis
    unfolding mmio_range(3) [OF assms(4,5)] using assms(3) by (auto simp: mmio_unmap_def)
qed

text \<open>
  When \<open>phys + size\<close> wraps around, \<open>mmio_map\<close> maps nothing at all and still returns an address.
\<close>

lemma mmio_map_wrap_maps_nothing:
  assumes "2 ^ 64 \<le> unat phys + unat len" "unat (phys + len) + 4095 < 2 ^ 64"
    and "mmio_align_up (phys + len) \<le> mmio_align_down phys"
  shows "mmio_map phys len o1 s = Some (phys + bi_hhdm_offset (g_boot_info s), s)"
proof -
  have "len \<noteq> 0" using assms(1) unat_less_u64 [of phys] by auto
  then show ?thesis
    using assms(3) by (simp add: mmio_map_def Let_def mmio_map_loop.simps not_less [symmetric])
qed

section \<open>Witnesses\<close>

lemma demo_current_root: "current_root demo_vmm = 0x5000"
  by (rule demo_cr3(1))

text \<open>A page of registers that is not aligned: two pages are mapped, from twenty free ones.\<close>

theorem mmio_map_maps_range_witness:
  "\<exists>t. mmio_map 0xfee00020 0x1000 None demo_vmm = Some (0xfee00020, t) \<and> space_ok UNIV t 0x5000 \<and>
    translate t 0x5000 0xfee01000 = Some (leaf_value 0xfee01000 (mmio_flags mmio_default_opts))"
proof -
  have h: "bi_hhdm_offset (g_boot_info demo_vmm) = 0" by (simp add: demo_vmm_def zero_boot_info_def)
  have free: "3 * range_pages 0xfee00020 0x1000 \<le> card (free_pages demo_vmm) \<and> 0 \<notin> free_pages demo_vmm"
    by (simp only: demo_vmm_card, simp add: demo_vmm_free range_pages_def)
  have down: "mmio_align_down 0xfee00020 = 0xfee00000" by (simp add: mmio_align_down_def PAGE_MASK_def PAGE_SIZE_def)
  have "page_in (unat (0xfee00020 :: u64) div 4096 + 1) (unat (0xfee00020 :: u64)) (unat (0xfee00020 :: u64) + unat (0x1000 :: u64))"
    by (simp add: page_in_def)
  then show ?thesis
    using mmio_map_maps_range [OF demo_space_ok(1) demo_current_root _ _ _ refl refl UNIV_I,
      of "0x1000" "0xfee00020" None] free
    by (auto simp: down h nth_page_def PAGE_SIZE_def dest!: spec [of _ "1 :: nat"])
qed

theorem mmio_unmap_unmaps_range_witness:
  "\<exists>t. mmio_unmap 0xfee00020 0x1000 demo_vmm = Some t \<and> space_ok UNIV t 0x5000"
  using mmio_unmap_unmaps_range [OF demo_space_ok(1) demo_current_root _ _ _ UNIV_I, of "0x1000" "0xfee00020"] by auto

lemma mmio_map_wrap_maps_nothing_witness:
  "mmio_map 0xfffffffffffff000 0x2000 None demo_vmm = Some (0xfffffffffffff000, demo_vmm)"
proof -
  have "bi_hhdm_offset (g_boot_info demo_vmm) = 0" by (simp add: demo_vmm_def zero_boot_info_def)
  then show ?thesis
    using mmio_map_wrap_maps_nothing [of "0xfffffffffffff000" "0x2000" None demo_vmm]
    by (simp add: mmio_align_eq align_up_def align_down_def PAGE_SIZE_def)
qed

end
