(* ===== verification/Lapic.thy ===== *)
theory Lapic
  imports Relax Pic_Pit Mmio
begin

text \<open>
  The local interrupt controller and its timer, \<open>kernel/arch/x86_64/cpu/lapic.c\<close>. Its registers are
  device memory: writes are events of the trace, and a register holds what was last written to it
  (\<open>last_write\<close>). \<open>None\<close> is a loop that never ends, or a page fault on the registers: while
  \<open>g_lapic_base\<close> is 0 they would lie in page 0, which is not mapped.
\<close>

section \<open>Constants and state\<close>

definition IA32_APIC_BASE :: u32 where "IA32_APIC_BASE = 0x1b"
definition IA32_APIC_BASE_ENABLE :: u32 where "IA32_APIC_BASE_ENABLE = push_bit 11 1"
definition IA32_APIC_BASE_X2APIC :: u32 where "IA32_APIC_BASE_X2APIC = push_bit 10 1"
definition LAPIC_REG_TPR :: u32 where "LAPIC_REG_TPR = 0x80"
definition LAPIC_REG_EOI :: u32 where "LAPIC_REG_EOI = 0xb0"
definition LAPIC_REG_SVR :: u32 where "LAPIC_REG_SVR = 0xf0"
definition LAPIC_REG_LVT_TIMER :: u32 where "LAPIC_REG_LVT_TIMER = 0x320"
definition LAPIC_REG_TMR_INITCNT :: u32 where "LAPIC_REG_TMR_INITCNT = 0x380"
definition LAPIC_REG_TMR_CURRCNT :: u32 where "LAPIC_REG_TMR_CURRCNT = 0x390"
definition LAPIC_REG_TMR_DIV :: u32 where "LAPIC_REG_TMR_DIV = 0x3e0"
definition LAPIC_SVR_ENABLE :: u32 where "LAPIC_SVR_ENABLE = push_bit 8 1"
definition LAPIC_LVT_MASK :: u32 where "LAPIC_LVT_MASK = push_bit 16 1"
definition LAPIC_LVT_TSC_DEADLINE :: u32 where "LAPIC_LVT_TSC_DEADLINE = push_bit 18 1"
definition LAPIC_TIMER_DIV_16 :: u32 where "LAPIC_TIMER_DIV_16 = 0x3"
definition LAPIC_SPURIOUS_VECTOR :: u32 where "LAPIC_SPURIOUS_VECTOR = 0xff"

lemmas lapic_reg_defs = LAPIC_REG_TPR_def LAPIC_REG_EOI_def LAPIC_REG_SVR_def
  LAPIC_REG_LVT_TIMER_def LAPIC_REG_TMR_INITCNT_def LAPIC_REG_TMR_CURRCNT_def LAPIC_REG_TMR_DIV_def

lemmas lapic_bit_defs = IA32_APIC_BASE_ENABLE_def IA32_APIC_BASE_X2APIC_def LAPIC_SVR_ENABLE_def
  LAPIC_LVT_MASK_def LAPIC_LVT_TSC_DEADLINE_def LAPIC_TIMER_DIV_16_def LAPIC_SPURIOUS_VECTOR_def

record lapic_state = relax_state +
  g_timer_vector :: u8
  g_lapic_base :: u64

section \<open>Operations\<close>

definition lapic_write :: "u32 \<Rightarrow> u32 \<Rightarrow> 'a lapic_state_scheme \<Rightarrow> 'a lapic_state_scheme" where
  "lapic_write reg val s = mmio_write32 (g_lapic_base s) (ucast reg) val s"

text \<open>
  The stores of \<open>lapic_init\<close>, which are the only ones that may come before the registers are mapped: once it
  has returned the base is not 0 and stays as it is, and all other functions either look at the base or
  are called with a timer that has been set up.
\<close>

definition lapic_store :: "u32 \<Rightarrow> u32 \<Rightarrow> 'a lapic_state_scheme \<Rightarrow> 'a lapic_state_scheme option" where
  "lapic_store reg val s = (if g_lapic_base s = 0 then None else Some (lapic_write reg val s))"

definition lapic_read :: "devices \<Rightarrow> u32 \<Rightarrow> 'a lapic_state_scheme \<Rightarrow> u32 \<times> 'a lapic_state_scheme" where
  "lapic_read d reg s = mmio_read32 d (g_lapic_base s) (ucast reg) s"

definition lapic_is_enabled :: "'a machine_scheme \<Rightarrow> bool" where
  "lapic_is_enabled s \<longleftrightarrow> rdmsr IA32_APIC_BASE s AND ucast IA32_APIC_BASE_ENABLE \<noteq> 0"

text \<open>The complement of \<open>IA32_APIC_BASE_X2APIC\<close> is taken at 32 bits and then zero-extended.\<close>

definition lapic_init :: "'a lapic_state_scheme \<Rightarrow> 'a lapic_state_scheme option" where
  "lapic_init s =
     (let base = rdmsr IA32_APIC_BASE s;
          base = base AND ucast (NOT IA32_APIC_BASE_X2APIC);
          base = base OR ucast IA32_APIC_BASE_ENABLE;
          s = wrmsr IA32_APIC_BASE base s;
          phys = base AND 0xfffff000
      in do {
        s \<leftarrow> (if g_lapic_base s = 0
             then do {
               (r, s) \<leftarrow> mmio_map phys 0x1000
                 (Some \<lparr>opt_cache = MMIO_CACHE_UC, opt_global = 1, opt_writable = 1, opt_nx = 1\<rparr>) s;
               Some (s\<lparr>g_lapic_base := r\<rparr>)
             }
             else Some s);
        s \<leftarrow> lapic_store LAPIC_REG_TPR 0 s;
        lapic_store LAPIC_REG_SVR (LAPIC_SPURIOUS_VECTOR OR LAPIC_SVR_ENABLE) s
      })"

definition lapic_eoi :: "'a lapic_state_scheme \<Rightarrow> 'a lapic_state_scheme" where
  "lapic_eoi s = (if g_lapic_base s = 0 then s else lapic_write LAPIC_REG_EOI 0 s)"

definition lapic_timer_set_oneshot :: "u8 \<Rightarrow> 'a lapic_state_scheme \<Rightarrow> 'a lapic_state_scheme" where
  "lapic_timer_set_oneshot vector s =
     (let s = s\<lparr>g_timer_vector := vector\<rparr>;
          s = lapic_write LAPIC_REG_TMR_DIV LAPIC_TIMER_DIV_16 s;
          s = lapic_write LAPIC_REG_LVT_TIMER (ucast vector) s
      in lapic_write LAPIC_REG_TMR_INITCNT 0 s)"

definition lapic_timer_set_tsc_deadline :: "u8 \<Rightarrow> 'a lapic_state_scheme \<Rightarrow> 'a lapic_state_scheme" where
  "lapic_timer_set_tsc_deadline vector s =
     (let s = s\<lparr>g_timer_vector := vector\<rparr>;
          s = lapic_write LAPIC_REG_TMR_DIV LAPIC_TIMER_DIV_16 s;
          s = lapic_write LAPIC_REG_LVT_TIMER (ucast vector OR LAPIC_LVT_TSC_DEADLINE) s
      in lapic_write LAPIC_REG_TMR_INITCNT 0 s)"

definition lapic_timer_stop :: "'a lapic_state_scheme \<Rightarrow> 'a lapic_state_scheme" where
  "lapic_timer_stop s =
     (if g_lapic_base s = 0 \<or> g_timer_vector s = 0 then s
      else
        (let s = lapic_write LAPIC_REG_LVT_TIMER (ucast (g_timer_vector s) OR LAPIC_LVT_MASK) s
         in lapic_write LAPIC_REG_TMR_INITCNT 0 s))"

definition lapic_timer_oneshot :: "u32 \<Rightarrow> 'a lapic_state_scheme \<Rightarrow> 'a lapic_state_scheme" where
  "lapic_timer_oneshot ticks s =
     (if g_lapic_base s = 0 \<or> g_timer_vector s = 0 then s
      else
        (let ticks = (if ticks = 0 then 1 else ticks);
             s = lapic_write LAPIC_REG_LVT_TIMER (ucast (g_timer_vector s)) s
         in lapic_write LAPIC_REG_TMR_INITCNT ticks s))"

text \<open>The end of both calibrations: ticks per microsecond from the current count.\<close>

definition lapic_calibration_result ::
    "devices \<Rightarrow> u32 \<Rightarrow> 'a lapic_state_scheme \<Rightarrow> u32 \<times> 'a lapic_state_scheme" where
  "lapic_calibration_result d us s =
     (let (cur, s) = lapic_read d LAPIC_REG_TMR_CURRCNT s;
          elapsed = (0xffffffff :: u64) - ucast cur;
          tpu = elapsed div ucast us;
          tpu = (if tpu = 0 then 1 else tpu);
          s = lapic_timer_stop s
      in (ucast tpu, s))"

definition lapic_timer_calibrate_tsc ::
    "devices \<Rightarrow> u64 \<Rightarrow> u32 \<Rightarrow> 'a lapic_state_scheme \<Rightarrow> (u32 \<times> 'a lapic_state_scheme) option" where
  "lapic_timer_calibrate_tsc d tsc_hz us s =
     (if g_lapic_base s = 0 \<or> g_timer_vector s = 0 \<or> tsc_hz = 0 \<or> us = 0 then Some (0, s)
      else
        (let s = lapic_write LAPIC_REG_TMR_DIV LAPIC_TIMER_DIV_16 s;
             s = lapic_write LAPIC_REG_LVT_TIMER (ucast (g_timer_vector s) OR LAPIC_LVT_MASK) s;
             s = lapic_write LAPIC_REG_TMR_INITCNT 0xffffffff s;
             tsc_delta = (tsc_hz * ucast us) div 1000000;
             tsc_delta = (if tsc_delta = 0 then 1 else tsc_delta);
             (start, s) = rdtsc d s;
             target = start + tsc_delta
         in do {
           s \<leftarrow> tsc_wait d target s;
           Some (lapic_calibration_result d us s)
         }))"

partial_function (option) pit_wait ::
    "devices \<Rightarrow> 'a machine_scheme \<Rightarrow> 'a machine_scheme option" where
  "pit_wait d s =
     (let (c, s) = pit_read_count d s in if c \<noteq> 0 then pit_wait d (mm_pause s) else Some s)"

definition lapic_timer_calibrate_pit ::
    "devices \<Rightarrow> u32 \<Rightarrow> 'a lapic_state_scheme \<Rightarrow> (u32 \<times> 'a lapic_state_scheme) option" where
  "lapic_timer_calibrate_pit d pit_us s =
     (if g_lapic_base s = 0 \<or> g_timer_vector s = 0 \<or> pit_us = 0 then Some (0, s)
      else
        (let s = lapic_write LAPIC_REG_TMR_DIV LAPIC_TIMER_DIV_16 s;
             s = lapic_write LAPIC_REG_LVT_TIMER (ucast (g_timer_vector s) OR LAPIC_LVT_MASK) s;
             s = pit_oneshot_us pit_us s;
             s = lapic_write LAPIC_REG_TMR_INITCNT 0xffffffff s
         in do {
           s \<leftarrow> pit_wait d s;
           Some (lapic_calibration_result d pit_us s)
         }))"


section \<open>Registers\<close>

definition last_write :: "history \<Rightarrow> u64 \<Rightarrow> u32 option" where
  "last_write h a =
     fold (\<lambda>e r. case e of EvMmioW32 b v \<Rightarrow> if b = a then Some v else r | _ \<Rightarrow> r) h None"

abbreviation lapic_reg :: "u32 \<Rightarrow> 'a lapic_state_scheme \<Rightarrow> u32 option" where
  "lapic_reg reg s \<equiv> last_write (trace s) (g_lapic_base s + ucast reg)"

lemma last_write_snoc:
  "last_write (h @ [e]) a =
    (case e of EvMmioW32 b v \<Rightarrow> if b = a then Some v else last_write h a | _ \<Rightarrow> last_write h a)"
  by (cases e) (simp_all add: last_write_def)

lemma last_write_skip:
  "\<forall>e \<in> set es. \<forall>a v. e \<noteq> EvMmioW32 a v \<Longrightarrow> last_write (h @ es) a = last_write h a"
proof (induction es rule: rev_induct)
  case (snoc e es)
  then show ?case unfolding append_assoc [symmetric] last_write_snoc by (auto split: hw_event.split)
qed simp

lemma lapic_write_reg:
  "b = g_lapic_base s \<Longrightarrow> last_write (trace (lapic_write q v s)) (b + ucast r) =
    (if r = q then Some v else last_write (trace s) (b + ucast r))"
proof -
  assume b: "b = g_lapic_base s"
  have "ucast q = (ucast r :: u64) \<longleftrightarrow> r = q"
    by (simp add: word_unat_eq_iff unat_ucast_up eq_commute)
  then show ?thesis
    by (simp add: b lapic_write_def mmio_write32_def emit_def last_write_snoc)
qed

lemma lapic_write_frame [frame_simps]:
  "g_lapic_base (lapic_write r v s) = g_lapic_base s"
  "g_timer_vector (lapic_write r v s) = g_timer_vector s"
  "msrs (lapic_write r v s) = msrs s"
  "lapic_state.more (lapic_write r v s) = lapic_state.more s"
  by (simp_all add: lapic_write_def mmio_write32_def emit_def)

lemma lapic_write_trace:
  "trace (lapic_write r v s) = trace s @ [EvMmioW32 (g_lapic_base s + ucast r) v]"
  by (simp add: lapic_write_def mmio_write32_def emit_def)

lemma lapic_regs_distinct [simp]:
  "LAPIC_REG_LVT_TIMER \<noteq> LAPIC_REG_TMR_INITCNT" "LAPIC_REG_TMR_INITCNT \<noteq> LAPIC_REG_LVT_TIMER"
  "LAPIC_REG_LVT_TIMER \<noteq> LAPIC_REG_TMR_DIV" "LAPIC_REG_TMR_INITCNT \<noteq> LAPIC_REG_TMR_DIV"
  "LAPIC_REG_TPR \<noteq> LAPIC_REG_SVR"
  by (simp_all add: lapic_reg_defs)

text \<open>What the timer of the local controller is set up to do.\<close>

definition timer_lvt :: "'a lapic_state_scheme \<Rightarrow> u32 option" where
  "timer_lvt s = lapic_reg LAPIC_REG_LVT_TIMER s"

definition timer_count :: "'a lapic_state_scheme \<Rightarrow> u32 option" where
  "timer_count s = lapic_reg LAPIC_REG_TMR_INITCNT s"

definition timer_ready :: "'a lapic_state_scheme \<Rightarrow> bool" where
  "timer_ready s \<longleftrightarrow> g_lapic_base s \<noteq> 0 \<and> g_timer_vector s \<noteq> 0"

lemmas timer_regs = timer_lvt_def timer_count_def

lemma lapic_timer_stop_regs:
  "timer_ready s \<Longrightarrow> timer_lvt (lapic_timer_stop s) = Some (ucast (g_timer_vector s) OR LAPIC_LVT_MASK)"
  "timer_ready s \<Longrightarrow> timer_count (lapic_timer_stop s) = Some 0"
  "g_lapic_base (lapic_timer_stop s) = g_lapic_base s"
  "g_timer_vector (lapic_timer_stop s) = g_timer_vector s"
  "msrs (lapic_timer_stop s) = msrs s"
  "lapic_state.more (lapic_timer_stop s) = lapic_state.more s"
  by (simp_all add: timer_ready_def timer_regs lapic_timer_stop_def Let_def lapic_write_reg frame_simps)

lemma lapic_timer_oneshot_regs:
  "timer_ready s \<Longrightarrow> timer_lvt (lapic_timer_oneshot n s) = Some (ucast (g_timer_vector s))"
  "timer_ready s \<Longrightarrow> timer_count (lapic_timer_oneshot n s) = Some (if n = 0 then 1 else n)"
  by (simp_all add: timer_ready_def timer_regs lapic_timer_oneshot_def Let_def lapic_write_reg
      frame_simps)

lemma lapic_timer_set_regs:
  "timer_lvt (lapic_timer_set_oneshot v s) = Some (ucast v)"
  "timer_count (lapic_timer_set_oneshot v s) = Some 0"
  "timer_lvt (lapic_timer_set_tsc_deadline v s) = Some (ucast v OR LAPIC_LVT_TSC_DEADLINE)"
  "timer_count (lapic_timer_set_tsc_deadline v s) = Some 0"
  "g_lapic_base (lapic_timer_set_oneshot v s) = g_lapic_base s"
  "g_lapic_base (lapic_timer_set_tsc_deadline v s) = g_lapic_base s"
  "g_timer_vector (lapic_timer_set_oneshot v s) = v"
  "g_timer_vector (lapic_timer_set_tsc_deadline v s) = v"
  "msrs (lapic_timer_set_oneshot v s) = msrs s"
  "msrs (lapic_timer_set_tsc_deadline v s) = msrs s"
  "lapic_state.more (lapic_timer_set_oneshot v s) = lapic_state.more s"
  "lapic_state.more (lapic_timer_set_tsc_deadline v s) = lapic_state.more s"
  by (simp_all add: timer_regs lapic_timer_set_oneshot_def lapic_timer_set_tsc_deadline_def Let_def
      lapic_write_reg frame_simps)

section \<open>Calibration against the time-stamp counter\<close>

lemma unat_tpu:
  fixes us cur :: u32
  assumes "us \<noteq> 0"
  defines "tpu \<equiv> ((0xffffffff :: u64) - ucast cur) div ucast us"
  shows "unat (ucast (if tpu = 0 then 1 else tpu) :: u32) = max 1 ((2 ^ 32 - 1 - unat cur) div unat us)"
proof -
  have cur: "unat cur < 2 ^ 32" using unsigned_less [of cur] by simp
  then have "(ucast cur :: u64) \<le> 0xffffffff" by (simp add: word_le_nat_alt unat_ucast_up)
  then have t: "unat tpu = (2 ^ 32 - 1 - unat cur) div unat us"
    by (simp add: tpu_def unat_div_distrib unat_sub_le unat_ucast_up)
  moreover have "(2 ^ 32 - 1 - unat cur) div unat us < 2 ^ 32"
    by (rule le_less_trans [OF div_le_dividend]) simp
  ultimately show ?thesis
    by (cases "tpu = 0") (auto simp: unsigned_ucast_eq take_bit_nat_eq_self unat_gt_0 Suc_le_eq
        simp flip: unat_gt_0)
qed

lemma lapic_calibrate_tsc_spec:
  assumes clk: "tsc_clock clk d" and ready: "timer_ready s" and "tsc_hz \<noteq> 0" "us \<noteq> 0"
  shows "\<exists>h t tpu. lapic_timer_calibrate_tsc d tsc_hz us s = Some (tpu, t) \<and>
    clk (trace s) + unat (tsc_hz * ucast us) div 1000000 \<le> clk h \<and>
    unat tpu = max 1 ((2 ^ 32 - 1 - unat (mmio_in d h (g_lapic_base s + 0x390))) div unat us) \<and>
    timer_lvt t = Some (ucast (g_timer_vector s) OR LAPIC_LVT_MASK) \<and> timer_count t = Some 0 \<and>
    lapic_state.more t = lapic_state.more s \<and> g_lapic_base t = g_lapic_base s \<and>
    g_timer_vector t = g_timer_vector s \<and> msrs t = msrs s"
proof -
  define w where "w = lapic_write LAPIC_REG_TMR_INITCNT 0xffffffff
    (lapic_write LAPIC_REG_LVT_TIMER (ucast (g_timer_vector s) OR LAPIC_LVT_MASK)
      (lapic_write LAPIC_REG_TMR_DIV LAPIC_TIMER_DIV_16 s))"
  define \<delta> where "\<delta> = (let v = (tsc_hz * ucast us) div 1000000 in if v = 0 then 1 else v)"
  let ?start = "clk (trace w)" and ?target = "clk (trace w) + unat \<delta>"
  define u where "u = w\<lparr>trace := trace w @ [EvTsc (of_nat ?start)]\<rparr>"
  have r: "rdtsc d w = (of_nat ?start, u)"
    by (simp add: rdtsc_def Let_def emit_def tsc_clockD(1) [OF clk] u_def)
  have \<delta>: "unat (tsc_hz * ucast us) div 1000000 \<le> unat \<delta>" "unat \<delta> < 2 ^ 61"
    using unat_less_u64 [of "tsc_hz * ucast us"] unat_div_distrib [of "tsc_hz * ucast us" 1000000]
    by (auto simp: \<delta>_def Let_def div_less_iff_less_mult)
  have "?start < clk (trace u)" "clk (trace u) \<le> ?start + 2 ^ 61"
    using tsc_clockD(2,3) [OF clk, of "trace w"] by (simp_all add: u_def)
  with \<delta> obtain es dl where t: "tsc_wait d (of_nat ?target) u =
      Some (u\<lparr>trace := trace u @ es @ [EvTsc (of_nat (clk (trace u @ es)))], g_tpause_deadline := dl\<rparr>)"
    "?target \<le> clk (trace u @ es)"
    using tsc_wait_returns [OF clk, of ?target u] by fastforce
  define h where "h = trace u @ es @ [EvTsc (of_nat (clk (trace u @ es)))]"
  define v where "v = u\<lparr>trace := h @ [EvMmioR32 (g_lapic_base s + 0x390) (mmio_in d h (g_lapic_base s + 0x390))],
    g_tpause_deadline := dl\<rparr>"
  have w: "g_lapic_base w = g_lapic_base s" "g_timer_vector w = g_timer_vector s"
    "msrs w = msrs s" "lapic_state.more w = lapic_state.more s"
    by (simp_all add: w_def frame_simps)
  then have v: "timer_ready v" "g_timer_vector v = g_timer_vector s"
    "msrs v = msrs s" "lapic_state.more v = lapic_state.more s" "g_lapic_base v = g_lapic_base s"
    using ready by (simp_all add: v_def u_def timer_ready_def)
  have "lapic_timer_calibrate_tsc d tsc_hz us s =
      Some (lapic_calibration_result d us (u\<lparr>trace := h, g_tpause_deadline := dl\<rparr>))"
    using assms(3,4) ready t(1) r
    by (simp add: lapic_timer_calibrate_tsc_def timer_ready_def Let_def frame_simps w_def [symmetric]
        \<delta>_def [unfolded Let_def, symmetric] h_def)
  moreover have "lapic_read d LAPIC_REG_TMR_CURRCNT (u\<lparr>trace := h, g_tpause_deadline := dl\<rparr>) =
      (mmio_in d h (g_lapic_base s + 0x390), v)"
    by (simp add: lapic_read_def mmio_read32_def Let_def emit_def LAPIC_REG_TMR_CURRCNT_def v_def u_def w)
  moreover have "clk (trace s) \<le> ?start"
    using tsc_clock_mono [OF clk, of "trace s"] by (simp add: w_def lapic_write_trace)
  moreover have "clk (trace u @ es) < clk h"
    using tsc_clockD(2) [OF clk, of "trace u @ es"] by (simp add: h_def)
  ultimately show ?thesis
    using \<delta>(1) t(2) unat_tpu [OF assms(4), of "mmio_in d h (g_lapic_base s + 0x390)"]
      lapic_timer_stop_regs(1,2) [OF v(1)]
    by (intro exI [where x = h] exI [where x = "lapic_timer_stop v"] exI conjI)
      (simp_all add: lapic_calibration_result_def Let_def v lapic_timer_stop_regs(3-))
qed


text \<open>
  C25: On a machine whose time-stamp counter advances, \<open>lapic_timer_calibrate_tsc\<close> returns. It reads the
  count no earlier than the time asked for, yields the ticks per microsecond rounded down but at
  least one, and leaves the timer masked and stopped.
\<close>

theorem lapic_calibrate_tsc_returns:
  assumes clk: "tsc_clock clk d" and ready: "timer_ready s" and "tsc_hz \<noteq> 0" "us \<noteq> 0"
  shows "\<exists>h t tpu. lapic_timer_calibrate_tsc d tsc_hz us s = Some (tpu, t) \<and>
    clk (trace s) + unat (tsc_hz * ucast us) div 1000000 \<le> clk h \<and>
    unat tpu = max 1 ((2 ^ 32 - 1 - unat (mmio_in d h (g_lapic_base s + 0x390))) div unat us) \<and>
    timer_lvt t = Some (ucast (g_timer_vector s) OR LAPIC_LVT_MASK) \<and> timer_count t = Some 0"
  using lapic_calibrate_tsc_spec [OF assms] by blast

section \<open>Waiting for the interval timer\<close>

text \<open>
  One poll of channel 0: the count it reads, and the history after it. The loop ends when a poll reads
  exactly 0, which is up to the device (\<open>pit_ends\<close>): a count that is missed wraps around.
\<close>

definition pit_count :: "devices \<Rightarrow> history \<Rightarrow> u16 \<times> history" where
  "pit_count d h =
     (let h = h @ [EvOut PIT_CMD 0];
          lo = port_in d h PIT_CH0;
          h = h @ [EvIn PIT_CH0 lo];
          hi = port_in d h PIT_CH0
      in (ucast lo OR push_bit 8 (ucast hi), h @ [EvIn PIT_CH0 hi]))"

primrec pit_poll :: "devices \<Rightarrow> nat \<Rightarrow> history \<Rightarrow> history" where
  "pit_poll d 0 h = h"
| "pit_poll d (Suc n) h = pit_poll d n (snd (pit_count d h) @ [EvPause])"

definition pit_ends :: "devices \<Rightarrow> bool" where
  "pit_ends d \<longleftrightarrow> (\<forall>h. \<exists>n. fst (pit_count d (pit_poll d n h)) = 0)"

lemma pit_read_count_eq:
  "pit_read_count d s = (fst (pit_count d (trace s)), s\<lparr>trace := snd (pit_count d (trace s))\<rparr>)"
  by (simp add: pit_read_count_def pit_count_def Let_def outb_def inb_def emit_def)

lemma pit_count_snd: "\<exists>es. snd (pit_count d h) = h @ es"
  by (simp add: pit_count_def Let_def)

lemma pit_wait_returns:
  assumes "pit_ends d"
  shows "\<exists>es. pit_wait d s = Some (s\<lparr>trace := trace s @ es\<rparr>)"
proof -
  obtain n where "fst (pit_count d (pit_poll d n (trace s))) = 0" using assms by (auto simp: pit_ends_def)
  then show ?thesis
  proof (induction n arbitrary: s)
    case 0
    then show ?case
      using pit_count_snd [of d "trace s"] by (auto simp: pit_wait.simps [of d s] pit_read_count_eq)
  next
    case (Suc n)
    obtain es where es: "snd (pit_count d (trace s)) = trace s @ es" using pit_count_snd by blast
    let ?s = "mm_pause (s\<lparr>trace := snd (pit_count d (trace s))\<rparr>)"
    show ?case
    proof (cases "fst (pit_count d (trace s)) = 0")
      case True
      then show ?thesis using es by (auto simp: pit_wait.simps [of d s] pit_read_count_eq)
    next
      case False
      have "fst (pit_count d (pit_poll d n (trace ?s))) = 0"
        using Suc.prems by (simp add: mm_pause_def emit_def)
      from Suc.IH [OF this] obtain fs where "pit_wait d ?s = Some (?s\<lparr>trace := trace ?s @ fs\<rparr>)" by blast
      then show ?thesis
        using False es by (auto simp: pit_wait.simps [of d s] pit_read_count_eq mm_pause_def emit_def)
    qed
  qed
qed

section \<open>Initialisation\<close>

lemma outside_tables [simp]:
  fixes s :: "'a pmm_state_scheme" and t :: "'b lapic_state_scheme"
  shows "space_ok A (emit e s) root = space_ok A s root" "translate (emit e s) = translate s"
    "data_page A (emit e s) root q = data_page A s root q" "pt_get (emit e s) = pt_get s"
    "space_ok A (wrmsr r v s) root = space_ok A s root" "translate (wrmsr r v s) = translate s"
    "data_page A (wrmsr r v s) root q = data_page A s root q" "pt_get (wrmsr r v s) = pt_get s"
    "space_ok A (lapic_write p w t) root = space_ok A t root" "translate (lapic_write p w t) = translate t"
    "data_page A (lapic_write p w t) root q = data_page A t root q" "pt_get (lapic_write p w t) = pt_get t"
    "space_ok A (t\<lparr>g_lapic_base := b\<rparr>) root = space_ok A t root"
    "translate (t\<lparr>g_lapic_base := b\<rparr>) = translate t"
    "data_page A (t\<lparr>g_lapic_base := b\<rparr>) root q = data_page A t root q"
    "pt_get (t\<lparr>g_lapic_base := b\<rparr>) = pt_get t"
  unfolding lapic_write_def mmio_write32_def wrmsr_def
  by (rule space_ok_fields data_page_fields tables_cong(1,5); simp add: emit_def)+

lemma wrmsr_free_pages [simp]: "free_pages (wrmsr r v s) = free_pages s"
  unfolding wrmsr_def by (rule tables_cong(4); simp add: emit_def)

lemma outside_upper [simp]:
  fixes s :: "'a pmm_state_scheme" and t :: "'b lapic_state_scheme"
  shows "upper_kept A root (wrmsr r v s) u = upper_kept A root s u"
    "upper_kept A root u' (lapic_write p w t) = upper_kept A root u' t"
    "upper_kept A root u' (t\<lparr>g_lapic_base := b\<rparr>) = upper_kept A root u' t"
  by (simp_all add: upper_kept_def levels_cong(1) [OF outside_tables(8)] levels_cong(1) [OF outside_tables(12)]
      levels_cong(1) [OF outside_tables(16)])

lemma wrmsr_frame [frame_simps]:
  "cr3 (wrmsr r v s) = cr3 s" "msrs (wrmsr r v s) = (msrs s)(r := v)"
  "g_boot_info (wrmsr r v b) = g_boot_info b" "g_lapic_base (wrmsr r v l) = g_lapic_base l"
  "g_timer_vector (wrmsr r v l) = g_timer_vector l" "lapic_state.more (wrmsr r v l) = lapic_state.more l"
  by (simp_all add: wrmsr_def emit_def)

lemma apic_base_bits:
  "(ucast (NOT IA32_APIC_BASE_X2APIC) :: u64) = 0xfffffbff" "(ucast IA32_APIC_BASE_ENABLE :: u64) = 0x800"
  by (simp_all add: lapic_bit_defs)

lemma beyond_lapic:
  assumes "pmm_state.more t = pmm_state.more s"
  shows "g_lapic_base t = g_lapic_base s" "g_timer_vector t = g_timer_vector s"
    "lapic_state.more t = lapic_state.more s"
  using assms by (cases s; cases t; simp)+

lemma lapic_init_frame:
  "lapic_init s = Some t \<Longrightarrow> lapic_state.more t = lapic_state.more s \<and> g_timer_vector t = g_timer_vector s"
  by (auto simp: lapic_init_def lapic_store_def Let_def bind_eq_Some_conv frame_simps split: if_splits
      dest!: beyond_mmio_map beyond_memoryD(5) dest: beyond_lapic(2,3))

text \<open>It returns only with the registers mapped: a failure of \<open>mmio_map\<close> is a page fault at once.\<close>

lemma lapic_init_base: "lapic_init s = Some t \<Longrightarrow> g_lapic_base t \<noteq> 0"
  by (auto simp: lapic_init_def lapic_store_def Let_def bind_eq_Some_conv frame_simps split: if_splits)

lemma lapic_init_spec:
  assumes "space_ok A s root" "current_root s = root" "g_lapic_base s = 0"
    and phys: "phys = msrs s IA32_APIC_BASE AND 0xfffff000"
    and A: "phys + bi_hhdm_offset (g_boot_info s) \<in> A" "phys + bi_hhdm_offset (g_boot_info s) \<noteq> 0"
    and free: "3 \<le> card (free_pages s)" "0 \<notin> free_pages s"
  shows "\<exists>t. lapic_init s = Some t \<and> space_ok A t root \<and> lapic_is_enabled t \<and>
    msrs t IA32_APIC_BASE = (msrs s IA32_APIC_BASE AND 0xfffffbff) OR 0x800 \<and>
    g_lapic_base t = phys + bi_hhdm_offset (g_boot_info s) \<and>
    translate t root (g_lapic_base t) =
      Some (leaf_value phys (PTE_P OR PTE_W OR PTE_G OR (PTE_PCD OR PTE_PWT))) \<and>
    lapic_reg LAPIC_REG_TPR t = Some 0 \<and> lapic_reg LAPIC_REG_SVR t = Some 0x1ff \<and>
    (\<forall>x \<in> A. \<not> same_page x (phys + bi_hhdm_offset (g_boot_info s)) \<longrightarrow> translate t root x = translate s root x) \<and>
    keeps_data A root s t"
proof -
  let ?v = "(msrs s IA32_APIC_BASE AND 0xfffffbff) OR 0x800"
  let ?s = "wrmsr IA32_APIC_BASE ?v s"
  let ?o = "\<lparr>opt_cache = MMIO_CACHE_UC, opt_global = 1, opt_writable = 1, opt_nx = 1\<rparr>"
  have eq: "?v AND 0xfffff000 = phys"
    unfolding phys by (simp add: and.commute [of _ "0xfffff000"] bit.conj_disj_distrib and.left_commute)
  have al: "aligned 12 phys"
    unfolding aligned_def phys and.assoc by (simp add: mask_eq_exp_minus_1)
  have "phys \<le> 0xfffff000" unfolding phys by (rule word_and_le1)
  then have small: "unat phys \<le> 0xfffff000" by (simp add: word_le_nat_alt)
  have down: "mmio_align_down phys = phys"
    using al by (simp add: mmio_align_eq word_unat_eq_iff align_down_unat aligned_12)
      (simp add: dvd_eq_mod_eq_0 [symmetric])
  have one: "page_in (unat phys div 4096 + j) (unat phys) (unat phys + 4096) \<longleftrightarrow> j = 0" for j
    using al by (auto simp: page_in_def aligned_12)
  let ?L = "phys + bi_hhdm_offset (g_boot_info s)"
  have pre: "space_ok A ?s root" "current_root ?s = root" "(0 :: u64) < 0x1000"
    "unat phys + unat (0x1000 :: u64) + 4095 < 2 ^ 64" "unat (0x1000 :: u64) + 8191 < 2 ^ 48"
    "?L = mmio_align_down phys + bi_hhdm_offset (g_boot_info ?s)"
    "?o = (case Some ?o of None \<Rightarrow> mmio_default_opts | Some o1 \<Rightarrow> o1)"
    using assms(1,2) small by (simp_all add: read_cr3_def frame_simps down)
  have "nth_page ?L j \<in> A"
    if "page_in (unat phys div 4096 + j) (unat phys) (unat phys + unat (0x1000 :: u64))" for j
    using that one [of j] A(1) by simp
  note map = mmio_map_spec [OF pre this]
  have one': "range_pages phys 0x1000 = 1"
    using al by (auto simp: range_pages_def aligned_12 mod_eq_0_iff_dvd elim!: dvdE)
  from map obtain ok u where m: "mmio_map phys 0x1000 (Some ?o) ?s = Some (if ok then ?L else 0, u)" "space_ok A u root"
    "ok \<Longrightarrow> page_in (unat phys div 4096 + 0) (unat phys) (unat phys + unat (0x1000 :: u64)) \<Longrightarrow>
      translate u root (nth_page ?L 0) = Some (leaf_value (nth_page (mmio_align_down phys) 0) (mmio_flags ?o))"
    "3 * range_pages phys 0x1000 \<le> card (free_pages ?s) \<and> 0 \<notin> free_pages ?s \<Longrightarrow> ok"
    "\<forall>x \<in> A. (\<forall>j. page_in (unat phys div 4096 + j) (unat phys) (unat phys + unat (0x1000 :: u64)) \<longrightarrow>
      \<not> same_page x (nth_page ?L j)) \<longrightarrow> translate u root x = translate ?s root x"
    "keeps_data A root ?s u"
    unfolding wrmsr_frame(3) by blast
  have n: "unat (0x1000 :: u64) = 4096" by simp
  from m(4) have ok using free one' by simp
  with m have u: "mmio_map phys 0x1000 (Some ?o) ?s = Some (?L, u)" "space_ok A u root"
    "translate u root (?L) = Some (leaf_value phys (mmio_flags ?o))"
    "\<forall>x \<in> A. \<not> same_page x (?L) \<longrightarrow> translate u root x = translate s root x"
    "keeps_data A root s u"
    unfolding n by (simp_all add: keeps_data_def one one [of 0, simplified] down)
  have msr: "msrs u IA32_APIC_BASE = ?v"
    using beyond_memoryD(2) [OF beyond_mmio_map [OF u(1)]] by (simp add: frame_simps)
  let ?t = "lapic_write LAPIC_REG_SVR (LAPIC_SPURIOUS_VECTOR OR LAPIC_SVR_ENABLE)
    (lapic_write LAPIC_REG_TPR 0 (u\<lparr>g_lapic_base := phys + bi_hhdm_offset (g_boot_info s)\<rparr>))"
  have "lapic_init s = Some ?t"
    using assms(3) u(1) eq A(2)
    by (simp add: lapic_init_def lapic_store_def Let_def rdmsr_def apic_base_bits frame_simps)
  moreover have "lapic_is_enabled ?t"
    by (simp add: lapic_is_enabled_def rdmsr_def frame_simps msr apic_base_bits bit.conj_disj_distrib2)
  ultimately show ?thesis
    using u(2-5) by (intro exI [of _ ?t])
      (simp add: msr frame_simps lapic_write_reg mmio_flags_def lapic_bit_defs keeps_data_def)
qed

text \<open>
  C26: Where three pages are free and none of them is page 0, \<open>lapic_init\<close> returns, with the register page
  mapped uncached and writable at its address in the direct map and \<open>g_lapic_base\<close> that address. The local controller is
  enabled with x2APIC off, accepts all interrupt priorities and has the spurious vector 255. It also clears
  the upper half of the base register, so a controller above four gigabytes is moved.
\<close>

theorem lapic_init_enables:
  assumes "space_ok A s root" "current_root s = root" "g_lapic_base s = 0"
    and phys: "phys = msrs s IA32_APIC_BASE AND 0xfffff000"
    and A: "phys + bi_hhdm_offset (g_boot_info s) \<in> A" "phys + bi_hhdm_offset (g_boot_info s) \<noteq> 0"
    and free: "3 \<le> card (free_pages s)" "0 \<notin> free_pages s"
  shows "\<exists>t. lapic_init s = Some t \<and> space_ok A t root \<and> lapic_is_enabled t \<and>
    msrs t IA32_APIC_BASE = (msrs s IA32_APIC_BASE AND 0xfffffbff) OR 0x800 \<and>
    g_lapic_base t = phys + bi_hhdm_offset (g_boot_info s) \<and>
    translate t root (g_lapic_base t) =
      Some (leaf_value phys (PTE_P OR PTE_W OR PTE_G OR (PTE_PCD OR PTE_PWT))) \<and>
    lapic_reg LAPIC_REG_TPR t = Some 0 \<and> lapic_reg LAPIC_REG_SVR t = Some 0x1ff"
  using lapic_init_spec [OF assms] by blast

section \<open>Concrete states\<close>

definition demo_idt :: idt_state where
  "demo_idt = gdt_state.extend demo_gdt (idt_state.fields (\<lambda>v. make_gate 0 0 0))"

definition demo_relax :: relax_state where
  "demo_relax = idt_state.extend demo_idt (relax_state.fields 0 1000 0)"

definition demo_lapic :: "u64 \<Rightarrow> lapic_state" where
  "demo_lapic base = relax_state.extend demo_relax (lapic_state.fields 240 base)"

lemmas demo_defs = demo_idt_def demo_relax_def demo_lapic_def demo_gdt_def demo_queue_def demo_vmm_def
  gdt_state.defs idt_state.defs relax_state.defs lapic_state.defs timerq_state.defs vmm_state.defs

lemma demo_lapic_fields:
  "g_lapic_base (demo_lapic b) = b" "g_timer_vector (demo_lapic b) = 240" "trace (demo_lapic b) = []"
  "msrs (demo_lapic b) = (\<lambda>_. 0)" "cr3 (demo_lapic b) = 0x5000"
  "bi_hhdm_offset (g_boot_info (demo_lapic b)) = 0"
  by (simp_all add: demo_defs zero_boot_info_def)

lemma demo_lapic_space: "space_ok A (demo_lapic b) 0x5000"
proof -
  have "space_ok A (demo_lapic b) 0x5000 = space_ok A demo_vmm 0x5000"
    by (rule space_ok_fields) (simp_all add: demo_defs)
  then show ?thesis using demo_space_ok(1) by simp
qed

lemma demo_lapic_free: "free_pages (demo_lapic b) = free_pages demo_vmm"
  by (rule tables_cong(4)) (simp_all add: demo_defs)

text \<open>The registers where processors have them.\<close>

theorem lapic_init_enables_witness:
  "\<exists>t. lapic_init ((demo_lapic 0)\<lparr>msrs := \<lambda>_. 0xfee00900\<rparr>) = Some t \<and> space_ok UNIV t 0x5000 \<and> lapic_is_enabled t \<and>
    g_lapic_base t = 0xfee00000 \<and> translate t 0x5000 0xfee00000 \<noteq> None"
proof -
  let ?s = "(demo_lapic 0)\<lparr>msrs := \<lambda>_. 0xfee00900\<rparr>"
  have "space_ok UNIV ?s 0x5000 = space_ok UNIV (demo_lapic 0) 0x5000" by (rule space_ok_fields) simp_all
  then have sp: "space_ok UNIV ?s 0x5000" using demo_lapic_space by blast
  have "free_pages ?s = free_pages demo_vmm" unfolding demo_lapic_free [of 0, symmetric] by (rule tables_cong(4)) simp_all
  then have free: "3 \<le> card (free_pages ?s)" "0 \<notin> free_pages ?s"
    by (simp_all only: demo_vmm_card) (simp_all add: demo_vmm_free)
  show ?thesis
    using lapic_init_enables [OF sp _ _ refl UNIV_I _ free] by (auto simp: demo_lapic_fields read_cr3_def)
qed

lemma demo_clock: "tsc_clock length (demo_devices\<lparr>cpuid_in := f\<rparr>)"
  by (simp add: tsc_clock_def demo_devices_def)

theorem lapic_calibrate_tsc_returns_witness:
  "\<exists>t. lapic_timer_calibrate_tsc demo_devices 1000000 2 (demo_lapic 0xfee00000) = Some (2147483647, t)"
proof -
  have clk: "tsc_clock length demo_devices" using demo_clock [of "cpuid_in demo_devices"] by simp
  have "timer_ready (demo_lapic 0xfee00000)" by (simp add: timer_ready_def demo_lapic_fields)
  from lapic_calibrate_tsc_returns [OF clk this, of 1000000 2] obtain tpu t where
    "lapic_timer_calibrate_tsc demo_devices 1000000 2 (demo_lapic 0xfee00000) = Some (tpu, t)"
    "unat tpu = unat (2147483647 :: u32)"
    by (auto simp: demo_devices_def)
  then show ?thesis by (simp add: word_unat_eq_iff)
qed

end
