(* ===== verification/Timer.thy ===== *)
theory Timer
  imports Lapic
begin

text \<open>
  The one-shot timer, \<open>kernel/arch/x86_64/cpu/timer.c\<close>: nanoseconds are converted to ticks of the
  time-stamp counter or of the local timer by a multiplication with a fixed-point scale. The
  processor's 64 by 64 bit multiplication and 128 by 64 bit division are functions on words.
\<close>

section \<open>State\<close>

definition IA32_TSC_DEADLINE :: u32 where "IA32_TSC_DEADLINE = 0x6e0"
definition TIMER_CAL_US :: u32 where "TIMER_CAL_US = 10000"

datatype timer_source_t = TIMER_SRC_NONE | TIMER_SRC_TSC_DEADLINE | TIMER_SRC_LAPIC

record timer_state = lapic_state +
  g_src :: timer_source_t
  g_vector :: u8
  g_tick_num :: u64
  g_tick_den :: u64
  g_scale :: u64
  g_scale_shift :: u32

section \<open>Arithmetic\<close>

text \<open>\<open>mul\<close> yields the low and the high half; \<open>div\<close> the quotient of \<open>hi:lo\<close>, which fits when \<open>hi < d\<close>.\<close>

definition mul128 :: "u64 \<Rightarrow> u64 \<Rightarrow> u64 \<times> u64" where
  "mul128 a b = (let p = unat a * unat b in (of_nat p, of_nat (p div 2 ^ 64)))"

definition div128 :: "u64 \<Rightarrow> u64 \<Rightarrow> u64 \<Rightarrow> u64" where
  "div128 hi lo d = of_nat ((unat hi * 2 ^ 64 + unat lo) div unat d)"

definition mul_u64_div_u64 :: "u64 \<Rightarrow> u64 \<Rightarrow> u64 \<Rightarrow> u64" where
  "mul_u64_div_u64 a b d =
     (if d = 0 then 0
      else
        (let (lo, hi) = mul128 a b
         in if hi \<ge> d then 0xffffffffffffffff else div128 hi lo d))"

definition timer_set_scale :: "u64 \<Rightarrow> u64 \<Rightarrow> 'a timer_state_scheme \<Rightarrow> 'a timer_state_scheme" where
  "timer_set_scale num den s =
     (let s = s\<lparr>g_scale_shift := 32\<rparr>
      in s\<lparr>g_scale := mul_u64_div_u64 num (push_bit (unat (g_scale_shift s)) 1) den\<rparr>)"

definition ticks_from_ns :: "'a timer_state_scheme \<Rightarrow> u64 \<Rightarrow> u64" where
  "ticks_from_ns s ns =
     (if g_scale s = 0 then 0
      else (let (lo, hi) = mul128 ns (g_scale s) in push_bit 32 hi OR drop_bit 32 lo))"

section \<open>Processor features\<close>

definition cpu_has_tsc_deadline :: "devices \<Rightarrow> u32" where
  "cpu_has_tsc_deadline d = drop_bit 24 (r_ecx (cpuid d 1 0)) AND 1"

definition cpu_has_invariant_tsc :: "devices \<Rightarrow> u32" where
  "cpu_has_invariant_tsc d =
     (if cpuid_max_ext_leaf d < 0x80000007 then 0
      else drop_bit 8 (r_edx (cpuid d 0x80000007 0)) AND 1)"

definition tsc_hz_from_leaf_16 :: "devices \<Rightarrow> u64" where
  "tsc_hz_from_leaf_16 d =
     (let r16 = cpuid d 0x16 0 in if r_eax r16 \<noteq> 0 then ucast (r_eax r16) * 1000000 else 0)"

definition tsc_hz_from_cpuid :: "devices \<Rightarrow> u64" where
  "tsc_hz_from_cpuid d =
     (let maxl = cpuid_max_leaf d;
          r15 = cpuid d 0x15 0;
          crystal = ucast (r_ecx r15) :: u64;
          rest = (if maxl \<ge> 0x16 then tsc_hz_from_leaf_16 d else 0)
      in if maxl \<ge> 0x15 \<and> r_eax r15 \<noteq> 0 \<and> r_ebx r15 \<noteq> 0
         then if crystal = 0 \<and> maxl \<ge> 0x16 then tsc_hz_from_leaf_16 d
              else if crystal \<noteq> 0 then (crystal * ucast (r_ebx r15)) div ucast (r_eax r15)
              else rest
         else rest)"

section \<open>Operations\<close>

definition rdtsc_ordered :: "devices \<Rightarrow> 'a machine_scheme \<Rightarrow> u64 \<times> 'a machine_scheme" where
  "rdtsc_ordered d s = rdtsc d s"

definition tsc_hz_calibrate_pit :: "devices \<Rightarrow> u32 \<Rightarrow> 'a machine_scheme \<Rightarrow> (u64 \<times> 'a machine_scheme) option" where
  "tsc_hz_calibrate_pit d pit_us s =
     (if pit_us = 0 then Some (0, s)
      else
        (let s = pit_oneshot_us pit_us s;
             (start, s) = rdtsc_ordered d s
         in do {
           s \<leftarrow> pit_wait d s;
           let (stop, s) = rdtsc_ordered d s;
           let delta = stop - start;
           Some ((delta * 1000000) div ucast pit_us, s)
         }))"

definition timer_source :: "'a timer_state_scheme \<Rightarrow> timer_source_t" where
  "timer_source s = g_src s"

definition timer_vector :: "'a timer_state_scheme \<Rightarrow> u8" where
  "timer_vector s = g_vector s"

definition timer_stop :: "'a timer_state_scheme \<Rightarrow> 'a timer_state_scheme" where
  "timer_stop s =
     (if g_src s = TIMER_SRC_TSC_DEADLINE then lapic_timer_stop (wrmsr IA32_TSC_DEADLINE 0 s)
      else if g_src s = TIMER_SRC_LAPIC then lapic_timer_stop s
      else s)"

text \<open>The part of \<open>timer_init\<close> behind the feature checks.\<close>

definition timer_start_source ::
    "devices \<Rightarrow> u8 \<Rightarrow> u64 \<Rightarrow> 'a timer_state_scheme \<Rightarrow> (int \<times> 'a timer_state_scheme) option" where
  "timer_start_source d vector tsc_hz s =
     (if cpu_has_tsc_deadline d \<noteq> 0
      then
        (let s = s\<lparr>g_src := TIMER_SRC_TSC_DEADLINE\<rparr>;
             s = s\<lparr>g_tick_num := tsc_hz\<rparr>;
             s = s\<lparr>g_tick_den := 1000000000\<rparr>;
             s = timer_set_scale (g_tick_num s) (g_tick_den s) s;
             s = lapic_timer_set_tsc_deadline vector s
         in Some (0, timer_stop s))
      else
        (let s = lapic_timer_set_oneshot vector s
         in do {
           (tpu, s) \<leftarrow> lapic_timer_calibrate_tsc d tsc_hz TIMER_CAL_US s;
           if tpu = 0 then Some (- 1, s)
           else
             (let s = s\<lparr>g_src := TIMER_SRC_LAPIC\<rparr>;
                  s = s\<lparr>g_tick_num := ucast tpu * 1000\<rparr>;
                  s = s\<lparr>g_tick_den := 1000000000\<rparr>;
                  s = timer_set_scale (g_tick_num s) (g_tick_den s) s
              in Some (0, timer_stop s))
         }))"

definition timer_init ::
    "devices \<Rightarrow> u8 \<Rightarrow> 'a timer_state_scheme \<Rightarrow> (int \<times> 'a timer_state_scheme) option" where
  "timer_init d vector s =
     (let s = s\<lparr>g_vector := vector\<rparr>
      in do {
        s \<leftarrow> lapic_init s;
        if cpu_has_invariant_tsc d = 0 then Some (- 1, s)
        else do {
          let tsc_hz = tsc_hz_from_cpuid d;
          (tsc_hz, s) \<leftarrow> (if tsc_hz = 0 then tsc_hz_calibrate_pit d TIMER_CAL_US s
                          else Some (tsc_hz, s));
          if tsc_hz = 0 then Some (- 1, s)
          else timer_start_source d vector tsc_hz s
        }
      })"

definition timer_oneshot_ns :: "devices \<Rightarrow> u64 \<Rightarrow> 'a timer_state_scheme \<Rightarrow> 'a timer_state_scheme" where
  "timer_oneshot_ns d ns s =
     (if g_tick_num s = 0 \<or> g_scale s = 0 then s
      else
        (let ticks = ticks_from_ns s ns;
             ticks = (if ticks = 0 then 1 else ticks)
         in if g_src s = TIMER_SRC_TSC_DEADLINE
            then
              (let s = lapic_timer_set_tsc_deadline (g_vector s) s;
                   (now, s) = rdtsc_ordered d s
               in wrmsr IA32_TSC_DEADLINE (now + ticks) s)
            else if g_src s = TIMER_SRC_LAPIC
            then
              (let ticks = (if ticks > 0xffffffff then 0xffffffff else ticks)
               in lapic_timer_oneshot (ucast ticks) s)
            else s))"

definition timer_now_ns :: "devices \<Rightarrow> 'a timer_state_scheme \<Rightarrow> u64 \<times> 'a timer_state_scheme" where
  "timer_now_ns d s =
     (if g_tick_num s = 0 then (0, s)
      else
        (let (tsc, s) = rdtsc_ordered d s
         in (mul_u64_div_u64 tsc (g_tick_den s) (g_tick_num s), s)))"


section \<open>The arithmetic is exact\<close>

lemma mul128_halves:
  assumes "mul128 a b = (lo, hi)"
  shows "unat lo = unat a * unat b mod 2 ^ 64" "unat hi = unat a * unat b div 2 ^ 64"
proof -
  have "unat a * unat b < 2 ^ 64 * 2 ^ 64"
    using unat_less_u64 [of a] unat_less_u64 [of b] by (intro mult_strict_mono) simp_all
  then have "unat a * unat b div 2 ^ 64 < 2 ^ 64" by (simp add: div_less_iff_less_mult)
  then show "unat hi = unat a * unat b div 2 ^ 64"
    using assms by (auto simp: mul128_def Let_def unat_of_nat_u64)
  show "unat lo = unat a * unat b mod 2 ^ 64"
    using assms by (auto simp: mul128_def Let_def unat_word_ariths)
qed

lemma div_ge_2_64: "0 < d \<Longrightarrow> d \<le> p div 2 ^ 64 \<longleftrightarrow> 2 ^ 64 \<le> p div d" for d p :: nat
  by (simp add: less_eq_div_iff_mult_less_eq mult.commute)

lemma unat_mul_u64_div_u64:
  "unat (mul_u64_div_u64 a b d) =
    (if unat d = 0 then 0 else min (2 ^ 64 - 1) (unat a * unat b div unat d))"
proof (cases "d = 0")
  case False
  then have d: "0 < unat d" by (simp add: unat_gt_0)
  obtain lo hi where m: "mul128 a b = (lo, hi)" by fastforce
  note halves = mul128_halves [OF m]
  have p: "unat hi * 2 ^ 64 + unat lo = unat a * unat b"
    unfolding halves by (rule div_mult_mod_eq)
  have ge: "d \<le> hi \<longleftrightarrow> 2 ^ 64 \<le> unat a * unat b div unat d"
    unfolding word_le_nat_alt halves by (rule div_ge_2_64 [OF d])
  show ?thesis
  proof (cases "d \<le> hi")
    case True
    then show ?thesis using d ge False by (simp add: mul_u64_div_u64_def m)
  next
    case False
    then have "unat a * unat b div unat d < 2 ^ 64" using ge by simp
    moreover have "mul_u64_div_u64 a b d = of_nat (unat a * unat b div unat d)"
      using False \<open>d \<noteq> 0\<close> unfolding mul_u64_div_u64_def m div128_def prod.case Let_def p by simp
    ultimately show ?thesis using d by (simp add: unat_of_nat_u64)
  qed
qed (simp add: mul_u64_div_u64_def)

text \<open>
  C22: The multiply-and-divide routine computes the mathematical quotient for all operands, saturating
  where it does not fit 64 bits and 0 for a zero divisor; the high half of the product is
  below the divisor whenever the division instruction runs, so that never faults.
\<close>

theorem mul_u64_div_u64_saturates:
  "unat (mul_u64_div_u64 a b d) =
      (if unat d = 0 then 0 else min (2 ^ 64 - 1) (unat a * unat b div unat d)) \<and>
   (d = 0 \<or> d \<le> snd (mul128 a b) \<or> mul_u64_div_u64 a b d = div128 (snd (mul128 a b)) (fst (mul128 a b)) d)"
  using unat_mul_u64_div_u64 [of a b d]
  by (simp add: mul_u64_div_u64_def case_prod_beta)

lemma high_low_shift: "push_bit 32 hi OR drop_bit 32 lo = push_bit 32 hi + drop_bit 32 lo"
  for hi lo :: u64
proof -
  have "push_bit 32 hi AND drop_bit 32 lo = 0"
    by (rule bit_word_eqI) (auto simp: bit_simps dest: bit_imp_le_length)
  then show ?thesis by (rule disjunctive_add_eq_or [symmetric])
qed

lemma ticks_from_ns_value:
  "unat (ticks_from_ns s ns) = unat ns * unat (g_scale s) div 2 ^ 32 mod 2 ^ 64"
proof (cases "g_scale s = 0")
  case False
  obtain lo hi where m: "mul128 ns (g_scale s) = (lo, hi)" by fastforce
  let ?p = "unat ns * unat (g_scale s)"
  note h = mul128_halves [OF m]
  have "push_bit 32 hi = of_nat (2 ^ 32 * (?p div 2 ^ 64))"
    unfolding h(2) [symmetric] by (simp add: push_bit_eq_mult)
  moreover have "drop_bit 32 lo = of_nat (?p mod 2 ^ 64 div 2 ^ 32)"
    unfolding h(1) [symmetric] unat_drop_bit [of 32 lo, symmetric] by simp
  ultimately have "ticks_from_ns s ns = of_nat (2 ^ 32 * (?p div 2 ^ 64) + ?p mod 2 ^ 64 div 2 ^ 32)"
    using False by (simp add: ticks_from_ns_def m high_low_shift)
  also have "2 ^ 32 * (?p div 2 ^ 64) + ?p mod 2 ^ 64 div 2 ^ 32 = ?p div 2 ^ 32"
  proof -
    have "(2 :: nat) ^ 64 = 2 ^ 32 * 2 ^ 32" by simp
    then have "?p mod 2 ^ 64 = 2 ^ 32 * (?p div 2 ^ 32 mod 2 ^ 32) + ?p mod 2 ^ 32"
      by (metis mod_mult2_eq)
    moreover have "?p div 2 ^ 64 = ?p div 2 ^ 32 div 2 ^ 32"
      by (simp add: div_mult2_eq [symmetric])
    ultimately show ?thesis by simp
  qed
  finally show ?thesis by (simp add: unat_of_nat take_bit_eq_mod)
qed (simp add: ticks_from_ns_def)


section \<open>The scale\<close>

text \<open>The scale in use is the one for the given ticks per \<open>10 ^ 9\<close> nanoseconds.\<close>

definition scale_for :: "u64 \<Rightarrow> 'a timer_state_scheme \<Rightarrow> bool" where
  "scale_for hz s \<longleftrightarrow> g_tick_num s = hz \<and> g_tick_den s = 1000000000 \<and>
     unat (g_scale s) = min (2 ^ 64 - 1) (unat hz * 2 ^ 32 div 1000000000)"

lemma scale_for_set: "scale_for hz (timer_set_scale hz 1000000000 (s\<lparr>g_tick_num := hz, g_tick_den := 1000000000\<rparr>))"
  by (simp add: scale_for_def timer_set_scale_def unat_mul_u64_div_u64)

text \<open>Fixed-point conversion: never above the exact value, and less than one unit per \<open>2 ^ 32\<close>
  nanoseconds, plus one, below it.\<close>

lemma fixed_point_bounds:
  fixes n h e :: nat
  assumes "0 < e"
  defines "q \<equiv> h * 2 ^ 32 div e"
  shows "n * q div 2 ^ 32 \<le> n * h div e" "n * h div e \<le> n * q div 2 ^ 32 + n div 2 ^ 32 + 1"
proof -
  define r where "r = h * 2 ^ 32 mod e"
  have h: "h * 2 ^ 32 = q * e + r" and r: "r < e"
    using assms(1) by (simp_all add: q_def r_def)
  have nh: "n * h * 2 ^ 32 = n * q * e + n * r"
    unfolding mult.assoc h by (simp add: distrib_left)
  show "n * q div 2 ^ 32 \<le> n * h div e"
  proof -
    have "n * q div 2 ^ 32 * e * 2 ^ 32 \<le> n * q * e"
      using div_times_less_eq_dividend [of "n * q" "2 ^ 32"] by (simp add: ac_simps mult_le_mono)
    also have "\<dots> \<le> n * h * 2 ^ 32" unfolding nh by simp
    finally have "n * q div 2 ^ 32 * e \<le> n * h" by simp
    then show ?thesis using assms(1) by (simp add: less_eq_div_iff_mult_less_eq)
  qed
  have "n * h * 2 ^ 32 \<le> (n * q + n) * e"
    unfolding nh using r by (simp add: distrib_right mult_le_mono less_imp_le)
  then have "n * h div e * e * 2 ^ 32 \<le> (n * q + n) * e"
    using div_times_less_eq_dividend [of "n * h" e] by (meson le_trans mult_le_mono1)
  then have "n * h div e * 2 ^ 32 \<le> n * q + n"
    using assms(1) by (metis mult.assoc mult.commute mult_le_cancel2)
  then have "n * h div e \<le> (n * q + n) div 2 ^ 32"
    by (simp add: less_eq_div_iff_mult_less_eq)
  also have "\<dots> \<le> n * q div 2 ^ 32 + n div 2 ^ 32 + 1"
    by (simp add: div_add1_eq [of "n * q" n])
  finally show "n * h div e \<le> n * q div 2 ^ 32 + n div 2 ^ 32 + 1" .
qed

lemma ticks_bounds:
  assumes "scale_for hz s" and small: "unat ns * unat hz < 2 ^ 64 * 1000000000" and "unat hz < 2 ^ 61"
  shows "unat (ticks_from_ns s ns) \<le> unat ns * unat hz div 1000000000"
    "unat ns * unat hz div 1000000000 \<le> unat (ticks_from_ns s ns) + unat ns div 2 ^ 32 + 1"
proof -
  let ?q = "unat hz * 2 ^ 32 div 1000000000"
  have "?q \<le> 2 ^ 64 - 1" using assms(3) by simp
  then have g: "unat (g_scale s) = ?q" using assms(1) by (simp add: scale_for_def)
  note b = fixed_point_bounds [of 1000000000 "unat ns" "unat hz"]
  have "unat ns * unat hz div 1000000000 < 2 ^ 64" using small by (simp add: div_less_iff_less_mult)
  then have "unat ns * ?q div 2 ^ 32 < 2 ^ 64" using b(1) by simp
  then have "unat (ticks_from_ns s ns) = unat ns * ?q div 2 ^ 32"
    unfolding ticks_from_ns_value g by simp
  then show "unat (ticks_from_ns s ns) \<le> unat ns * unat hz div 1000000000"
    "unat ns * unat hz div 1000000000 \<le> unat (ticks_from_ns s ns) + unat ns div 2 ^ 32 + 1"
    using b by simp_all
qed

section \<open>Arming the timer\<close>

text \<open>
  C23: In TSC-deadline mode \<open>timer_oneshot_ns\<close> writes a deadline that lies the requested time after the
  reading of the counter, rounded down by at most one tick per \<open>2 ^ 32\<close> nanoseconds plus one and
  never less than one tick, with the timer unmasked on the vector of the kernel.
\<close>

theorem timer_oneshot_deadline:
  assumes "scale_for hz s" "g_src s = TIMER_SRC_TSC_DEADLINE" "1000000000 \<le> unat hz * 2 ^ 32" "unat hz < 2 ^ 61"
    and "unat ns * unat hz < 2 ^ 64 * 1000000000" "timer_oneshot_ns d ns s = t"
  shows "\<exists>now ticks. msrs t IA32_TSC_DEADLINE = now + ticks \<and>
    trace t = trace s @ [EvMmioW32 (g_lapic_base s + 0x3e0) 3,
      EvMmioW32 (g_lapic_base s + 0x320) (ucast (g_vector s) OR 0x40000),
      EvMmioW32 (g_lapic_base s + 0x380) 0, EvTsc now, EvWrmsr IA32_TSC_DEADLINE (now + ticks)] \<and>
    1 \<le> unat ticks \<and> unat ticks \<le> max 1 (unat ns * unat hz div 1000000000) \<and>
    unat ns * unat hz div 1000000000 \<le> unat ticks + unat ns div 2 ^ 32 + 1"
proof -
  define k where "k = (if ticks_from_ns s ns = 0 then 1 else ticks_from_ns s ns)"
  define u where "u = lapic_timer_set_tsc_deadline (g_vector s) s"
  let ?now = "tsc_in d (trace u)"
  have "hz \<noteq> 0" using assms(3) by auto
  moreover have "0 < unat hz * 2 ^ 32 div 1000000000" using assms(3) by (simp add: div_greater_zero_iff)
  ultimately have "g_tick_num s \<noteq> 0" "g_scale s \<noteq> 0"
    using assms(1) by (auto simp: scale_for_def)
  then have t: "t = wrmsr IA32_TSC_DEADLINE (?now + k) (emit (EvTsc ?now) u)"
    using assms(2,6) by (auto simp: timer_oneshot_ns_def Let_def k_def u_def rdtsc_ordered_def rdtsc_def)
  have "1 \<le> unat k" "unat k \<le> max 1 (unat ns * unat hz div 1000000000)"
    "unat ns * unat hz div 1000000000 \<le> unat k + unat ns div 2 ^ 32 + 1"
    using ticks_bounds [OF assms(1,5,4)]
    by (auto simp: k_def Suc_le_eq unat_gt_0)
  moreover have "trace u = trace s @ [EvMmioW32 (g_lapic_base s + 0x3e0) 3,
      EvMmioW32 (g_lapic_base s + 0x320) (ucast (g_vector s) OR 0x40000),
      EvMmioW32 (g_lapic_base s + 0x380) 0]"
    by (simp add: u_def lapic_timer_set_tsc_deadline_def Let_def lapic_write_trace frame_simps
        lapic_reg_defs lapic_bit_defs)
  ultimately show ?thesis
    by (intro exI [of _ ?now] exI [of _ k]) (simp add: t wrmsr_def emit_def)
qed


text \<open>
  C39: When the timer runs on the local controller the scale is a thousand times too small: a request
  for \<open>ns\<close> nanoseconds at \<open>tpu\<close> ticks per microsecond, which takes \<open>ns * tpu div 1000\<close> ticks, starts
  the count at no more than \<open>ns * tpu div 1000000\<close>.
\<close>

theorem timer_lapic_mode_too_early:
  fixes tpu :: u32
  assumes "scale_for (ucast tpu * 1000) s" "g_src s = TIMER_SRC_LAPIC" "timer_ready s" "tpu \<noteq> 0"
    and "unat ns * (unat tpu * 1000) < 2 ^ 64 * 1000000000" "timer_oneshot_ns d ns s = t"
  shows "\<exists>n. timer_count t = Some n \<and> timer_lvt t = Some (ucast (g_timer_vector s)) \<and>
    unat n \<le> max 1 (unat ns * unat tpu div 1000000)"
proof -
  have tpu: "unat tpu < 2 ^ 32" "0 < unat tpu" using unsigned_less [of tpu] assms(4) by (simp_all add: unat_gt_0)
  have hz: "unat (ucast tpu * 1000 :: u64) = unat tpu * 1000"
    using tpu(1) by (subst unat_mult_no_wrap) (simp_all add: unat_ucast_up)
  have "0 < unat tpu * 1000 * 2 ^ 32 div 1000000000" using tpu by (simp add: div_greater_zero_iff)
  then have nz: "g_tick_num s \<noteq> 0" "g_scale s \<noteq> 0"
    using assms(1) hz tpu(2) by (auto simp: scale_for_def)
  define n where "n = (let k = ticks_from_ns s ns; k = (if k = 0 then 1 else k)
    in ucast (if k > 0xffffffff then 0xffffffff else k) :: u32)"
  have "unat ns * (unat tpu * 1000) div 1000000000 = unat ns * unat tpu div 1000000"
    using div_mult_mult1 [of 1000 "unat ns * unat tpu" 1000000] by (simp add: ac_simps)
  then have le: "unat (ticks_from_ns s ns) \<le> unat ns * unat tpu div 1000000"
    using ticks_bounds(1) [OF assms(1)] assms(5) tpu(1) by (simp add: hz)
  have small: "unat (ucast k :: u32) = unat k" if "k \<le> 0xffffffff" for k :: u64
    using that by (simp add: unsigned_ucast_eq take_bit_nat_eq_self word_le_nat_alt)
  have "unat n \<le> max 1 (unat (ticks_from_ns s ns))"
    using small [of "ticks_from_ns s ns"]
    by (auto simp: n_def Let_def not_less word_less_nat_alt word_le_nat_alt)
  with le have bound: "unat n \<le> max 1 (unat ns * unat tpu div 1000000)" by simp
  have t: "t = lapic_timer_oneshot n s"
    using assms(2,6) nz by (auto simp: timer_oneshot_ns_def Let_def n_def)
  have "0 < unat n"
    using small [of "ticks_from_ns s ns"] by (auto simp: n_def Let_def not_less unat_eq_zero simp flip: unat_gt_0)
  then show ?thesis
    using bound lapic_timer_oneshot_regs [OF assms(3), of n] unfolding t by auto
qed

lemma timer_now_clock:
  fixes s t :: "'a timer_state_scheme"
  assumes "tsc_clock clk d" "g_tick_num s \<noteq> 0"
    and "g_tick_num t = g_tick_num s" "g_tick_den t = g_tick_den s" "trace t = trace s @ es"
    and "clk (trace t) < 2 ^ 64"
  shows "unat (fst (timer_now_ns d s)) =
      min (2 ^ 64 - 1) (clk (trace s) * unat (g_tick_den s) div unat (g_tick_num s)) \<and>
    fst (timer_now_ns d s) \<le> fst (timer_now_ns d t)"
proof -
  have now: "unat (fst (timer_now_ns d u)) =
      min (2 ^ 64 - 1) (clk (trace u) * unat (g_tick_den u) div unat (g_tick_num u))"
    if "clk (trace u) < 2 ^ 64" "g_tick_num u \<noteq> 0" for u :: "'a timer_state_scheme"
    using that by (simp add: timer_now_ns_def Let_def rdtsc_ordered_def rdtsc_def emit_def unat_mul_u64_div_u64
        tsc_clockD(1) [OF assms(1)] unat_of_nat_u64 unat_eq_zero)
  have le: "clk (trace s) \<le> clk (trace t)" using tsc_clock_mono [OF assms(1)] assms(5) by simp
  then have "clk (trace s) * unat (g_tick_den s) div unat (g_tick_num s) \<le>
      clk (trace t) * unat (g_tick_den s) div unat (g_tick_num s)"
    by (intro div_le_mono mult_le_mono1)
  then show ?thesis
    using now [of s] now [of t] le assms(2-4,6) by (simp add: word_le_nat_alt)
qed


text \<open>
  C38: With a running time-stamp counter \<open>timer_now_ns\<close> reads the quotient of the counter, saturating at
  the largest value, and does not run backwards: a later reading is not smaller, as long as the
  counter itself has not wrapped.
\<close>

theorem timer_now_monotone:
  fixes s t :: "'a timer_state_scheme"
  assumes "tsc_clock clk d" "g_tick_num s \<noteq> 0"
    and "g_tick_num t = g_tick_num s" "g_tick_den t = g_tick_den s" "trace t = trace s @ es"
    and "clk (trace t) < 2 ^ 64"
  shows "unat (fst (timer_now_ns d s)) =
      min (2 ^ 64 - 1) (clk (trace s) * unat (g_tick_den s) div unat (g_tick_num s)) \<and>
    fst (timer_now_ns d s) \<le> fst (timer_now_ns d t)"
  by (rule timer_now_clock [OF assms])

section \<open>Choosing a source\<close>

lemma timer_stop_spec:
  "g_src s \<noteq> TIMER_SRC_NONE \<Longrightarrow> timer_ready s \<Longrightarrow>
    timer_lvt (timer_stop s) = Some (ucast (g_timer_vector s) OR LAPIC_LVT_MASK) \<and>
    timer_count (timer_stop s) = Some 0"
  "g_src s = TIMER_SRC_TSC_DEADLINE \<Longrightarrow> msrs (timer_stop s) IA32_TSC_DEADLINE = 0"
  "lapic_state.more (timer_stop s) = lapic_state.more s" "g_lapic_base (timer_stop s) = g_lapic_base s"
  "g_timer_vector (timer_stop s) = g_timer_vector s"
  by (cases "g_src s"; simp add: timer_stop_def lapic_timer_stop_regs frame_simps timer_ready_def)+

text \<open>The fields of the timer itself.\<close>

lemma timer_fields:
  assumes "lapic_state.more t = lapic_state.more s"
  shows "g_src t = g_src s" "g_vector t = g_vector s" "g_tick_num t = g_tick_num s"
    "g_tick_den t = g_tick_den s" "g_scale t = g_scale s" "scale_for hz t = scale_for hz s"
  using assms by (cases s; cases t; simp add: scale_for_def)+

lemma timer_start_source_cases:
  fixes s :: "'a timer_state_scheme"
  assumes clk: "tsc_clock clk d" and hz: "hz \<noteq> 0"
  shows "\<exists>rc t. timer_start_source d vector hz s = Some (rc, t) \<and> g_vector t = g_vector s \<and>
    (if cpu_has_tsc_deadline d \<noteq> 0
     then rc = 0 \<and> g_src t = TIMER_SRC_TSC_DEADLINE \<and> scale_for hz t \<and> msrs t IA32_TSC_DEADLINE = 0
     else if g_lapic_base s = 0 \<or> vector = 0 then rc = -1 \<and> g_src t = g_src s
     else rc = 0 \<and> g_src t = TIMER_SRC_LAPIC \<and> (\<exists>tpu :: u32. tpu \<noteq> 0 \<and> scale_for (ucast tpu * 1000) t)) \<and>
    (rc = 0 \<longrightarrow> g_timer_vector t = vector \<and> (timer_ready t \<longrightarrow>
       timer_lvt t = Some (ucast vector OR LAPIC_LVT_MASK) \<and> timer_count t = Some 0)) \<and>
    g_lapic_base t = g_lapic_base s"
proof (cases "cpu_has_tsc_deadline d = 0")
  case False
  let ?u = "timer_set_scale hz 1000000000 (s\<lparr>g_src := TIMER_SRC_TSC_DEADLINE, g_tick_num := hz, g_tick_den := 1000000000\<rparr>)"
  let ?v = "lapic_timer_set_tsc_deadline vector ?u"
  have u: "g_src ?u = TIMER_SRC_TSC_DEADLINE" "g_vector ?u = g_vector s" "scale_for hz ?u"
    using scale_for_set [of hz "s\<lparr>g_src := TIMER_SRC_TSC_DEADLINE\<rparr>"]
    by (simp_all add: timer_set_scale_def)
  note f = timer_fields [OF lapic_timer_set_regs(12) [of vector ?u]]
  note g = timer_fields [OF timer_stop_spec(3) [of ?v]]
  have src: "g_src ?v = TIMER_SRC_TSC_DEADLINE" using f(1) u(1) by simp
  have "timer_start_source d vector hz s = Some (0, timer_stop ?v)"
    using False by (simp add: timer_start_source_def Let_def timer_set_scale_def)
  moreover have "timer_ready (timer_stop ?v) = timer_ready ?v"
    by (simp add: timer_ready_def timer_stop_spec)
  moreover have "g_lapic_base ?v = g_lapic_base s" "g_timer_vector ?v = vector"
    by (simp_all add: lapic_timer_set_regs) (simp add: timer_set_scale_def)
  ultimately show ?thesis
    using False f g u src timer_stop_spec(1,2) [of ?v] by (simp add: timer_stop_spec(4,5))
next
  case True
  let ?u = "lapic_timer_set_oneshot vector s"
  note f = timer_fields [OF lapic_timer_set_regs(11) [of vector s]]
  show ?thesis
  proof (cases "g_lapic_base s = 0 \<or> vector = 0")
    case none: True
    then have "timer_start_source d vector hz s = Some (- 1, ?u)"
      using True by (auto simp: timer_start_source_def Let_def lapic_timer_calibrate_tsc_def lapic_timer_set_regs)
    then show ?thesis using True none f by (simp add: lapic_timer_set_regs)
  next
    case False
    then have "timer_ready ?u" by (simp add: timer_ready_def lapic_timer_set_regs)
    moreover have us: "TIMER_CAL_US \<noteq> 0" by (simp add: TIMER_CAL_US_def)
    ultimately obtain h v tpu where v: "lapic_timer_calibrate_tsc d hz TIMER_CAL_US ?u = Some (tpu, v)"
      "1 \<le> unat tpu" "lapic_state.more v = lapic_state.more ?u" "g_lapic_base v = g_lapic_base ?u"
      "g_timer_vector v = g_timer_vector ?u"
      using lapic_calibrate_tsc_spec [OF clk _ hz us, of ?u] by (metis max.cobounded1)
    let ?w = "timer_set_scale (ucast tpu * 1000) 1000000000
      (v\<lparr>g_src := TIMER_SRC_LAPIC, g_tick_num := ucast tpu * 1000, g_tick_den := 1000000000\<rparr>)"
    have tpu: "tpu \<noteq> 0" using v(2) by auto
    have w: "g_src ?w = TIMER_SRC_LAPIC" "g_vector ?w = g_vector s" "scale_for (ucast tpu * 1000) ?w"
      "g_lapic_base ?w = g_lapic_base s" "g_timer_vector ?w = vector"
      using scale_for_set [of "ucast tpu * 1000" "v\<lparr>g_src := TIMER_SRC_LAPIC\<rparr>"] v(3-5)
        timer_fields(2) [OF v(3)] f(2)
      by (simp_all add: timer_set_scale_def lapic_timer_set_regs)
    note g = timer_fields [OF timer_stop_spec(3) [of ?w]]
    have "timer_start_source d vector hz s = Some (0, timer_stop ?w)"
      using True v(1) tpu by (simp add: timer_start_source_def Let_def timer_set_scale_def)
    then show ?thesis
      using True False g w tpu timer_stop_spec(1) [of ?w] by (auto simp: timer_stop_spec(4,5) timer_ready_def)
  qed
qed


text \<open>
  The frequency where \<open>cpuid\<close> does not tell it: what the counter gains while channel 0 of the interval
  timer counts down, per ten milliseconds.
\<close>

definition measured_hz :: "(history \<Rightarrow> nat) \<Rightarrow> u64 \<Rightarrow> bool" where
  "measured_hz clk hz \<longleftrightarrow>
     (\<exists>h es. clk h < clk (h @ es) \<and> hz = of_nat (clk (h @ es) - clk h) * 1000000 div 10000)"

lemma tsc_hz_calibrate_pit_spec:
  assumes clk: "tsc_clock clk d" and pit: "pit_ends d"
  shows "\<exists>hz h. tsc_hz_calibrate_pit d TIMER_CAL_US s = Some (hz, s\<lparr>trace := h\<rparr>) \<and> measured_hz clk hz"
proof -
  define h where "h = trace (pit_oneshot_us TIMER_CAL_US s)"
  have h: "pit_oneshot_us TIMER_CAL_US s = s\<lparr>trace := h\<rparr>"
    by (simp add: h_def pit_oneshot_us_def Let_def outb_def emit_def)
  let ?h1 = "h @ [EvTsc (of_nat (clk h))]"
  obtain es where es: "pit_wait d (s\<lparr>trace := ?h1\<rparr>) = Some (s\<lparr>trace := ?h1 @ es\<rparr>)"
    using pit_wait_returns [OF pit, of "s\<lparr>trace := ?h1\<rparr>"] by auto
  let ?fs = "[EvTsc (of_nat (clk h))] @ es"
  have le: "clk h < clk (h @ ?fs)"
    using tsc_clockD(2) [OF clk, of h "EvTsc (of_nat (clk h))"] tsc_clock_mono [OF clk, of ?h1 es] by simp
  then have diff: "of_nat (clk (h @ ?fs) - clk h) = (of_nat (clk (h @ ?fs)) - of_nat (clk h) :: u64)"
    by (simp add: of_nat_diff)
  have "tsc_hz_calibrate_pit d TIMER_CAL_US s =
      Some (of_nat (clk (h @ ?fs) - clk h) * 1000000 div 10000,
        s\<lparr>trace := h @ ?fs @ [EvTsc (of_nat (clk (h @ ?fs)))]\<rparr>)"
    unfolding diff using es by (simp add: tsc_hz_calibrate_pit_def TIMER_CAL_US_def h [unfolded TIMER_CAL_US_def] rdtsc_ordered_def
        rdtsc_def Let_def emit_def tsc_clockD(1) [OF clk])
  then show ?thesis using le unfolding measured_hz_def by blast
qed


section \<open>Witnesses\<close>

text \<open>A processor at 2 GHz with an invariant time-stamp counter, with or without deadline mode.\<close>

definition demo_cpuid :: "u32 \<Rightarrow> u32 \<Rightarrow> u32 \<Rightarrow> cpuid_regs" where
  "demo_cpuid deadline leaf sub =
    (if leaf = 0 then \<lparr>r_eax = 0x16, r_ebx = 0, r_ecx = 0, r_edx = 0\<rparr>
     else if leaf = 1 then \<lparr>r_eax = 0, r_ebx = 0, r_ecx = deadline, r_edx = 0\<rparr>
     else if leaf = 0x15 then \<lparr>r_eax = 2, r_ebx = 160, r_ecx = 25000000, r_edx = 0\<rparr>
     else if leaf = 0x80000000 then \<lparr>r_eax = 0x80000008, r_ebx = 0, r_ecx = 0, r_edx = 0\<rparr>
     else if leaf = 0x80000007 then \<lparr>r_eax = 0, r_ebx = 0, r_ecx = 0, r_edx = 0x100\<rparr>
     else \<lparr>r_eax = 0, r_ebx = 0, r_ecx = 0, r_edx = 0\<rparr>)"

definition demo_cpu :: "u32 \<Rightarrow> devices" where
  "demo_cpu deadline = demo_devices\<lparr>cpuid_in := demo_cpuid deadline\<rparr>"

lemma demo_cpu_clock: "tsc_clock length (demo_cpu f)"
  unfolding demo_cpu_def by (rule demo_clock)

lemma demo_cpu_features:
  "tsc_hz_from_cpuid (demo_cpu f) = 2000000000" "cpu_has_invariant_tsc (demo_cpu f) = 1"
  "cpu_has_tsc_deadline (demo_cpu 0x1000000) = 1" "cpu_has_tsc_deadline (demo_cpu 0) = 0"
  by (simp_all add: tsc_hz_from_cpuid_def cpu_has_invariant_tsc_def cpu_has_tsc_deadline_def
      cpuid_max_leaf_def cpuid_max_ext_leaf_def cpuid_def demo_cpu_def demo_cpuid_def)

definition demo_timer :: "u64 \<Rightarrow> timer_source_t \<Rightarrow> u64 \<Rightarrow> timer_state" where
  "demo_timer base src hz = lapic_state.extend (demo_lapic base)
     (timer_state.fields src 240 hz 1000000000 (mul_u64_div_u64 hz 0x100000000 1000000000) 32)"

lemma demo_timer_fields:
  "g_lapic_base (demo_timer b src hz) = b" "g_timer_vector (demo_timer b src hz) = 240"
  "g_src (demo_timer b src hz) = src" "g_vector (demo_timer b src hz) = 240"
  "g_tick_num (demo_timer b src hz) = hz" "g_tick_den (demo_timer b src hz) = 1000000000"
  "trace (demo_timer b src hz) = []" "cr3 (demo_timer b src hz) = 0x5000"
  by (simp_all add: demo_timer_def timer_state.defs demo_defs)

lemma demo_timer_scale: "scale_for hz (demo_timer b src hz)"
  by (simp add: scale_for_def demo_timer_fields)
    (simp add: demo_timer_def timer_state.defs demo_defs unat_mul_u64_div_u64)

lemma demo_timer_space: "space_ok A (demo_timer b src hz) 0x5000"
proof -
  have "space_ok A (demo_timer b src hz) 0x5000 = space_ok A demo_vmm 0x5000"
    by (rule space_ok_fields) (simp_all add: demo_timer_def timer_state.defs demo_defs)
  then show ?thesis using demo_space_ok(1) by simp
qed

lemma demo_timer_free: "free_pages (demo_timer b src hz) = free_pages demo_vmm"
  by (rule tables_cong(4)) (simp_all add: demo_timer_def timer_state.defs demo_defs)

text \<open>The registers where processors have them.\<close>

abbreviation demo_unmapped :: timer_state where
  "demo_unmapped \<equiv> (demo_timer 0 TIMER_SRC_NONE 0)\<lparr>msrs := \<lambda>_. 0xfee00900\<rparr>"

lemma demo_unmapped_space: "space_ok A demo_unmapped 0x5000" "free_pages demo_unmapped = free_pages demo_vmm"
proof -
  have "space_ok A demo_unmapped 0x5000 = space_ok A (demo_timer 0 TIMER_SRC_NONE 0) 0x5000" by (rule space_ok_fields) simp_all
  then show "space_ok A demo_unmapped 0x5000" using demo_timer_space by blast
  show "free_pages demo_unmapped = free_pages demo_vmm"
    unfolding demo_timer_free [of 0 TIMER_SRC_NONE 0, symmetric] by (rule tables_cong(4)) simp_all
qed

lemma demo_timer_hhdm: "bi_hhdm_offset (g_boot_info (demo_timer b src hz)) = 0"
  by (simp add: demo_timer_def timer_state.defs demo_defs zero_boot_info_def)


theorem timer_oneshot_deadline_witness:
  "\<exists>now ticks t. timer_oneshot_ns (demo_cpu 0x1000000) 5000000
      (demo_timer 0xfee00000 TIMER_SRC_TSC_DEADLINE 2000000000) = t \<and>
    msrs t IA32_TSC_DEADLINE = now + ticks \<and> unat ticks \<le> 10000000 \<and> 9999999 \<le> unat ticks"
proof -
  from timer_oneshot_deadline [OF demo_timer_scale [of 2000000000 "0xfee00000" TIMER_SRC_TSC_DEADLINE],
      where ns = 5000000 and d = "demo_cpu 0x1000000"]
  show ?thesis by (force simp: demo_timer_fields)
qed

theorem timer_lapic_mode_too_early_witness:
  "\<exists>n. timer_count (timer_oneshot_ns (demo_cpu 0) 5000000 (demo_timer 0xfee00000 TIMER_SRC_LAPIC 100000)) =
    Some n \<and> unat n \<le> 500"
  using timer_lapic_mode_too_early [of 100 "demo_timer 0xfee00000 TIMER_SRC_LAPIC 100000" 5000000 "demo_cpu 0"]
    demo_timer_scale [of 100000 "0xfee00000" TIMER_SRC_LAPIC]
  by (auto simp: demo_timer_fields timer_ready_def)

theorem timer_now_monotone_witness:
  "fst (timer_now_ns (demo_cpu 0) (demo_timer 0 TIMER_SRC_NONE 7)) \<le>
    fst (timer_now_ns (demo_cpu 0) (emit EvPause (demo_timer 0 TIMER_SRC_NONE 7)))"
  using timer_now_monotone [OF demo_cpu_clock, of "demo_timer 0 TIMER_SRC_NONE 7"
      "emit EvPause (demo_timer 0 TIMER_SRC_NONE 7)" "[EvPause]" 0]
  by (simp add: demo_timer_fields emit_def)

end
