(* ===== verification/Sched.thy ===== *)
theory Sched
  imports Timer
begin

text \<open>
  The round-robin scheduler, \<open>kernel/core/sched.c\<close>. Threads are a typed heap indexed by address and
  linked in a ring; the sleep event of a thread lies in the same structure, 200 bytes behind its
  start, and is a node of the event heap. \<open>None\<close> is a run that never ends: \<open>pick_next\<close> follows
  the ring with no bound.
\<close>

section \<open>State\<close>

text \<open>\<open>isr_frame_t\<close> of \<open>regs.h\<close>.\<close>

record isr_frame =
  f_r15 :: u64
  f_r14 :: u64
  f_r13 :: u64
  f_r12 :: u64
  f_r11 :: u64
  f_r10 :: u64
  f_r9 :: u64
  f_r8 :: u64
  f_rdi :: u64
  f_rsi :: u64
  f_rbp :: u64
  f_rbx :: u64
  f_rdx :: u64
  f_rcx :: u64
  f_rax :: u64
  f_vector :: u64
  f_error :: u64
  f_rip :: u64
  f_cs :: u64
  f_rflags :: u64
  f_rsp :: u64
  f_ss :: u64

datatype thread_state = THREAD_READY | THREAD_RUNNING | THREAD_BLOCKED | THREAD_ZOMBIE

record thread =
  t_frame :: isr_frame
  kstack_top :: u64
  t_state :: thread_state
  t_next :: u64

record cpu_local =
  kernel_rsp :: u64
  user_rsp :: u64

record sched_state = timer_state +
  threads :: "u64 \<Rightarrow> thread"
  g_current :: u64
  g_quantum_ns :: u32
  g_slice_end_ns :: u64
  g_cpu_local :: cpu_local

text \<open>\<open>t->sleep_event\<close>: behind the frame, the stack, the state with its padding, and the link.\<close>

definition sleep_event :: "u64 \<Rightarrow> u64" where
  "sleep_event t = t + (22 * 8 + 8 + 8 + 8)"

definition set_thread :: "u64 \<Rightarrow> (thread \<Rightarrow> thread) \<Rightarrow> 'a sched_state_scheme \<Rightarrow> 'a sched_state_scheme" where
  "set_thread t f s = s\<lparr>threads := (threads s)(t := f (threads s t))\<rparr>"

section \<open>Operations\<close>

partial_function (option) pick_loop :: "u64 \<Rightarrow> 'a sched_state_scheme \<Rightarrow> u64 option" where
  "pick_loop t s =
     (if t \<noteq> g_current s \<and> t_state (threads s t) \<noteq> THREAD_READY
      then pick_loop (t_next (threads s t)) s
      else Some t)"

definition pick_next :: "'a sched_state_scheme \<Rightarrow> u64 option" where
  "pick_next s =
     do {
       t \<leftarrow> pick_loop (t_next (threads s (g_current s))) s;
       Some (if t_state (threads s t) = THREAD_READY then t else g_current s)
     }"

definition sched_next_deadline ::
    "u64 \<Rightarrow> 'a sched_state_scheme \<Rightarrow> (u64 \<times> 'a sched_state_scheme) option" where
  "sched_next_deadline now s =
     (let deadline = timerq_next_deadline s
      in do {
        other \<leftarrow> (if g_quantum_ns s \<noteq> 0 then do { n \<leftarrow> pick_next s; Some (n \<noteq> g_current s) }
                 else Some False);
        if other then
          (let s = (if g_slice_end_ns s = 0 \<or> g_slice_end_ns s \<le> now
                    then s\<lparr>g_slice_end_ns := now + ucast (g_quantum_ns s)\<rparr> else s);
               deadline = (if deadline = 0 \<or> g_slice_end_ns s < deadline then g_slice_end_ns s else deadline)
           in Some (deadline, s))
        else Some (deadline, s\<lparr>g_slice_end_ns := 0\<rparr>)
      })"

definition sched_arm_timer :: "devices \<Rightarrow> 'a sched_state_scheme \<Rightarrow> 'a sched_state_scheme option" where
  "sched_arm_timer d s =
     (if g_quantum_ns s = 0 \<and> timerq_next_deadline s = 0 then Some (timer_stop s)
      else
        (let (now, s) = timer_now_ns d s
         in do {
           (deadline, s) \<leftarrow> sched_next_deadline now s;
           if deadline = 0 then Some (timer_stop s)
           else (let delta = (if deadline > now then deadline - now else 1)
                 in Some (timer_oneshot_ns d delta s))
         }))"

definition zero_frame :: isr_frame where
  "zero_frame = \<lparr>f_r15 = 0, f_r14 = 0, f_r13 = 0, f_r12 = 0, f_r11 = 0, f_r10 = 0, f_r9 = 0, f_r8 = 0,
     f_rdi = 0, f_rsi = 0, f_rbp = 0, f_rbx = 0, f_rdx = 0, f_rcx = 0, f_rax = 0, f_vector = 0,
     f_error = 0, f_rip = 0, f_cs = 0, f_rflags = 0, f_rsp = 0, f_ss = 0\<rparr>"

text \<open>All bytes zero: \<open>THREAD_READY\<close> is the enumerator 0, links are NULL.\<close>

definition zero_thread :: "u64 \<Rightarrow> 'a sched_state_scheme \<Rightarrow> 'a sched_state_scheme" where
  "zero_thread t s =
     s\<lparr>threads := (threads s)(t := \<lparr>t_frame = zero_frame, kstack_top = 0, t_state = THREAD_READY, t_next = 0\<rparr>),
       events := (events s)(sleep_event t := \<lparr>deadline_ns = 0, cb = 0, cb_arg = 0, ev_next = 0\<rparr>)\<rparr>"

definition thread_init_user ::
    "u64 \<Rightarrow> u64 \<Rightarrow> u64 \<Rightarrow> u64 \<Rightarrow> 'a sched_state_scheme \<Rightarrow> 'a sched_state_scheme" where
  "thread_init_user t entry user_stack_top kstack s =
     (let s = zero_thread t s;
          s = set_thread t (\<lambda>th. th\<lparr>t_frame := (t_frame th)\<lparr>f_rip := entry\<rparr>\<rparr>) s;
          s = set_thread t (\<lambda>th. th\<lparr>t_frame := (t_frame th)\<lparr>f_cs := ucast USER_CS\<rparr>\<rparr>) s;
          s = set_thread t (\<lambda>th. th\<lparr>t_frame := (t_frame th)\<lparr>f_rflags := 0x202\<rparr>\<rparr>) s;
          s = set_thread t (\<lambda>th. th\<lparr>t_frame := (t_frame th)\<lparr>f_rsp := user_stack_top\<rparr>\<rparr>) s;
          s = set_thread t (\<lambda>th. th\<lparr>t_frame := (t_frame th)\<lparr>f_ss := ucast USER_DS\<rparr>\<rparr>) s;
          s = set_thread t (\<lambda>th. th\<lparr>kstack_top := kstack\<rparr>) s
      in set_thread t (\<lambda>th. th\<lparr>t_state := THREAD_READY\<rparr>) s)"

definition sched_init :: "u64 \<Rightarrow> 'a sched_state_scheme \<Rightarrow> 'a sched_state_scheme" where
  "sched_init bootstrap s =
     (let s = s\<lparr>g_current := bootstrap\<rparr>;
          s = set_thread bootstrap (\<lambda>th. th\<lparr>t_state := THREAD_RUNNING\<rparr>) s
      in set_thread bootstrap (\<lambda>th. th\<lparr>t_next := bootstrap\<rparr>) s)"

text \<open>The parameter is 64 bits wide, the variable 32.\<close>

definition sched_set_quantum_ns :: "devices \<Rightarrow> u64 \<Rightarrow> 'a sched_state_scheme \<Rightarrow> 'a sched_state_scheme option" where
  "sched_set_quantum_ns d ns s =
     (let s = s\<lparr>g_quantum_ns := ucast ns\<rparr>
      in if ns = 0 then Some (timer_stop s) else sched_arm_timer d s)"

definition sched_add :: "devices \<Rightarrow> u64 \<Rightarrow> 'a sched_state_scheme \<Rightarrow> 'a sched_state_scheme option" where
  "sched_add d t s =
     (if g_current s = 0 then Some (sched_init t s)
      else
        (let s = set_thread t (\<lambda>th. th\<lparr>t_next := t_next (threads s (g_current s))\<rparr>) s;
             s = set_thread (g_current s) (\<lambda>th. th\<lparr>t_next := t\<rparr>) s;
             s = s\<lparr>g_slice_end_ns := 0\<rparr>
         in sched_arm_timer d s))"

definition sched_start :: "devices \<Rightarrow> 'a sched_state_scheme \<Rightarrow> 'a sched_state_scheme option" where
  "sched_start d s = sched_arm_timer d s"

text \<open>The switch inside \<open>sched_on_tick\<close>, to the thread that was picked.\<close>

definition switch_to ::
    "u64 \<Rightarrow> isr_frame \<Rightarrow> 'a sched_state_scheme \<Rightarrow> isr_frame \<times> 'a sched_state_scheme" where
  "switch_to next frame s =
     (if next \<noteq> g_current s then
        (let s = set_thread (g_current s) (\<lambda>th. th\<lparr>t_state := THREAD_READY\<rparr>) s;
             s = set_thread next (\<lambda>th. th\<lparr>t_state := THREAD_RUNNING\<rparr>) s;
             s = s\<lparr>g_current := next\<rparr>;
             s = s\<lparr>g_cpu_local := (g_cpu_local s)\<lparr>kernel_rsp := kstack_top (threads s next)\<rparr>\<rparr>;
             s = gdt_set_kernel_stack (kstack_top (threads s next)) s
         in (t_frame (threads s next), s))
      else (frame, s))"

definition sched_on_tick ::
    "devices \<Rightarrow> (u64 \<Rightarrow> u64 \<Rightarrow> 'a sched_state_scheme \<Rightarrow> 'a sched_state_scheme option) \<Rightarrow> isr_frame \<Rightarrow>
      'a sched_state_scheme \<Rightarrow> (isr_frame \<times> 'a sched_state_scheme) option" where
  "sched_on_tick d run_cb frame s =
     (if g_current s = 0 then Some (frame, s)
      else
        (let (now, s) = timer_now_ns d s
         in do {
           s \<leftarrow> timerq_run_expired run_cb now s;
           if f_cs frame AND 3 \<noteq> 3 then do { s \<leftarrow> sched_arm_timer d s; Some (frame, s) }
           else if g_slice_end_ns s = 0 \<or> now < g_slice_end_ns s
           then do { s \<leftarrow> sched_arm_timer d s; Some (frame, s) }
           else do {
             let s = set_thread (g_current s) (\<lambda>th. th\<lparr>t_frame := frame\<rparr>) s;
             next \<leftarrow> pick_next s;
             let (frame, s) = switch_to next frame s;
             let s = s\<lparr>g_slice_end_ns := 0\<rparr>;
             s \<leftarrow> sched_arm_timer d s;
             Some (frame, s)
           }
         }))"


section \<open>What the timer leaves alone\<close>

text \<open>The part of the state the scheduler owns, and the timer queue.\<close>

definition sched_part where
  "sched_part s = (g_tss s, timer_state.more s)"

definition queue_part where
  "queue_part s = (g_head s, events s)"

lemma sched_partD:
  fixes s t :: "'a sched_state_scheme"
  assumes "sched_part t = sched_part s"
  shows "threads t = threads s" "g_current t = g_current s" "g_quantum_ns t = g_quantum_ns s"
    "g_slice_end_ns t = g_slice_end_ns s" "g_cpu_local t = g_cpu_local s" "g_tss t = g_tss s"
    "sched_state.more t = sched_state.more s"
  using assms by (cases s; cases t; simp add: sched_part_def)+

lemma timer_parts [frame_simps]:
  "sched_part (timer_stop s) = sched_part s" "queue_part (timer_stop s) = queue_part s"
  "sched_part (timer_oneshot_ns d ns s) = sched_part s"
  "queue_part (timer_oneshot_ns d ns s) = queue_part s"
  "sched_part (snd (timer_now_ns d s)) = sched_part s"
  "queue_part (snd (timer_now_ns d s)) = queue_part s"
  by (simp_all add: sched_part_def queue_part_def timer_stop_def timer_oneshot_ns_def timer_now_ns_def
      lapic_timer_stop_def lapic_timer_set_tsc_deadline_def lapic_timer_oneshot_def lapic_write_def
      mmio_write32_def wrmsr_def rdtsc_ordered_def rdtsc_def emit_def Let_def)

text \<open>A timer that was started stays started: its source and scale are left alone as well.\<close>

lemma queue_partD:
  assumes "queue_part t = queue_part s"
  shows "g_head t = g_head s" "events t = events s" "queued t = queued s"
    "timerq_next_deadline t = timerq_next_deadline s"
proof -
  show eq: "g_head t = g_head s" "events t = events s" using assms by (simp_all add: queue_part_def)
  show "queued t = queued s" "timerq_next_deadline t = timerq_next_deadline s"
    by (simp_all add: queued_def [abs_def] timerq_next_deadline_def eq)
qed

section \<open>The ring of threads\<close>

definition ring :: "'a sched_state_scheme \<Rightarrow> u64 list \<Rightarrow> bool" where
  "ring s q \<longleftrightarrow> q \<noteq> [] \<and> distinct q \<and>
     chain (\<lambda>t. t_next (threads s t)) (g_current s) q (g_current s)"

text \<open>
  The invariant: the threads form a ring that starts at the current one, which alone is running, and
  the stack for entries from user mode is its kernel stack, on both ways into the kernel.
\<close>

definition sched_inv :: "'a sched_state_scheme \<Rightarrow> u64 list \<Rightarrow> bool" where
  "sched_inv s q \<longleftrightarrow> ring s q \<and> t_state (threads s (g_current s)) = THREAD_RUNNING \<and>
     (\<forall>t \<in> set (tl q). t_state (threads s t) \<noteq> THREAD_RUNNING) \<and>
     kernel_rsp (g_cpu_local s) = kstack_top (threads s (g_current s)) \<and>
     rsp0 (g_tss s) = kstack_top (threads s (g_current s))"

lemma ring_cases:
  assumes "ring s q"
  obtains r where "q = g_current s # r" "g_current s \<notin> set r" "distinct r" "g_current s \<noteq> 0"
    "chain (\<lambda>t. t_next (threads s t)) (t_next (threads s (g_current s))) r (g_current s)"
  using assms by (cases q) (auto simp: ring_def)

text \<open>The specification of the choice: the first thread behind the current one that is ready.\<close>

definition rr_next :: "'a sched_state_scheme \<Rightarrow> u64 list \<Rightarrow> u64" where
  "rr_next s q =
     (case List.find (\<lambda>t. t_state (threads s t) = THREAD_READY) (tl q) of
        None \<Rightarrow> g_current s
      | Some t \<Rightarrow> t)"

lemma pick_loop_spec:
  assumes "chain (\<lambda>t. t_next (threads s t)) p xs (g_current s)" "g_current s \<notin> set xs"
  shows "pick_loop p s =
    Some (case List.find (\<lambda>t. t_state (threads s t) = THREAD_READY) xs of
            None \<Rightarrow> g_current s | Some t \<Rightarrow> t)"
  using assms
proof (induction xs arbitrary: p)
  case Nil
  then show ?case by (subst pick_loop.simps) simp
next
  case (Cons a as)
  then have p: "p = a" "a \<noteq> g_current s" by auto
  show ?case
  proof (cases "t_state (threads s a) = THREAD_READY")
    case True
    then show ?thesis unfolding p(1) by (subst pick_loop.simps) simp
  next
    case False
    then have "pick_loop a s = pick_loop (t_next (threads s a)) s"
      using p(2) by (subst pick_loop.simps) simp
    then show ?thesis using Cons False by (simp add: p(1))
  qed
qed

lemma find_prop: "List.find P xs = Some x \<Longrightarrow> P x \<and> x \<in> set xs"
  by (induction xs) (auto split: if_splits)

lemma pick_next_spec:
  assumes "sched_inv s q"
  shows "pick_next s = Some (rr_next s q)"
proof -
  from assms obtain r where "q = g_current s # r" "g_current s \<notin> set r"
    "chain (\<lambda>t. t_next (threads s t)) (t_next (threads s (g_current s))) r (g_current s)"
    unfolding sched_inv_def by (blast elim: ring_cases)
  then show ?thesis
    using assms pick_loop_spec [of s "t_next (threads s (g_current s))" r]
    by (auto simp: pick_next_def rr_next_def sched_inv_def dest!: find_prop split: option.split)
qed

lemma rr_next_in: "ring s q \<Longrightarrow> rr_next s q \<in> set q"
  by (elim ring_cases) (auto simp: rr_next_def dest: find_prop split: option.split)

lemma rr_next_ready:
  "rr_next s q \<noteq> g_current s \<Longrightarrow>
    t_state (threads s (rr_next s q)) = THREAD_READY \<and> rr_next s q \<in> set (tl q)"
  by (auto simp: rr_next_def dest: find_prop split: option.splits)

section \<open>Arming the timer\<close>

text \<open>Everything of the scheduler but the end of the slice.\<close>

definition same_sched :: "'a sched_state_scheme \<Rightarrow> 'a sched_state_scheme \<Rightarrow> bool" where
  "same_sched s t \<longleftrightarrow> threads t = threads s \<and> g_current t = g_current s \<and>
     g_quantum_ns t = g_quantum_ns s \<and> g_cpu_local t = g_cpu_local s \<and> g_tss t = g_tss s \<and>
     queue_part t = queue_part s"

lemma same_sched_inv: "same_sched s t \<Longrightarrow> sched_inv t q = sched_inv s q"
  by (simp add: same_sched_def sched_inv_def ring_def)

text \<open>The slice after arming: a new one when another thread waits and none is running.\<close>

definition next_slice :: "u64 \<Rightarrow> 'a sched_state_scheme \<Rightarrow> u64 list \<Rightarrow> u64" where
  "next_slice now s q =
     (if g_quantum_ns s = 0 \<and> timerq_next_deadline s = 0 then g_slice_end_ns s
      else if g_quantum_ns s \<noteq> 0 \<and> rr_next s q \<noteq> g_current s
      then if g_slice_end_ns s = 0 \<or> g_slice_end_ns s \<le> now then now + ucast (g_quantum_ns s)
           else g_slice_end_ns s
      else 0)"

lemma sched_arm_timer_spec:
  assumes inv: "sched_inv s q"
  shows "\<exists>t. sched_arm_timer d s = Some t \<and> same_sched s t \<and>
    g_slice_end_ns t = next_slice (fst (timer_now_ns d s)) s q"
proof -
  have stop: "same_sched s (timer_stop s)" "g_slice_end_ns (timer_stop s) = g_slice_end_ns s"
    for s :: "'a sched_state_scheme"
    using sched_partD [OF timer_parts(1), of s] by (simp_all add: same_sched_def timer_parts)
  have shot: "same_sched s (timer_oneshot_ns d n s)"
    "g_slice_end_ns (timer_oneshot_ns d n s) = g_slice_end_ns s" for n and s :: "'a sched_state_scheme"
    using sched_partD [OF timer_parts(3), of d n s] by (simp_all add: same_sched_def timer_parts)
  obtain now u where now: "timer_now_ns d s = (now, u)" by force
  have part: "sched_part u = sched_part s" "queue_part u = queue_part s"
    using timer_parts(5,6) [of d s] now by simp_all
  then have u: "same_sched s u" "g_slice_end_ns u = g_slice_end_ns s"
    using sched_partD [OF part(1)] by (simp_all add: same_sched_def)
  have "rr_next u q = rr_next s q"
    unfolding rr_next_def using u(1) unfolding same_sched_def by (auto split: option.split)
  then have pick: "pick_next u = Some (rr_next s q)"
    using pick_next_spec [of u q] inv same_sched_inv [OF u(1), of q] by simp
  have trans: "same_sched a b \<Longrightarrow> same_sched b c \<Longrightarrow> same_sched a c" for a b c :: "'a sched_state_scheme"
    by (simp add: same_sched_def)
  have slice: "same_sched s (u\<lparr>g_slice_end_ns := x\<rparr>)" for x
    using u(1) by (simp add: same_sched_def queue_part_def)
  note dl = queue_partD(4) [OF part(2)]
  show ?thesis
  proof (cases "g_quantum_ns s = 0 \<and> timerq_next_deadline s = 0")
    case True
    then show ?thesis by (simp add: sched_arm_timer_def stop next_slice_def)
  next
    case False
    have "\<exists>dd x. sched_next_deadline now u = Some (dd, u\<lparr>g_slice_end_ns := x\<rparr>) \<and>
        x = next_slice now s q"
      using False u pick by (auto simp: sched_next_deadline_def next_slice_def Let_def dl same_sched_def)
    then obtain dd where "sched_next_deadline now u = Some (dd, u\<lparr>g_slice_end_ns := next_slice now s q\<rparr>)"
      by blast
    then show ?thesis
      using False now by (auto simp: sched_arm_timer_def Let_def stop(2) shot(2)
          intro: trans [OF slice stop(1)] trans [OF slice shot(1)])
  qed
qed


section \<open>Switching threads\<close>

definition rotate_to :: "u64 \<Rightarrow> u64 list \<Rightarrow> u64 list" where
  "rotate_to t q = dropWhile (\<lambda>x. x \<noteq> t) q @ takeWhile (\<lambda>x. x \<noteq> t) q"

lemma rotate_to_split:
  assumes "t \<in> set q"
  obtains xs ys where "q = xs @ t # ys" "rotate_to t q = t # ys @ xs"
proof -
  obtain xs ys where q: "q = xs @ t # ys" "t \<notin> set xs"
    using split_list_first [OF assms] by blast
  then have "\<And>x. x \<in> set xs \<Longrightarrow> x \<noteq> t" by blast
  then have "rotate_to t q = t # ys @ xs"
    by (simp add: rotate_to_def q(1))
  with q(1) show thesis by (rule that)
qed

lemma ring_rotate:
  assumes "ring s q" "t \<in> set q" "g_current u = t" "\<And>a. t_next (threads u a) = t_next (threads s a)"
  shows "ring u (rotate_to t q)"
proof -
  obtain xs ys where q: "q = xs @ t # ys" "rotate_to t q = t # ys @ xs"
    using assms(2) by (rule rotate_to_split)
  have "chain (\<lambda>a. t_next (threads s a)) (g_current s) xs t"
    "chain (\<lambda>a. t_next (threads s a)) t (t # ys) (g_current s)"
    using assms(1) by (auto simp: ring_def q(1) chain_append)
  then have "chain (\<lambda>a. t_next (threads s a)) t ((t # ys) @ xs) t"
    unfolding chain_append by blast
  moreover have "distinct (xs @ t # ys)" using assms(1) by (simp add: ring_def q(1))
  ultimately show ?thesis unfolding ring_def q(2) assms(3,4) by auto
qed

lemma set_rotate_to [simp]: "set (rotate_to t q) = set q"
  unfolding rotate_to_def set_append
  by (subst Un_commute) (simp only: set_append [symmetric] takeWhile_dropWhile_id)

text \<open>The threads after a switch from the current one, interrupted at \<open>f\<close>, to \<open>n\<close>.\<close>

definition switched :: "isr_frame \<Rightarrow> u64 \<Rightarrow> 'a sched_state_scheme \<Rightarrow> u64 \<Rightarrow> thread" where
  "switched f n s =
     (let c = g_current s; old = (threads s c)\<lparr>t_frame := f\<rparr>
      in if n = c then (threads s)(c := old)
         else (threads s)(c := old\<lparr>t_state := THREAD_READY\<rparr>,
                          n := (threads s n)\<lparr>t_state := THREAD_RUNNING\<rparr>))"

lemma switched_fields [simp]:
  "t_next (switched f n s a) = t_next (threads s a)"
  "kstack_top (switched f n s a) = kstack_top (threads s a)"
  by (simp_all add: switched_def Let_def)

lemma switch_inv:
  assumes inv: "sched_inv s q" and n: "n = rr_next s q"
    and s': "s' = set_thread (g_current s) (\<lambda>th. th\<lparr>t_frame := f\<rparr>) s"
    and sw: "switch_to n f s' = (f', u)"
  shows "sched_inv u (rotate_to n q)" "threads u = switched f n s" "g_current u = n"
    "f' = (if n = g_current s then f else t_frame (threads s n))"
    "g_quantum_ns u = g_quantum_ns s" "queue_part u = queue_part s"
    "sched_state.more u = sched_state.more s"
proof -
  let ?c = "g_current s"
  have ring: "ring s q" and run: "t_state (threads s ?c) = THREAD_RUNNING"
    and others: "\<And>t. t \<in> set (tl q) \<Longrightarrow> t_state (threads s t) \<noteq> THREAD_RUNNING"
    and stk: "kernel_rsp (g_cpu_local s) = kstack_top (threads s ?c)"
      "rsp0 (g_tss s) = kstack_top (threads s ?c)"
    using inv by (simp_all add: sched_inv_def)
  have n_in: "n \<in> set q" using rr_next_in [OF ring] n by simp
  have u: "threads u = switched f n s" "g_current u = n"
    "f' = (if n = ?c then f else t_frame (threads s n))" "g_quantum_ns u = g_quantum_ns s"
    "queue_part u = queue_part s" "sched_state.more u = sched_state.more s"
    "kernel_rsp (g_cpu_local u) = kstack_top (threads s n)" "rsp0 (g_tss u) = kstack_top (threads s n)"
    using sw stk unfolding s' switch_to_def set_thread_def gdt_set_kernel_stack_def Let_def switched_def
      queue_part_def by (auto split: if_splits)
  show "threads u = switched f n s" "g_current u = n"
    "f' = (if n = ?c then f else t_frame (threads s n))" "g_quantum_ns u = g_quantum_ns s"
    "queue_part u = queue_part s" "sched_state.more u = sched_state.more s"
    by (rule u)+
  have ru: "ring u (rotate_to n q)"
    by (rule ring_rotate [OF ring n_in u(2)]) (simp add: u(1))
  obtain r where q: "q = ?c # r" "?c \<notin> set r" using ring by (rule ring_cases)
  obtain r' where q': "rotate_to n q = n # r'" "n \<notin> set r'"
    using ru u(2) by (metis ring_cases)
  have "t_state (switched f n s t) \<noteq> THREAD_RUNNING" if "t \<in> set r'" for t
  proof -
    have t: "t \<in> set q" "t \<noteq> n" using that q' set_rotate_to [of n q] by auto
    show ?thesis
    proof (cases "t = ?c")
      case True
      then show ?thesis using t(2) by (auto simp: switched_def Let_def)
    next
      case False
      then have "t \<in> set (tl q)" using t(1) q by auto
      then show ?thesis using others t(2) False by (auto simp: switched_def Let_def)
    qed
  qed
  moreover have "t_state (switched f n s n) = THREAD_RUNNING"
    using run by (simp add: switched_def Let_def)
  ultimately show "sched_inv u (rotate_to n q)"
    using ru by (simp add: sched_inv_def q' u)
qed

text \<open>Saving a frame changes neither the ring nor the choice.\<close>

lemma save_frame:
  assumes v_def: "v = set_thread c (\<lambda>th. th\<lparr>t_frame := f\<rparr>) s"
  shows "sched_inv v q = sched_inv s q" "rr_next v q = rr_next s q"
proof -
  have th: "t_next (threads v a) = t_next (threads s a)" "t_state (threads v a) = t_state (threads s a)"
    "kstack_top (threads v a) = kstack_top (threads s a)" for a
    by (simp_all add: v_def set_thread_def)
  have rest: "g_current v = g_current s" "g_cpu_local v = g_cpu_local s" "g_tss v = g_tss s"
    by (simp_all add: v_def set_thread_def)
  show "sched_inv v q = sched_inv s q" "rr_next v q = rr_next s q"
    unfolding sched_inv_def ring_def rr_next_def th rest by (rule refl)+
qed

section \<open>A tick\<close>

text \<open>
  The interface to the callbacks of the timer queue: besides the contract of the queue, they leave
  the scheduler alone.
\<close>

definition callbacks_quiet ::
    "(u64 \<Rightarrow> u64 \<Rightarrow> 'a sched_state_scheme \<Rightarrow> 'a sched_state_scheme option) \<Rightarrow> bool" where
  "callbacks_quiet run_cb \<longleftrightarrow>
     (\<forall>f a s t. run_cb f a s = Some t \<longrightarrow> sched_part t = sched_part s)"

text \<open>When a tick ends the slice: it interrupts user mode, and a slice was running and is over.\<close>

definition slice_over :: "devices \<Rightarrow> isr_frame \<Rightarrow> 'a sched_state_scheme \<Rightarrow> bool" where
  "slice_over d f s \<longleftrightarrow> f_cs f AND 3 = 3 \<and> g_slice_end_ns s \<noteq> 0 \<and>
     g_slice_end_ns s \<le> fst (timer_now_ns d s)"

lemma sched_on_tick_spec:
  assumes inv: "sched_inv s q" and es: "queued s es" and quiet: "callbacks_quiet run_cb"
    and ok: "callbacks_ok (fst (timer_now_ns d s)) run_cb"
  shows "\<exists>f' t es'. sched_on_tick d run_cb f s = Some (f', t) \<and> queued t es' \<and>
    g_quantum_ns t = g_quantum_ns s \<and>
    (if slice_over d f s
     then sched_inv t (rotate_to (rr_next s q) q) \<and> threads t = switched f (rr_next s q) s \<and>
       g_current t = rr_next s q \<and>
       f' = (if rr_next s q = g_current s then f else t_frame (threads s (rr_next s q)))
     else sched_inv t q \<and> threads t = threads s \<and> g_current t = g_current s \<and> f' = f)"
proof -
  obtain now u where now: "timer_now_ns d s = (now, u)" by force
  have u: "sched_part u = sched_part s" "queue_part u = queue_part s"
    using timer_parts(5,6) [of d s] now by simp_all
  have "queued u es" using es queue_partD(3) [OF u(2)] by simp
  moreover have "callbacks_ok now run_cb" using ok now by simp
  ultimately obtain v es' where
    v: "timerq_run_expired run_cb now u = Some v" "queued v es'"
    using timerq_run_expired_spec by blast
  have "sched_part v = sched_part s"
  proof (rule timerq_run_expired_inv [where P = "\<lambda>t. sched_part t = sched_part s", OF _ _ v(1) u(1)])
    show "sched_part (t\<lparr>g_head := e, events := h\<rparr>) = sched_part s" if "sched_part t = sched_part s" for t e h
      using that by (simp add: sched_part_def)
  qed (use quiet in \<open>simp add: callbacks_quiet_def\<close>)
  note part = sched_partD [OF this]
  have inv_v: "sched_inv v q" using inv part by (simp add: sched_inv_def ring_def)
  have n: "rr_next v q = rr_next s q" unfolding rr_next_def part(1,2) by (rule refl)
  have cur: "g_current s \<noteq> 0" using inv by (auto simp: sched_inv_def elim: ring_cases)
  show ?thesis
  proof (cases "slice_over d f s")
    case False
    obtain t where "sched_arm_timer d v = Some t" "same_sched v t"
      using sched_arm_timer_spec [OF inv_v, of d] by blast
    moreover from this have "sched_on_tick d run_cb f s = Some (f, t)"
      using False cur now v(1) part by (auto simp: sched_on_tick_def Let_def slice_over_def)
    moreover have "queued t = queued v" "sched_inv t q"
      using \<open>same_sched v t\<close> same_sched_inv [of v t q] inv_v queue_partD(3) [of t v]
      by (simp_all add: same_sched_def)
    ultimately show ?thesis using False v(2) part by (auto simp: same_sched_def)
  next
    case True
    let ?n = "rr_next s q" and ?v = "set_thread (g_current v) (\<lambda>th. th\<lparr>t_frame := f\<rparr>) v"
    obtain f' w where w: "switch_to ?n f ?v = (f', w)" by force
    note sw = switch_inv [OF inv_v n [symmetric] refl w]
    have pick: "pick_next ?v = Some ?n"
      using pick_next_spec [of ?v q] inv_v by (simp add: save_frame [OF refl] n)
    have "sched_inv (w\<lparr>g_slice_end_ns := 0\<rparr>) (rotate_to ?n q)"
      using sw(1) by (simp add: sched_inv_def ring_def)
    from sched_arm_timer_spec [OF this, of d] obtain t where
      t: "sched_arm_timer d (w\<lparr>g_slice_end_ns := 0\<rparr>) = Some t" "same_sched (w\<lparr>g_slice_end_ns := 0\<rparr>) t"
      by blast
    have "sched_on_tick d run_cb f s = Some (f', t)"
      using True cur now v(1) part pick w t(1)
      by (auto simp: sched_on_tick_def Let_def slice_over_def not_less)
    moreover have "queued t = queued v" "sched_inv t (rotate_to ?n q)"
      using t(2) same_sched_inv [OF t(2)] sw(1,6) queue_partD(3) [of t v]
      by (simp_all add: same_sched_def sched_inv_def ring_def queue_part_def)
    moreover have "switched f ?n v = switched f ?n s" unfolding switched_def part(1,2) by (rule refl)
    ultimately show ?thesis
      using True t(2) sw(2-5) v(2) part by (auto simp: same_sched_def)
  qed
qed


text \<open>
  C6: A tick that ends the slice of a user thread switches to the next ready thread of the ring: its
  saved registers are returned, those of the interrupted thread are saved and it becomes ready, and
  both kernel entries are set to the kernel stack of the new thread; any other tick switches nothing.
\<close>

theorem sched_on_tick_switches:
  assumes "sched_inv s q" "queued s es" "callbacks_quiet run_cb"
    and "callbacks_ok (fst (timer_now_ns d s)) run_cb"
    and n: "n = (if slice_over d f s then rr_next s q else g_current s)"
  shows "\<exists>f' t. sched_on_tick d run_cb f s = Some (f', t) \<and> g_current t = n \<and>
    sched_inv t (rotate_to n q) \<and>
    kernel_rsp (g_cpu_local t) = kstack_top (threads s n) \<and> rsp0 (g_tss t) = kstack_top (threads s n) \<and>
    (if n = g_current s then f' = f
     else f' = t_frame (threads s n) \<and> t_state (threads s n) = THREAD_READY \<and>
       t_frame (threads t (g_current s)) = f \<and> t_state (threads t (g_current s)) = THREAD_READY) \<and>
    (\<forall>a. a \<noteq> g_current s \<longrightarrow> t_frame (threads t a) = t_frame (threads s a))"
proof -
  from sched_on_tick_spec [OF assms(1-4), of f] obtain f' t where
    t: "sched_on_tick d run_cb f s = Some (f', t)"
    "if slice_over d f s
     then sched_inv t (rotate_to (rr_next s q) q) \<and> threads t = switched f (rr_next s q) s \<and>
       g_current t = rr_next s q \<and>
       f' = (if rr_next s q = g_current s then f else t_frame (threads s (rr_next s q)))
     else sched_inv t q \<and> threads t = threads s \<and> g_current t = g_current s \<and> f' = f" by blast
  obtain r where q: "q = g_current s # r" using assms(1) by (auto simp: sched_inv_def elim: ring_cases)
  have same: "rotate_to (g_current s) q = q" by (simp add: rotate_to_def q)
  have inv: "sched_inv t (rotate_to n q)" and cur: "g_current t = n"
    and stk: "kstack_top (threads t n) = kstack_top (threads s n)"
    using t(2) n same by (auto split: if_splits)
  have "kernel_rsp (g_cpu_local t) = kstack_top (threads s n)" "rsp0 (g_tss t) = kstack_top (threads s n)"
    using inv stk by (simp_all add: sched_inv_def cur)
  then show ?thesis
    using t n inv cur rr_next_ready [of s q]
    by (intro exI [of _ f'] exI [of _ t]) (auto simp: switched_def Let_def split: if_splits)
qed

section \<open>Round robin\<close>

text \<open>A run of ticks, and how many of them ended a slice.\<close>

inductive sched_run ::
    "devices \<Rightarrow> (u64 \<Rightarrow> u64 \<Rightarrow> 'a sched_state_scheme \<Rightarrow> 'a sched_state_scheme option) \<Rightarrow>
      'a sched_state_scheme \<Rightarrow> nat \<Rightarrow> 'a sched_state_scheme \<Rightarrow> bool"
  for d run_cb s where
  run_start: "sched_run d run_cb s 0 s"
| run_tick: "sched_run d run_cb s n t \<Longrightarrow> sched_on_tick d run_cb f t = Some (f', u) \<Longrightarrow>
    sched_run d run_cb s (if slice_over d f t then Suc n else n) u"

definition all_ready :: "'a sched_state_scheme \<Rightarrow> u64 list \<Rightarrow> bool" where
  "all_ready s q \<longleftrightarrow> (\<forall>t \<in> set (tl q). t_state (threads s t) = THREAD_READY)"

lemma all_ready_cong: "threads t = threads s \<Longrightarrow> all_ready t q = all_ready s q"
  by (simp add: all_ready_def)

lemma all_ready_switch:
  assumes "ring s q" "all_ready s q"
  shows "rr_next s q = hd (rotate1 q)" "rotate_to (rr_next s q) q = rotate1 q"
    "threads t = switched f (rr_next s q) s \<Longrightarrow> all_ready t (rotate1 q)"
proof -
  obtain r where q: "q = g_current s # r" "g_current s \<notin> set r" "distinct r"
    using assms(1) by (rule ring_cases)
  have "rr_next s q = hd (rotate1 q) \<and> rotate_to (rr_next s q) q = rotate1 q \<and>
      (threads t = switched f (rr_next s q) s \<longrightarrow> all_ready t (rotate1 q))"
  proof (cases r)
    case Nil
    then show ?thesis by (simp add: q rr_next_def rotate_to_def all_ready_def)
  next
    case (Cons a as)
    then have "rr_next s q = a" using assms(2) by (simp add: q rr_next_def all_ready_def)
    moreover have "a \<noteq> g_current s" "a \<notin> set as" using q Cons by auto
    ultimately show ?thesis
      using assms(2) Cons q by (auto simp: rotate_to_def all_ready_def switched_def Let_def)
  qed
  then show "rr_next s q = hd (rotate1 q)" "rotate_to (rr_next s q) q = rotate1 q"
    "threads t = switched f (rr_next s q) s \<Longrightarrow> all_ready t (rotate1 q)" by blast+
qed

text \<open>
  C15: With all threads ready, \<open>n\<close> expired slices lead \<open>n\<close> places around the ring, whatever other
  ticks come in between: every thread runs once in each round of as many slices as there are
  threads.
\<close>

theorem sched_round_robin:
  assumes run: "sched_run d run_cb s n t" and inv: "sched_inv s q" and es: "queued s es"
    and ready: "all_ready s q" and quiet: "callbacks_quiet run_cb" and ok: "\<forall>now. callbacks_ok now run_cb"
  shows "g_current t = q ! (n mod length q) \<and> sched_inv t (rotate n q) \<and> all_ready t (rotate n q)"
proof -
  from run have "sched_inv t (rotate n q) \<and> all_ready t (rotate n q) \<and> (\<exists>es. queued t es)"
  proof induction
    case run_start
    then show ?case using inv es ready by auto
  next
    case (run_tick n t f f' u)
    then obtain es where t: "sched_inv t (rotate n q)" "all_ready t (rotate n q)" "queued t es" by blast
    then have r: "ring t (rotate n q)" by (simp add: sched_inv_def)
    note sw = all_ready_switch [OF r t(2)]
    have "rotate1 (rotate n q) = rotate (Suc n) q" by simp
    then show ?case
      using sched_on_tick_spec [OF t(1,3) quiet, of d f] ok run_tick.hyps(2) sw(1,2) sw(3) [of u f] t(2)
      by (auto simp: all_ready_cong [of u t] split: if_splits)
  qed
  moreover from this have "g_current t = hd (rotate n q)" "q \<noteq> []"
    by (auto simp: sched_inv_def ring_def dest: chain_start)
  ultimately show ?thesis by (simp add: hd_rotate_conv_nth)
qed


section \<open>Adding threads\<close>

lemma chain_insert:
  assumes "chain nx c (c # r) c" "distinct (c # r)" "th \<notin> set (c # r)" "th \<noteq> 0"
  shows "chain (nx(th := nx c, c := th)) c (c # th # r) c"
proof -
  have "chain (nx(th := nx c, c := th)) (nx c) r c = chain nx (nx c) r c"
    using assms(2,3) by (intro chain_cong) auto
  then show ?thesis using assms by auto
qed

lemma sched_add_spec:
  assumes inv: "sched_inv s q" and th: "th \<notin> set q" "th \<noteq> 0" "t_state (threads s th) \<noteq> THREAD_RUNNING"
  shows "\<exists>t. sched_add d th s = Some t \<and> sched_inv t (g_current s # th # tl q) \<and>
    g_current t = g_current s \<and> g_quantum_ns t = g_quantum_ns s \<and> queue_part t = queue_part s \<and>
    (\<forall>a. t_frame (threads t a) = t_frame (threads s a) \<and> t_state (threads t a) = t_state (threads s a))"
proof -
  let ?c = "g_current s"
  obtain r where q: "q = ?c # r" "?c \<notin> set r" "distinct r" "?c \<noteq> 0"
    using inv unfolding sched_inv_def by (auto elim: ring_cases)
  define v where "v = (set_thread ?c (\<lambda>x. x\<lparr>t_next := th\<rparr>)
    (set_thread th (\<lambda>x. x\<lparr>t_next := t_next (threads s ?c)\<rparr>) s))\<lparr>g_slice_end_ns := 0\<rparr>"
  have ne: "th \<noteq> ?c" using th(1) q(1) by auto
  have v: "(\<lambda>a. t_next (threads v a)) = (\<lambda>a. t_next (threads s a))(th := t_next (threads s ?c), ?c := th)"
    "t_frame (threads v a) = t_frame (threads s a)" "t_state (threads v a) = t_state (threads s a)"
    "kstack_top (threads v a) = kstack_top (threads s a)"
    "g_current v = ?c" "g_quantum_ns v = g_quantum_ns s" "queue_part v = queue_part s"
    "g_cpu_local v = g_cpu_local s" "g_tss v = g_tss s" for a
    using ne by (auto simp: v_def set_thread_def queue_part_def)
  have "chain (\<lambda>a. t_next (threads s a)) ?c (?c # r) ?c" using inv q by (simp add: sched_inv_def ring_def)
  from chain_insert [OF this _ _ th(2)] have "ring v (?c # th # r)"
    using q th(1) ne unfolding ring_def v by auto
  then have inv_v: "sched_inv v (?c # th # r)"
    using inv th(3) by (auto simp: sched_inv_def v q)
  have "sched_add d th s = sched_arm_timer d v"
    using q(4) ne by (simp add: sched_add_def Let_def v_def set_thread_def)
  with sched_arm_timer_spec [OF inv_v, of d] show ?thesis
    using same_sched_inv [of v _ "?c # th # r"] inv_v q
    by (auto simp: same_sched_def v)
qed

text \<open>
  \<open>sched_add\<close> puts a thread that is not in the ring right behind the current one: it runs next
  when the slice ends, the other threads keep their order, and no register is touched.
\<close>

theorem sched_add_runs_next:
  assumes "sched_inv s q" "th \<notin> set q" "th \<noteq> 0" "t_state (threads s th) = THREAD_READY"
  shows "\<exists>t. sched_add d th s = Some t \<and> sched_inv t (g_current s # th # tl q) \<and>
    rr_next t (g_current s # th # tl q) = th \<and> g_current t = g_current s \<and>
    (\<forall>a. t_frame (threads t a) = t_frame (threads s a))"
  using sched_add_spec [OF assms(1-3), of d] assms(4) by (auto simp: rr_next_def)

section \<open>All runs of the scheduler\<close>

text \<open>A system whose steps keep an invariant.\<close>

locale guarded_system =
  fixes step :: "'s \<Rightarrow> 's \<Rightarrow> bool" and inv :: "'s \<Rightarrow> bool"
  assumes step_inv: "inv s \<Longrightarrow> step s t \<Longrightarrow> inv t"
begin

lemma reach_inv: "step\<^sup>*\<^sup>* s t \<Longrightarrow> inv s \<Longrightarrow> inv t"
  by (induction rule: rtranclp_induct) (auto intro: step_inv)

end

definition fresh_thread :: "'a sched_state_scheme \<Rightarrow> u64 \<Rightarrow> bool" where
  "fresh_thread s th \<longleftrightarrow> th \<noteq> 0 \<and> (\<forall>q. ring s q \<longrightarrow> th \<notin> set q) \<and>
     t_state (threads s th) = THREAD_READY"

inductive sched_step ::
    "devices \<Rightarrow> (u64 \<Rightarrow> u64 \<Rightarrow> 'a sched_state_scheme \<Rightarrow> 'a sched_state_scheme option) \<Rightarrow>
      'a sched_state_scheme \<Rightarrow> 'a sched_state_scheme \<Rightarrow> bool"
  for d run_cb where
  step_tick: "sched_on_tick d run_cb f s = Some (f', t) \<Longrightarrow> sched_step d run_cb s t"
| step_add: "fresh_thread s th \<Longrightarrow> sched_add d th s = Some t \<Longrightarrow> sched_step d run_cb s t"
| step_quantum: "sched_set_quantum_ns d ns s = Some t \<Longrightarrow> sched_step d run_cb s t"
| step_start: "sched_start d s = Some t \<Longrightarrow> sched_step d run_cb s t"

inductive_cases sched_stepE: "sched_step d run_cb s t"

definition sched_ok where
  "sched_ok d run_cb s \<longleftrightarrow> callbacks_quiet run_cb \<and> (\<forall>now. callbacks_ok now run_cb) \<and>
     (\<exists>q es. sched_inv s q \<and> queued s es)"

lemma sched_set_quantum_spec:
  assumes "sched_inv s q"
  shows "\<exists>t. sched_set_quantum_ns d ns s = Some t \<and> sched_inv t q \<and> queue_part t = queue_part s \<and>
    g_quantum_ns t = ucast ns"
proof -
  let ?s = "s\<lparr>g_quantum_ns := ucast ns\<rparr>"
  have inv: "sched_inv ?s q" "queue_part ?s = queue_part s"
    using assms by (simp_all add: sched_inv_def ring_def queue_part_def)
  show ?thesis
  proof (cases "ns = 0")
    case True
    have "sched_inv (timer_stop ?s) q" "g_quantum_ns (timer_stop ?s) = ucast ns"
      using inv(1) sched_partD [OF timer_parts(1), of ?s] by (simp_all add: sched_inv_def ring_def)
    then show ?thesis using True inv(2) by (simp add: sched_set_quantum_ns_def timer_parts)
  next
    case False
    obtain t where t: "sched_arm_timer d ?s = Some t" "same_sched ?s t"
      using sched_arm_timer_spec [OF inv(1)] by blast
    then have "sched_inv t q" "queue_part t = queue_part s" "g_quantum_ns t = ucast ns"
      using same_sched_inv [OF t(2), of q] inv by (simp_all add: same_sched_def)
    then show ?thesis using False t(1) by (simp add: sched_set_quantum_ns_def)
  qed
qed

lemma sched_ok_step:
  assumes ok: "sched_ok d run_cb s" and step: "sched_step d run_cb s t"
  shows "sched_ok d run_cb t"
proof -
  obtain q es where q: "sched_inv s q" "queued s es" and cb: "callbacks_quiet run_cb" "\<And>now. callbacks_ok now run_cb"
    using ok by (auto simp: sched_ok_def)
  from step consider
      (tick) f f' where "sched_on_tick d run_cb f s = Some (f', t)"
    | (add) th where "fresh_thread s th" "sched_add d th s = Some t"
    | (quantum) ns where "sched_set_quantum_ns d ns s = Some t"
    | (start) "sched_start d s = Some t"
    by (rule sched_stepE) blast+
  then have "\<exists>q es. sched_inv t q \<and> queued t es"
  proof cases
    case (tick f f')
    then show ?thesis
      using sched_on_tick_spec [OF q cb(1) cb(2), of d f] by (auto split: if_splits)
  next
    case (add th)
    then have th: "th \<notin> set q" "th \<noteq> 0" "t_state (threads s th) \<noteq> THREAD_RUNNING"
      using q(1) by (simp_all add: fresh_thread_def sched_inv_def)
    from sched_add_spec [OF q(1) th, of d] add(2)
    have "sched_inv t (g_current s # th # tl q)" "queue_part t = queue_part s" by simp_all
    then show ?thesis using q(2) queue_partD(3) [of t s] by auto
  next
    case (quantum ns)
    then show ?thesis using sched_set_quantum_spec [OF q(1), of d ns] q(2) queue_partD(3) [of t s] by auto
  next
    case start
    then show ?thesis
      using sched_arm_timer_spec [OF q(1), of d] same_sched_inv [of s t q] q queue_partD(3) [of t s]
      by (auto simp: sched_start_def same_sched_def)
  qed
  with cb show ?thesis by (simp add: sched_ok_def)
qed

interpretation scheduler: guarded_system "sched_step d run_cb" "sched_ok d run_cb"
  by unfold_locales (rule sched_ok_step)

text \<open>
  C14: However ticks, added threads and changes of the quantum follow each other, the current thread is
  the only running one of the ring, and both entries from user mode use its kernel stack.
\<close>

theorem sched_always_one_running:
  assumes "sched_ok d run_cb s" "(sched_step d run_cb)\<^sup>*\<^sup>* s t"
  shows "\<exists>q. ring t q \<and> (\<forall>a \<in> set q. t_state (threads t a) = THREAD_RUNNING \<longleftrightarrow> a = g_current t) \<and>
    g_current t \<in> set q \<and> kernel_rsp (g_cpu_local t) = kstack_top (threads t (g_current t)) \<and>
    rsp0 (g_tss t) = kstack_top (threads t (g_current t))"
proof -
  obtain q where "sched_inv t q"
    using scheduler.reach_inv [OF assms(2,1)] by (auto simp: sched_ok_def)
  moreover from this obtain r where "q = g_current t # r" "g_current t \<notin> set r"
    unfolding sched_inv_def by (auto elim: ring_cases)
  ultimately show ?thesis by (intro exI [of _ q]) (auto simp: sched_inv_def)
qed


section \<open>Where the slices go wrong\<close>

lemma run_expired_empty: "g_head s = 0 \<Longrightarrow> timerq_run_expired run_cb now s = Some s"
  by (subst timerq_run_expired.simps) simp

text \<open>
  A tick that interrupts the kernel after the slice has ended does not switch, and grants the
  current thread a whole new slice instead of leaving the switch to the next tick.
\<close>

theorem kernel_tick_renews_slice:
  assumes "sched_inv s q" "g_head s = 0" "rr_next s q \<noteq> g_current s" "g_quantum_ns s \<noteq> 0"
    and "f_cs f AND 3 \<noteq> 3" "g_slice_end_ns s \<le> fst (timer_now_ns d s)"
    and "tsc_clock clk d" "g_tick_num s \<noteq> 0" "clk (trace s) + 2 ^ 61 < 2 ^ 64"
  shows "\<exists>t now. sched_on_tick d run_cb f s = Some (f, t) \<and> g_current t = g_current s \<and>
    fst (timer_now_ns d s) \<le> now \<and> g_slice_end_ns t = now + ucast (g_quantum_ns s)"
proof -
  obtain now u where now: "timer_now_ns d s = (now, u)" by force
  have part: "sched_part u = sched_part s" "queue_part u = queue_part s"
    using timer_parts(5,6) [of d s] now by simp_all
  note sp = sched_partD [OF part(1)]
  have inv: "sched_inv u q" using assms(1) sp by (simp add: sched_inv_def ring_def)
  obtain t where t: "sched_arm_timer d u = Some t" "same_sched u t"
    "g_slice_end_ns t = next_slice (fst (timer_now_ns d u)) u q"
    using sched_arm_timer_spec [OF inv] by blast
  have more: "timer_state.more u = timer_state.more s" "trace u = trace s @ [EvTsc (tsc_in d (trace s))]"
    "g_tick_num u = g_tick_num s" "g_tick_den u = g_tick_den s"
    using now assms(8) by (auto simp: timer_now_ns_def Let_def rdtsc_ordered_def rdtsc_def emit_def)
  then have le: "now \<le> fst (timer_now_ns d u)"
    using timer_now_clock [OF assms(7,8) more(3,4,2)] now assms(9)
      tsc_clockD(3) [OF assms(7), of "trace s" "EvTsc (tsc_in d (trace s))"] by simp
  have "rr_next u q \<noteq> g_current u" using assms(3) unfolding rr_next_def sp(1,2) .
  then have "g_slice_end_ns t = fst (timer_now_ns d u) + ucast (g_quantum_ns s)"
    using t(3) order_trans [OF assms(6), of "fst (timer_now_ns d u)"] le assms(4) now sp
    by (simp add: next_slice_def)
  moreover have "g_head u = 0" using queue_partD(1) [OF part(2)] assms(2) by simp
  moreover have "g_current s \<noteq> 0" using assms(1) by (auto simp: sched_inv_def elim: ring_cases)
  ultimately show ?thesis
    using now t(1,2) le assms(5) sp
    by (intro exI [of _ t] exI [of _ "fst (timer_now_ns d u)"])
      (simp add: sched_on_tick_def Let_def run_expired_empty same_sched_def)
qed

text \<open>
  The quantum is stored modulo \<open>2 ^ 32\<close>, so a quantum of a multiple of \<open>2 ^ 32\<close> nanoseconds turns time
  slicing off although the argument is not zero.
\<close>

theorem quantum_truncated:
  assumes "sched_inv s q"
  shows "\<exists>t. sched_set_quantum_ns d ns s = Some t \<and> sched_inv t q \<and>
    unat (g_quantum_ns t) = unat ns mod 2 ^ 32"
  using sched_set_quantum_spec [OF assms, of d ns]
  by (auto simp: unsigned_ucast_eq take_bit_eq_mod)

section \<open>Witnesses\<close>

definition demo_thread :: "u64 \<Rightarrow> thread_state \<Rightarrow> u64 \<Rightarrow> thread" where
  "demo_thread rip st n = \<lparr>t_frame = zero_frame\<lparr>f_rip := rip, f_cs := 0x23\<rparr>, kstack_top = n + 0x800,
     t_state = st, t_next = n\<rparr>"

text \<open>Two threads, the first running; a slice that has ended; the time-stamp counter at 2 GHz.\<close>

definition demo_sched :: "u64 \<Rightarrow> sched_state" where
  "demo_sched head =
    timer_state.extend ((demo_timer 0xfee00000 TIMER_SRC_TSC_DEADLINE 2)\<lparr>
        trace := [EvPause, EvPause, EvPause, EvPause], g_head := head,
        g_tss := zero_tss\<lparr>rsp0 := 0x9800\<rparr>\<rparr>)
      (sched_state.fields
        ((\<lambda>_. demo_thread 0 THREAD_READY 0)
          (0x8000 := demo_thread 0x400000 THREAD_RUNNING 0x9000,
           0x9000 := demo_thread 0x500000 THREAD_READY 0x8000))
        0x8000 5000000 1 \<lparr>kernel_rsp = 0x9800, user_rsp = 0\<rparr>)"

definition demo_frame :: isr_frame where
  "demo_frame = zero_frame\<lparr>f_rip := 0x400010, f_cs := 0x23\<rparr>"

lemmas demo_sched_defs = demo_sched_def sched_state.defs timer_state.defs demo_thread_def

lemma demo_sched_fields:
  "g_current (demo_sched h) = 0x8000" "g_quantum_ns (demo_sched h) = 5000000" "g_slice_end_ns (demo_sched h) = 1"
  "g_head (demo_sched h) = h" "g_tick_num (demo_sched h) = 2" "trace (demo_sched h) = [EvPause, EvPause, EvPause, EvPause]"
  by (simp_all add: demo_sched_defs demo_timer_fields)

lemma demo_sched_inv: "sched_inv (demo_sched h) [0x8000, 0x9000]"
  by (simp add: sched_inv_def ring_def demo_sched_defs)

lemma demo_rr_next: "rr_next (demo_sched h) [0x8000, 0x9000] = 0x9000"
  by (simp add: rr_next_def demo_sched_defs)

lemma demo_sched_queued: "queued (demo_sched 0) []"
  by (simp add: queued_Nil demo_sched_fields)

lemma demo_callbacks: "callbacks_ok now (\<lambda>f a s. Some s)" "callbacks_quiet (\<lambda>f a s. Some s)"
  by (auto simp: callbacks_ok_def callbacks_quiet_def)

lemma demo_now: "1 \<le> fst (timer_now_ns (demo_cpu f) (demo_sched h))"
proof -
  have den: "g_tick_den (demo_sched h) = 1000000000" by (simp add: demo_sched_defs demo_timer_fields)
  show ?thesis
    using timer_now_clock [OF demo_cpu_clock, of "demo_sched h" "demo_sched h" "[]" f]
    by (simp add: demo_sched_fields den word_le_nat_alt)
qed

lemma demo_slice_over: "slice_over (demo_cpu f) demo_frame (demo_sched h)"
  using demo_now by (simp add: slice_over_def demo_frame_def demo_sched_fields)

theorem sched_on_tick_switches_witness:
  "\<exists>f' t. sched_on_tick (demo_cpu 0) (\<lambda>f a s. Some s) demo_frame (demo_sched 0) = Some (f', t) \<and>
    g_current t = 0x9000 \<and> f_rip f' = 0x500000 \<and> t_frame (threads t 0x8000) = demo_frame"
proof -
  have fr: "f_rip (t_frame (threads (demo_sched 0) 0x9000)) = 0x500000" by (simp add: demo_sched_defs)
  from sched_on_tick_switches [OF demo_sched_inv demo_sched_queued demo_callbacks(2) demo_callbacks(1) refl,
      of "demo_cpu 0" demo_frame]
  show ?thesis
    by (simp add: demo_slice_over demo_rr_next demo_sched_fields) (metis fr)
qed

theorem sched_round_robin_witness:
  "\<exists>t. sched_run (demo_cpu 0) (\<lambda>f a s. Some s) (demo_sched 0) 1 t \<and> g_current t = 0x9000"
proof -
  obtain f' t where "sched_on_tick (demo_cpu 0) (\<lambda>f a s. Some s) demo_frame (demo_sched 0) = Some (f', t)"
    using sched_on_tick_spec [OF demo_sched_inv demo_sched_queued demo_callbacks(2) demo_callbacks(1),
        of "demo_cpu 0" demo_frame] by blast
  from run_tick [OF run_start this] have run: "sched_run (demo_cpu 0) (\<lambda>f a s. Some s) (demo_sched 0) 1 t"
    by (simp add: demo_slice_over)
  have "all_ready (demo_sched 0) [0x8000, 0x9000]" by (simp add: all_ready_def demo_sched_defs)
  from sched_round_robin [OF run demo_sched_inv demo_sched_queued this demo_callbacks(2)] demo_callbacks(1) run
  show ?thesis by auto
qed

theorem sched_add_runs_next_witness:
  "\<exists>t. sched_add (demo_cpu 0) 0xa000 (demo_sched 0) = Some t \<and> rr_next t [0x8000, 0xa000, 0x9000] = 0xa000"
proof -
  have "t_state (threads (demo_sched 0) 0xa000) = THREAD_READY" by (simp add: demo_sched_defs)
  from sched_add_runs_next [OF demo_sched_inv _ _ this, of "demo_cpu 0"] show ?thesis
    by (auto simp: demo_sched_fields)
qed

theorem sched_always_one_running_witness:
  "\<exists>t. (sched_step (demo_cpu 0) (\<lambda>f a s. Some s))\<^sup>*\<^sup>* (demo_sched 0) t \<and> g_current t = 0x9000 \<and>
    t_state (threads t 0x9000) = THREAD_RUNNING"
proof -
  have ok: "sched_ok (demo_cpu 0) (\<lambda>f a s. Some s) (demo_sched 0)"
    unfolding sched_ok_def using demo_sched_inv demo_sched_queued demo_callbacks by blast
  obtain f' t where t: "sched_on_tick (demo_cpu 0) (\<lambda>f a s. Some s) demo_frame (demo_sched 0) = Some (f', t)"
    "g_current t = 0x9000"
    using sched_on_tick_spec [OF demo_sched_inv demo_sched_queued demo_callbacks(2) demo_callbacks(1),
        of "demo_cpu 0" demo_frame] by (auto simp: demo_slice_over demo_rr_next)
  have steps: "(sched_step (demo_cpu 0) (\<lambda>f a s. Some s))\<^sup>*\<^sup>* (demo_sched 0) t"
    using step_tick [OF t(1)] by blast
  from sched_always_one_running [OF ok this] steps t(2) show ?thesis by auto
qed

theorem kernel_tick_renews_slice_witness:
  "\<exists>t now. sched_on_tick (demo_cpu 0) (\<lambda>f a s. Some s) zero_frame (demo_sched 0) = Some (zero_frame, t) \<and>
    g_current t = 0x8000 \<and> g_slice_end_ns t = now + 5000000"
  using kernel_tick_renews_slice [OF demo_sched_inv _ _ _ _ _ demo_cpu_clock, of 0 zero_frame 0 "\<lambda>f a s. Some s"]
    demo_now [of 0 0]
  by (auto simp: demo_sched_fields demo_rr_next zero_frame_def)

theorem quantum_truncated_witness:
  "\<exists>t. sched_set_quantum_ns (demo_cpu 0) 0x100000000 (demo_sched 0) = Some t \<and> g_quantum_ns t = 0"
  using quantum_truncated [OF demo_sched_inv, of "demo_cpu 0" "0x100000000" 0]
  by (auto simp: unat_eq_zero)

end
