(* ===== verification/Syscall.thy ===== *)
theory Syscall
  imports Sched Print User_Access
begin

text \<open>
  System calls: \<open>kernel/arch/x86_64/cpu/syscall.c\<close>, and what its model-specific registers make the
  processor do at \<open>syscall\<close> and \<open>sysret\<close>.
\<close>

definition IA32_EFER :: u32 where "IA32_EFER = 0xc0000080"
definition IA32_STAR :: u32 where "IA32_STAR = 0xc0000081"
definition IA32_LSTAR :: u32 where "IA32_LSTAR = 0xc0000082"
definition IA32_FMASK :: u32 where "IA32_FMASK = 0xc0000084"
definition IA32_GS_BASE :: u32 where "IA32_GS_BASE = 0xc0000101"
definition IA32_KERNEL_GS_BASE :: u32 where "IA32_KERNEL_GS_BASE = 0xc0000102"
definition EFER_SCE :: u32 where "EFER_SCE = push_bit 0 1"

definition SYS_debug_write :: u64 where "SYS_debug_write = 0"
definition SYS_exit :: u64 where "SYS_exit = 1"

text \<open>
  How a call ends: with a value in \<open>rax\<close>, halted for good, or with a fault of the kernel's own access at an
  address: a page fault, or a general protection fault where the address is not canonical.
\<close>

datatype syscall_end = Returned u64 | Exited | PageFault u64

text \<open>The loop of \<open>SYS_debug_write\<close>: one character at a time, read through the caller's pointer.\<close>

function write_loop ::
    "u64 \<Rightarrow> u64 \<Rightarrow> u64 \<Rightarrow> 'a pmm_state_scheme \<Rightarrow> syscall_end \<times> 'a pmm_state_scheme" where
  "write_loop a len i s =
     (if i < len then
        (case load_byte s (a + i) of
           None \<Rightarrow> (PageFault (a + i), s)
         | Some b \<Rightarrow> write_loop a len (i + 1) (kprint [char_of_byte b, CHR 0x00] s))
      else (Returned len, s))"
  by pat_completeness auto
termination
  by (relation "measure (\<lambda>(a, len, i, s). unat len - unat i)")
    (auto simp: unat_Suc_less word_less_nat_alt)

declare write_loop.simps [simp del]

definition syscall_dispatch ::
    "u64 \<Rightarrow> u64 \<Rightarrow> u64 \<Rightarrow> u64 \<Rightarrow> u64 \<Rightarrow> u64 \<Rightarrow> u64 \<Rightarrow> 'a pmm_state_scheme \<Rightarrow>
      syscall_end \<times> 'a pmm_state_scheme" where
  "syscall_dispatch num a1 a2 a3 a4 a5 a6 s =
     (if num = SYS_debug_write then write_loop a1 a2 0 s
      else if num = SYS_exit then (Exited, kprint (CHR 0x0A # ''[user] exit()'' @ [CHR 0x0A]) s)
      else (Returned (- 1), kprint (CHR 0x0A # ''[syscall] unknown'' @ [CHR 0x0A]) s))"

definition syscall_init :: "cpu_symbols \<Rightarrow> 'a machine_scheme \<Rightarrow> 'a machine_scheme" where
  "syscall_init cs s =
     (let efer = rdmsr IA32_EFER s;
          s = wrmsr IA32_EFER (efer OR ucast EFER_SCE) s;
          star = push_bit 48 (ucast USER_CS - 16) OR push_bit 32 (ucast KERNEL_CS);
          s = wrmsr IA32_STAR star s;
          s = wrmsr IA32_LSTAR (sym_syscall_entry cs) s;
          s = wrmsr IA32_FMASK (push_bit 9 1) s;
          s = wrmsr IA32_GS_BASE 0 s;
          s = wrmsr IA32_KERNEL_GS_BASE (sym_cpu_local cs) s
      in kprint (''[syscall] init ok'' @ [CHR 0x0A]) s)"

section \<open>Entering and leaving the kernel\<close>

text \<open>The selectors the processor loads from \<open>IA32_STAR\<close>.\<close>

definition syscall_cs :: "u64 \<Rightarrow> u16" where "syscall_cs star = ucast (drop_bit 32 star) AND 0xfffc"
definition syscall_ss :: "u64 \<Rightarrow> u16" where "syscall_ss star = ucast (drop_bit 32 star) + 8"
definition sysret_cs :: "u64 \<Rightarrow> u16" where "sysret_cs star = (ucast (drop_bit 48 star) + 16) OR 3"
definition sysret_ss :: "u64 \<Rightarrow> u16" where "sysret_ss star = (ucast (drop_bit 48 star) + 8) OR 3"

lemma syscall_init_msrs:
  "msrs (syscall_init cs s) = (msrs s)(IA32_EFER := msrs s IA32_EFER OR 1, IA32_STAR := 0x0013000800000000,
     IA32_LSTAR := sym_syscall_entry cs, IA32_FMASK := 0x200, IA32_GS_BASE := 0,
     IA32_KERNEL_GS_BASE := sym_cpu_local cs)"
  by (simp add: syscall_init_def Let_def kprint_text frame_simps rdmsr_def selectors EFER_SCE_def)

text \<open>
  C27: After \<open>syscall_init\<close> a \<open>syscall\<close> enters the assembly stub with the kernel's code and stack
  segments and interrupts masked, \<open>sysret\<close> goes back to the user's segments, and \<open>swapgs\<close> finds the
  processor's local data; no other register changes than the six it names.
\<close>

theorem syscall_init_registers:
  "let t = syscall_init cs s in
    bit (msrs t IA32_EFER) 0 \<and> msrs t IA32_LSTAR = sym_syscall_entry cs \<and>
    syscall_cs (msrs t IA32_STAR) = KERNEL_CS \<and> syscall_ss (msrs t IA32_STAR) = KERNEL_DS \<and>
    sysret_cs (msrs t IA32_STAR) = USER_CS \<and> sysret_ss (msrs t IA32_STAR) = USER_DS \<and>
    msrs t IA32_FMASK = 0x200 \<and> msrs t IA32_KERNEL_GS_BASE = sym_cpu_local cs \<and>
    {r. msrs t r \<noteq> msrs s r} \<subseteq>
      {IA32_EFER, IA32_STAR, IA32_LSTAR, IA32_FMASK, IA32_GS_BASE, IA32_KERNEL_GS_BASE}"
  unfolding Let_def syscall_init_msrs
  by (auto simp: selectors syscall_cs_def syscall_ss_def sysret_cs_def sysret_ss_def
      IA32_EFER_def IA32_STAR_def IA32_LSTAR_def IA32_FMASK_def IA32_GS_BASE_def IA32_KERNEL_GS_BASE_def
      bit_simps)

section \<open>Writing to the console from user mode\<close>

lemma put_text_trace: "\<exists>tr. put_text str s = s\<lparr>trace := tr\<rparr>"
proof (induction str arbitrary: s)
  case Nil
  show ?case by (intro exI [of _ "trace s"]) simp
next
  case (Cons c str)
  obtain tr where "put_text str (kputc c s) = (kputc c s)\<lparr>trace := tr\<rparr>" using Cons by blast
  then show ?case by (intro exI [of _ tr]) (simp add: kputc_def emit_def)
qed

lemma load_byte_put_text [simp]: "load_byte (put_text str s) = load_byte s" for s :: "'a pmm_state_scheme"
proof -
  obtain tr where t: "put_text str s = s\<lparr>trace := tr\<rparr>" using put_text_trace by blast
  have "access (s\<lparr>trace := tr\<rparr>) = access s"
    by (rule access_cong [OF tables_cong(1)]) simp_all
  then show ?thesis by (simp add: t fun_eq_iff load_byte_def)
qed

lemma kprint_byte:
  "kprint [char_of_byte b, CHR 0x00] s = put_text (filter (\<lambda>c. c \<noteq> CHR 0x00) [char_of_byte b]) s"
  by (simp add: kprint_text c_text_def)

text \<open>What the caller's buffer holds up to the first byte that cannot be read.\<close>

definition readable :: "'a pmm_state_scheme \<Rightarrow> u64 \<Rightarrow> nat list \<Rightarrow> u8 list" where
  "readable s a ks = map the (takeWhile (\<lambda>x. x \<noteq> None) (map (\<lambda>i. load_byte s (a + of_nat i)) ks))"

definition shown :: "u8 list \<Rightarrow> string" where
  "shown bs = filter (\<lambda>c. c \<noteq> CHR 0x00) (map char_of_byte bs)"

lemma readable_put_text [simp]: "readable (put_text str s) a ks = readable s a ks"
  by (simp add: readable_def)

lemma write_loop_spec:
  "write_loop a len i s =
    (let bs = readable s a [unat i..<unat len]
     in (if unat i + length bs < unat len then PageFault (a + (i + of_nat (length bs))) else Returned len,
         put_text (shown bs) s))"
proof (induction a len i s rule: write_loop.induct)
  case (1 a len i s)
  show ?case
  proof (cases "i < len")
    case False
    then show ?thesis by (simp add: write_loop.simps [of a len i s] readable_def shown_def word_less_nat_alt)
  next
    case True
    note up = upt_unat_step [OF True]
    have i: "unat (i + 1) = Suc (unat i)" "unat i < unat len"
      using True by (simp_all add: unat_Suc_less word_less_nat_alt)
    show ?thesis
    proof (cases "load_byte s (a + i)")
      case None
      then show ?thesis
        using True i(2) by (simp add: write_loop.simps [of a len i s] up readable_def shown_def)
    next
      case (Some b)
      define bs where "bs = readable s a [unat (i + 1)..<unat len]"
      have bs: "readable s a [unat i..<unat len] = b # bs"
        using Some by (simp add: up readable_def bs_def)
      have "write_loop a len i s =
          write_loop a len (i + 1) (put_text (filter (\<lambda>c. c \<noteq> CHR 0x00) [char_of_byte b]) s)"
        using True Some by (simp add: write_loop.simps [of a len i s] kprint_byte del: filter.simps)
      also have "\<dots> = (if unat (i + 1) + length bs < unat len
            then PageFault (a + (i + 1 + of_nat (length bs))) else Returned len,
          put_text (shown bs) (put_text (filter (\<lambda>c. c \<noteq> CHR 0x00) [char_of_byte b]) s))"
        using 1 [OF True Some] by (simp only: kprint_byte Let_def readable_put_text bs_def)
      finally show ?thesis
        unfolding Let_def bs i(1) by (simp add: shown_def algebra_simps)
    qed
  qed
qed

text \<open>
  C28: \<open>SYS_debug_write\<close> prints the bytes of the caller's buffer that are not NUL, in order, and
  returns the length; at the first byte that the page tables do not map, in whichever half of the
  address space, the kernel faults, the text before it already printed. The pointer is not checked
  otherwise, so a buffer in mapped kernel memory is printed too.
\<close>

theorem debug_write_prints_buffer:
  "let bs = readable s a [0..<unat len]
   in syscall_dispatch 0 a len a3 a4 a5 a6 s =
      (if length bs < unat len then PageFault (a + of_nat (length bs)) else Returned len,
       put_text (shown bs) s)"
  using write_loop_spec [of a len 0 s] by (simp add: syscall_dispatch_def SYS_debug_write_def Let_def)

text \<open>With empty tables a pointer into the kernel's half faults at once, like any other.\<close>

lemma demo_kernel_pointer_faults:
  "syscall_dispatch 0 0xffff800000000000 1 0 0 0 0 demo_vmm = (PageFault 0xffff800000000000, demo_vmm)"
proof -
  have "pt_get demo_vmm 0x5000 256 = 0" by (rule demo_root_empty) simp_all
  then have "hw_walk demo_vmm 0x5000 0xffff800000000000 = None"
    by (simp add: hw_walk_def hw_entry_def idx_pml4_def)
  then have "load_byte demo_vmm 0xffff800000000000 = None"
    by (simp add: load_byte_def access_def demo_cr3(1) [simplified])
  then have "readable demo_vmm 0xffff800000000000 [0..<unat (1 :: u64)] = []" by (simp add: readable_def)
  then show ?thesis
    using write_loop_spec [of "0xffff800000000000" 1 0 demo_vmm]
    by (simp add: syscall_dispatch_def SYS_debug_write_def shown_def)
qed

end
