(* ===== verification/User_Program.thy ===== *)
theory User_Program
  imports Syscall
begin

text \<open>
  User memory as \<open>kmain\<close> of \<open>kernel/core/kmain.c\<close> sets it up, and the program that \<open>build_user_blob\<close>
  places there. The program is run on a model of the five instructions it consists of, up to its
  system call.
\<close>

section \<open>The program\<close>

text \<open>\<open>*(uint32_t *)&code[i] = v;\<close>\<close>

definition put32 :: "nat \<Rightarrow> u32 \<Rightarrow> u8 list \<Rightarrow> u8 list" where
  "put32 i v code =
     code[i := ucast v, i + 1 := ucast (drop_bit 8 v), i + 2 := ucast (drop_bit 16 v),
       i + 3 := ucast (drop_bit 24 v)]"

definition user_msg :: "u8 list" where
  "user_msg = map byte_of_char (''hello from user'' @ [CHR 0x0A])"

definition user_code :: "u8 list" where
  "user_code =
     (let len = of_nat (length user_msg) :: u32;
          code =
            [0xb8, 0x00, 0x00, 0x00, 0x00,
             0x48, 0x8d, 0x3d, 0, 0, 0, 0,
             0xbe, 0, 0, 0, 0,
             0x0f, 0x05,
             0xeb, 0xfe];
          code = code[1 := 0];
          code = put32 13 len code;
          msg_off = of_nat (length code) :: u32;
          disp = msg_off - 12;
          code = put32 8 disp code
      in code)"

definition build_user_blob :: "u64 \<Rightarrow> 'a pmm_state_scheme \<Rightarrow> 'a pmm_state_scheme option" where
  "build_user_blob dst s =
     (case store_bytes dst user_code s of
        None \<Rightarrow> None
      | Some s \<Rightarrow> store_bytes (dst + of_nat (length user_code)) user_msg s)"

section \<open>Setting up user memory\<close>

definition user_code0 :: u64 where "user_code0 = 0x400000"
definition user_stack0 :: u64 where "user_stack0 = 0x700000"
definition user_code1 :: u64 where "user_code1 = 0x500000"
definition user_stack1 :: u64 where "user_stack1 = 0x800000"

lemmas user_addrs = user_code0_def user_stack0_def user_code1_def user_stack1_def

text \<open>The status of the four calls is not looked at.\<close>

definition map_user_pages :: "u64 \<Rightarrow> 'a pmm_state_scheme \<Rightarrow> 'a pmm_state_scheme" where
  "map_user_pages uc0_phys s =
     (let s = snd (vmm_map_page user_code0 uc0_phys (PTE_U OR PTE_W) s);
          s = snd (vmm_map_page user_stack0 uc0_phys (PTE_U OR PTE_W) s);
          s = snd (vmm_map_page user_code1 uc0_phys (PTE_U OR PTE_W) s)
      in snd (vmm_map_page user_code0 uc0_phys (PTE_U OR PTE_W) s))"

text \<open>User memory: \<open>Inl\<close> is the state in which \<open>panic\<close> halts.\<close>

definition kmain_user_memory ::
    "'a pmm_state_scheme \<Rightarrow> ('a pmm_state_scheme + 'a pmm_state_scheme) option" where
  "kmain_user_memory s =
     (let (uc0_phys, s) = pmm_alloc_pages 1 s;
          (us0_phys, s) = pmm_alloc_pages 1 s;
          (uc1_phys, s) = pmm_alloc_pages 1 s;
          (us1_phys, s) = pmm_alloc_pages 1 s
      in if uc0_phys = 0 \<or> us0_phys = 0 \<or> uc1_phys = 0 \<or> us1_phys = 0
         then Some (Inl (panic ''user pages allocation failed'' s))
         else do {
           let s = map_user_pages uc0_phys s;
           let s = kprintln ''build blob 1'' s;
           s \<leftarrow> build_user_blob user_code0 s;
           let s = kprintln ''build blob 2'' s;
           s \<leftarrow> build_user_blob user_code1 s;
           Some (Inr s)
         })"

section \<open>User memory\<close>

text \<open>Printing is no step for address spaces.\<close>

lemma text_keeps_space:
  fixes s :: "'a pmm_state_scheme"
  defines "t \<equiv> \<lambda>str. put_text str s"
  shows "space_ok A (t str) root = space_ok A s root" "translate (t str) = translate s"
    "data_page A (t str) = data_page A s" "read_cr3 (t str) = read_cr3 s" "free_pages (t str) = free_pages s"
    "phys_to_virt (t str) = phys_to_virt s" "mem (t str) = mem s" "maps_to (t str) = maps_to s"
    "beyond_memory (t str) = beyond_memory s" "pt_get (t str) = pt_get s"
proof -
  obtain tr where t: "t str = s\<lparr>trace := tr\<rparr>" using put_text_trace unfolding t_def by blast
  have f: "pt_get (t str) = pt_get s" "table_page (t str) = table_page s" "vmm_ready (t str) = vmm_ready s"
    "free_pages (t str) = free_pages s" "translate (t str) = translate s"
    unfolding t by (rule tables_cong, simp_all)+
  show "space_ok A (t str) root = space_ok A s root" "translate (t str) = translate s"
    "data_page A (t str) = data_page A s" "free_pages (t str) = free_pages s" "pt_get (t str) = pt_get s"
    by (simp_all add: space_ok_def fun_eq_iff data_page_def f)
  show "read_cr3 (t str) = read_cr3 s" by (simp add: t read_cr3_def)
  then show "maps_to (t str) = maps_to s" by (simp add: fun_eq_iff maps_to_def f)
  show "phys_to_virt (t str) = phys_to_virt s" "mem (t str) = mem s" "beyond_memory (t str) = beyond_memory s"
    by (simp_all add: t fun_eq_iff phys_to_virt_def hhdm_offset_def beyond_memory_def)
qed

definition user_blob :: "u8 list" where
  "user_blob = user_code @ user_msg"

lemma lengths: "length user_code = 21" "length user_msg = 16" "length user_blob = 37"
  by (simp_all add: user_blob_def user_code_def user_msg_def put32_def Let_def)

lemma build_user_blob_page:
  assumes "space_ok A s (read_cr3 s AND NOT 0xfff)" "maps_to s P p" "data_page A s (read_cr3 s AND NOT 0xfff) p"
    and "P \<in> A"
  defines "t \<equiv> s\<lparr>mem := overlay (mem s) (phys_to_virt s p) user_blob\<rparr>"
  shows "build_user_blob P s = Some t" "space_ok A t (read_cr3 s AND NOT 0xfff)"
    "x \<in> A \<Longrightarrow> translate t (read_cr3 s AND NOT 0xfff) x = translate s (read_cr3 s AND NOT 0xfff) x"
    "data_page A t (read_cr3 s AND NOT 0xfff) = data_page A s (read_cr3 s AND NOT 0xfff)"
    "upper_kept A (read_cr3 s AND NOT 0xfff) s t" "free_pages t = free_pages s"
proof -
  have "build_user_blob P s = store_bytes P user_blob s"
    unfolding build_user_blob_def user_blob_def store_bytes_append by (simp split: option.split)
  with store_bytes_page [OF assms(1-4), of 0 user_blob]
  show "build_user_blob P s = Some t" "space_ok A t (read_cr3 s AND NOT 0xfff)"
    "x \<in> A \<Longrightarrow> translate t (read_cr3 s AND NOT 0xfff) x = translate s (read_cr3 s AND NOT 0xfff) x"
    "data_page A t (read_cr3 s AND NOT 0xfff) = data_page A s (read_cr3 s AND NOT 0xfff)"
    "upper_kept A (read_cr3 s AND NOT 0xfff) s t" "free_pages t = free_pages s"
    by (simp_all add: lengths t_def)
qed

text \<open>One of the four mappings.\<close>

lemma map_user_page:
  fixes V p :: u64
  assumes s: "space_ok A s root" "root = read_cr3 s AND NOT 0xfff" and V: "V \<in> A"
    and n: "n + 3 \<le> card (free_pages s)" "0 \<notin> free_pages s"
  defines "t \<equiv> snd (vmm_map_page V p (PTE_U OR PTE_W) s)"
  shows "space_ok A t root" "read_cr3 t = read_cr3 s" "n \<le> card (free_pages t)" "0 \<notin> free_pages t"
    "data_page A s root q \<Longrightarrow> data_page A t root q"
    "x \<in> A \<Longrightarrow> translate t root x = (if same_page x V then Some (leaf_value (vmm_align_down p) (PTE_U OR PTE_W))
      else translate s root x)"
    "free_pages t \<subseteq> free_pages s" "upper_kept A root s t"
    "free_pages s \<subseteq> {..<2 ^ 40} \<Longrightarrow> x \<in> A \<Longrightarrow> user_open s root x \<Longrightarrow> user_open t root x"
proof -
  obtain rc where m: "vmm_map_page_cr3 root V p (PTE_U OR PTE_W) s = (rc, t)"
    using s(2) by (metis t_def vmm_map_page_def prod.collapse)
  from map_page_succeeds [OF s(1) V _ n(2), of p "PTE_U OR PTE_W"] n(1) m have rc: "rc = 0" by simp
  have f: "(PTE_U OR PTE_W) AND NOT (PTE_PCD OR PTE_PWT) = PTE_U OR PTE_W" by (simp add: pte_defs)
  note sp = map_page_spec [OF s(1) V m, unfolded f rc]
  from sp show "space_ok A t root" by simp
  from sp show "x \<in> A \<Longrightarrow> translate t root x = (if same_page x V then Some (leaf_value (vmm_align_down p) (PTE_U OR PTE_W))
      else translate s root x)" by simp
  note k = map_keeps_data [OF s(1) V m]
  show "data_page A s root q \<Longrightarrow> data_page A t root q" by (rule k(1))
  from k(3) n(1) show "n \<le> card (free_pages t)" by simp
  from k(4) n(2) show "0 \<notin> free_pages t" by blast
  show "free_pages t \<subseteq> free_pages s" by (rule k(4))
  note g = map_grows [OF s(1) V m]
  show "upper_kept A root s t" by (rule grows_upper_kept [OF g])
  have "(PTE_U OR PTE_W) AND PTE_U \<noteq> 0" by (simp add: pte_defs)
  from grows_user_open [OF g this]
  show "free_pages s \<subseteq> {..<2 ^ 40} \<Longrightarrow> x \<in> A \<Longrightarrow> user_open s root x \<Longrightarrow> user_open t root x" .
  show "read_cr3 t = read_cr3 s"
    using beyond_memoryD(1) [OF beyond_map_page [of V p "PTE_U OR PTE_W" s]] by (simp add: t_def read_cr3_def)
qed

lemma alloc_page_bounds:
  assumes "vmm_ready s" "pmm_alloc_pages 1 s = (p, t)" "unat (g_total_pages s) \<le> 2 ^ 40"
  shows "unat p < 2 ^ 52" "aligned 12 p" "g_total_pages t = g_total_pages s"
proof -
  have inv: "pmm_inv s" using assms(1) by (simp add: vmm_ready_def)
  from pmm_alloc_one [OF inv assms(2)] consider
    "p = 0" "t = s" | r v where "r < g_total_pages s" "p = r * PAGE_SIZE" "t = (bitmap_set r s)\<lparr>g_free_bytes := v\<rparr>"
    by blast
  then have "unat p < 2 ^ 52 \<and> aligned 12 p \<and> g_total_pages t = g_total_pages s"
  proof cases
    case 2
    then have "unat r < 2 ^ 40" using assms(3) by (simp add: word_less_nat_alt)
    moreover from this have "unat (r * PAGE_SIZE) = 4096 * unat r" by (simp add: unat_pages)
    ultimately show ?thesis using 2 by (simp add: aligned_unat)
  qed (simp add: aligned_unat)
  then show "unat p < 2 ^ 52" "aligned 12 p" "g_total_pages t = g_total_pages s" by blast+
qed

lemma user_entry_leaf:
  assumes "unat p < 2 ^ 52"
  shows "user_entry (leaf_value (vmm_align_down p) (PTE_U OR PTE_W))"
proof -
  have hi: "take_bit 52 p = p"
    using assms by (simp add: word_unat_eq_iff unsigned_take_bit_eq take_bit_nat_eq_self)
  have "p AND PTE_NX = 0"
  proof (rule bit_word_eqI)
    fix n
    have "bit p n \<Longrightarrow> n < 52" using arg_cong [OF hi, of "\<lambda>w. bit w n"] by (simp add: bit_take_bit_iff)
    then show "bit (p AND PTE_NX) n = bit 0 n" by (auto simp: bit_simps bit_pte)
  qed
  moreover have "(PTE_U OR PTE_W) AND PTE_U \<noteq> 0" "(PTE_U OR PTE_W) AND PTE_NX = 0"
    "(PTE_U OR PTE_W) AND NOT (PTE_PCD OR PTE_PWT) = PTE_U OR PTE_W" by (simp_all add: pte_defs)
  ultimately show ?thesis using user_leaf [of "PTE_U OR PTE_W" p] by simp
qed

lemma page_frame_leaf:
  assumes "unat p < 2 ^ 52" "aligned 12 p"
  shows "page_frame (leaf_value (vmm_align_down p) (PTE_U OR PTE_W)) = p"
proof (rule bit_word_eqI)
  fix n
  assume "n < LENGTH(64)"
  have m: "(0x000ffffffffff000 :: u64) = mask 52 AND NOT (mask 12)" "PAGE_SIZE - 1 = mask 12" "(0xfff :: u64) = mask 12"
    by (simp_all add: PAGE_SIZE_def mask_eq_exp_minus_1)
  have hi: "take_bit 52 p = p"
    using assms(1) by (simp add: word_unat_eq_iff unsigned_take_bit_eq take_bit_nat_eq_self)
  have "bit p n \<Longrightarrow> n < 52" using arg_cong [OF hi, of "\<lambda>w. bit w n"] by (simp add: bit_take_bit_iff)
  moreover have "bit p n \<Longrightarrow> 12 \<le> n"
    using arg_cong [OF assms(2) [unfolded aligned_def], of "\<lambda>w. bit w n"] by (auto simp: bit_simps)
  ultimately show "bit (page_frame (leaf_value (vmm_align_down p) (PTE_U OR PTE_W))) n = bit p n"
    by (auto simp: page_frame_def leaf_value_def vmm_align_down_def m bit_simps bit_pte)
qed

text \<open>
  All four mappings, from a space with twelve free pages to spare: the three addresses of user memory all lead
  to the same data page, and no other translation changes.
\<close>

lemma map_user_pages_spec:
  assumes s: "space_ok A s root" "root = read_cr3 s AND NOT 0xfff" "n + 12 \<le> card (free_pages s)" "0 \<notin> free_pages s"
    and p: "data_page A s root p" "unat p < 2 ^ 52" and A: "{user_code0, user_stack0, user_code1} \<subseteq> A"
  defines "t \<equiv> map_user_pages p s"
  shows "space_ok A t root" "read_cr3 t = read_cr3 s" "data_page A t root p"
    "V \<in> {user_code0, user_stack0, user_code1} \<Longrightarrow> maps_to t V p"
    "(\<forall>V \<in> {user_code0, user_stack0, user_code1}. \<not> same_page x V) \<Longrightarrow> x \<in> A \<Longrightarrow> translate t root x = translate s root x"
    "free_pages s \<subseteq> {..<2 ^ 40} \<Longrightarrow> V \<in> {user_code0, user_stack0, user_code1} \<Longrightarrow> user_open s root V \<Longrightarrow>
      user_page t root V"
    "n \<le> card (free_pages t)" "0 \<notin> free_pages t"
proof -
  let ?m = "\<lambda>V s. snd (vmm_map_page V p (PTE_U OR PTE_W) s)"
  define s1 where "s1 = ?m user_code0 s"
  define s2 where "s2 = ?m user_stack0 s1"
  define s3 where "s3 = ?m user_code1 s2"
  have t: "t = ?m user_code0 s3" by (simp add: t_def map_user_pages_def s1_def s2_def s3_def)
  have n: "n + 9 + 3 \<le> card (free_pages s)" using s(3) by simp
  have V: "user_code0 \<in> A" "user_stack0 \<in> A" "user_code1 \<in> A" using A by simp_all
  note m1 = map_user_page [OF s(1,2) V(1) n s(4), where p = p, folded s1_def]
  have r1: "root = read_cr3 s1 AND NOT 0xfff" "n + 6 + 3 \<le> card (free_pages s1)" using s(2) m1(2,3) by simp_all
  note m2 = map_user_page [OF m1(1) r1(1) V(2) r1(2) m1(4), where p = p, folded s2_def]
  have r2: "root = read_cr3 s2 AND NOT 0xfff" "n + 3 + 3 \<le> card (free_pages s2)" using r1 m2(2,3) by simp_all
  note m3 = map_user_page [OF m2(1) r2(1) V(3) r2(2) m2(4), where p = p, folded s3_def]
  have r3: "root = read_cr3 s3 AND NOT 0xfff" "n + 3 \<le> card (free_pages s3)" using r2 m3(2,3) by simp_all
  note m4 = map_user_page [OF m3(1) r3(1) V(1) r3(2) m3(4), where p = p, folded t]
  show "space_ok A t root" "n \<le> card (free_pages t)" "0 \<notin> free_pages t" by (rule m4(1), rule m4(3), rule m4(4))
  show cr3: "read_cr3 t = read_cr3 s" using m1(2) m2(2) m3(2) m4(2) by simp
  show "data_page A t root p" using m4(5) m3(5) m2(5) m1(5) p(1) by blast
  let ?V = "{user_code0, user_stack0, user_code1}" and ?e = "leaf_value (vmm_align_down p) (PTE_U OR PTE_W)"
  have T: "translate t root x = (if \<exists>V \<in> ?V. same_page x V then Some ?e else translate s root x)" if "x \<in> A" for x
    using that m1(6) [of x] m2(6) [of x] m3(6) [of x] m4(6) [of x] by simp
  have a: "aligned 12 p" using p(1) by (simp add: data_page_def table_page_def)
  show "maps_to t V p" if "V \<in> ?V"
  proof -
    have "same_page V V" by (simp add: same_page_def)
    then have "translate t (read_cr3 t AND NOT 0xfff) V = Some ?e"
      unfolding cr3 s(2) [symmetric] using T [of V] that A by auto
    moreover have "aligned 12 V \<and> drop_bit 47 V = 0"
      using that by (auto simp: user_addrs aligned_unat)
    ultimately show ?thesis by (simp only: maps_to_def option.map page_frame_leaf [OF p(2) a])
  qed
  show "translate t root x = translate s root x" if "\<forall>V \<in> ?V. \<not> same_page x V" "x \<in> A"
    using that T by simp
  show "user_page t root V" if f: "free_pages s \<subseteq> {..<2 ^ 40}" and V: "V \<in> ?V" "user_open s root V"
  proof -
    have "V \<in> A" "same_page V V" using V(1) A by (auto simp: same_page_def)
    then have "translate t root V = Some ?e" using T [of V] V(1) by auto
    moreover have "user_open t root V"
      using m4(9) [OF _ \<open>V \<in> A\<close> m3(9) [OF _ \<open>V \<in> A\<close> m2(9) [OF _ \<open>V \<in> A\<close> m1(9) [OF f \<open>V \<in> A\<close> V(2)]]]]
        m1(7) m2(7) m3(7) f by blast
    ultimately show ?thesis using user_entry_leaf [OF p(2)] by (simp add: user_page_def)
  qed
qed

lemma alloc_step:
  assumes "space_ok A s root" "root = read_cr3 s AND NOT 0xfff" "n + 1 \<le> card (free_pages s)" "0 \<notin> free_pages s"
    and "pmm_alloc_pages 1 s = (p, t)"
  shows "p \<noteq> 0" "space_ok A t root" "root = read_cr3 t AND NOT 0xfff" "n \<le> card (free_pages t)" "0 \<notin> free_pages t"
    "data_page A t root p" "data_page A s root q \<Longrightarrow> data_page A t root q" "x \<in> A \<Longrightarrow> translate t root x = translate s root x"
    "beyond_memory t = beyond_memory s" "free_pages t \<subseteq> free_pages s"
    "x \<in> A \<Longrightarrow> user_open t root x = user_open s root x"
proof -
  have r: "vmm_ready s" using assms(1) by (simp add: space_ok_def)
  note a = alloc_succeeds [OF r assms(5,4), of n]
  then show p: "p \<noteq> 0" "n \<le> card (free_pages t)" "0 \<notin> free_pages t" using assms(3) by simp_all
  note k = alloc_keeps_space [OF assms(1,5)]
  show "space_ok A t root" "x \<in> A \<Longrightarrow> translate t root x = translate s root x" by (rule k(1), rule k(2))
  show "data_page A s root q \<Longrightarrow> data_page A t root q" by (rule k(3))
  show "x \<in> A \<Longrightarrow> user_open t root x = user_open s root x" by (rule k(5))
  show "free_pages t \<subseteq> free_pages s" using alloc_one_spec [OF r assms(5)] by blast
  show "data_page A t root p" by (rule data_page_alloc [OF assms(1,5) p(1)])
  show "root = read_cr3 t AND NOT 0xfff"
    using beyond_memoryD(1) [OF beyond_alloc_pages [of 1 s]] assms(2,5) by (simp add: read_cr3_def)
  show "beyond_memory t = beyond_memory s" using beyond_alloc_pages [of 1 s] assms(5) by simp
qed

lemma mem_update_keeps:
  fixes s :: "'a pmm_state_scheme"
  shows "read_cr3 (s\<lparr>mem := m\<rparr>) = read_cr3 s" "phys_to_virt (s\<lparr>mem := m\<rparr>) = phys_to_virt s" "mem (s\<lparr>mem := m\<rparr>) = m"
    "beyond_memory (s\<lparr>mem := m\<rparr>) = beyond_memory s"
  by (simp_all add: read_cr3_def fun_eq_iff phys_to_virt_def hhdm_offset_def beyond_memory_def)

lemma beyond_map_user_pages: "beyond_memory (map_user_pages p s) = beyond_memory s"
  by (simp add: map_user_pages_def beyond_map_page)

text \<open>
  All of it, with what the rest of the boot path relies on: the page of the program is a data page,
  its bytes are in place, and nothing beyond memory has changed.
\<close>

lemma user_memory_spec:
  assumes "space_ok A s root" "root = read_cr3 s AND NOT 0xfff" "n + 16 \<le> card (free_pages s)" "0 \<notin> free_pages s"
    and "unat (g_total_pages s) \<le> 2 ^ 40" and A: "{user_code0, user_stack0, user_code1} \<subseteq> A"
  shows "\<exists>p t. kmain_user_memory s = Some (Inr t) \<and> space_ok A t root \<and> data_page A t root p \<and>
    (\<forall>i < length user_blob. mem t (phys_to_virt t p + of_nat i) = user_blob ! i) \<and>
    (\<forall>V \<in> {user_code0, user_stack0, user_code1}. maps_to t V p) \<and>
    (\<forall>x \<in> A. (\<forall>V \<in> {user_code0, user_stack0, user_code1}. \<not> same_page x V) \<longrightarrow>
       translate t root x = translate s root x) \<and> beyond_memory t = beyond_memory s \<and>
    (\<forall>V \<in> {user_code0, user_stack0, user_code1}. user_open s root V \<longrightarrow> user_page t root V) \<and>
    n \<le> card (free_pages t) \<and> 0 \<notin> free_pages t"
proof -
  obtain p1 s1 where a1: "pmm_alloc_pages 1 s = (p1, s1)" by force
  obtain p2 s2 where a2: "pmm_alloc_pages 1 s1 = (p2, s2)" by force
  obtain p3 s3 where a3: "pmm_alloc_pages 1 s2 = (p3, s3)" by force
  obtain p4 s4 where a4: "pmm_alloc_pages 1 s3 = (p4, s4)" by force
  have n: "n + 15 + 1 \<le> card (free_pages s)" using assms(3) by simp
  note b1 = alloc_step [OF assms(1,2) n assms(4) a1]
  have n1: "n + 14 + 1 \<le> card (free_pages s1)" using b1(4) by simp
  note b2 = alloc_step [OF b1(2,3) n1 b1(5) a2]
  have n2: "n + 13 + 1 \<le> card (free_pages s2)" using b2(4) by simp
  note b3 = alloc_step [OF b2(2,3) n2 b2(5) a3]
  have n3: "n + 12 + 1 \<le> card (free_pages s3)" using b3(4) by simp
  note b4 = alloc_step [OF b3(2,3) n3 b3(5) a4]
  have d: "data_page A s4 root p1" using b4(7) b3(7) b2(7) b1(6) by blast
  have "vmm_ready s" using assms(1) by (simp add: space_ok_def)
  note small = alloc_page_bounds(1) [OF this a1 assms(5)]
  define u where "u = map_user_pages p1 s4"
  note m = map_user_pages_spec [OF b4(2,3,4,5) d small A, folded u_def]
  have root: "root = read_cr3 u AND NOT 0xfff" using b4(3) m(2) by simp
  let ?V = "{user_code0, user_stack0, user_code1}"
  define v where "v = kprintln ''build blob 1'' u"
  have v: "space_ok A v (read_cr3 v AND NOT 0xfff)" "data_page A v (read_cr3 v AND NOT 0xfff) p1" "read_cr3 v = read_cr3 u"
    "maps_to v = maps_to u" "translate v = translate u" "phys_to_virt v = phys_to_virt u"
    using m(1,3) root by (simp_all add: v_def kprintln_text text_keeps_space)
  have V: "maps_to v P p1" if "P \<in> ?V" for P using m(4) [OF that] v(4) by simp
  have VA: "user_code0 \<in> ?V" "user_code1 \<in> ?V" "user_code0 \<in> A" "user_code1 \<in> A" using A by simp_all
  define w where "w = v\<lparr>mem := overlay (mem v) (phys_to_virt v p1) user_blob\<rparr>"
  note w = build_user_blob_page [OF v(1) V [OF VA(1)] v(2) VA(3), folded w_def]
  have wr: "read_cr3 w = read_cr3 v" "phys_to_virt w = phys_to_virt v" by (simp_all add: w_def mem_update_keeps)
  define x where "x = kprintln ''build blob 2'' w"
  have x: "space_ok A x (read_cr3 x AND NOT 0xfff)" "data_page A x (read_cr3 x AND NOT 0xfff) p1" "read_cr3 x = read_cr3 w"
    "maps_to x = maps_to w" "translate x = translate w" "phys_to_virt x = phys_to_virt w"
    using w(2,4) v(2) wr(1) by (simp_all add: x_def kprintln_text text_keeps_space)
  have X: "maps_to x P p1" if "P \<in> ?V" for P
    using V [OF that] w(3) [of P] wr(1) x(4) that A by (auto simp: maps_to_def)
  define t where "t = x\<lparr>mem := overlay (mem x) (phys_to_virt x p1) user_blob\<rparr>"
  note t = build_user_blob_page [OF x(1) X [OF VA(2)] x(2) VA(4), folded t_def]
  have tr: "read_cr3 t = read_cr3 x" "phys_to_virt t = phys_to_virt x" by (simp_all add: t_def mem_update_keeps)
  have T: "maps_to t P p1" if "P \<in> ?V" for P
    using X [OF that] t(3) [of P] tr(1) that A by (auto simp: maps_to_def)
  have run: "kmain_user_memory s = Some (Inr t)"
    using b1(1) b2(1) b3(1) b4(1) a1 a2 a3 a4 w(1) t(1)
    by (simp add: kmain_user_memory_def u_def v_def x_def)
  have bytes: "mem t (phys_to_virt t p1 + of_nat i) = user_blob ! i" if "i < length user_blob" for i
  proof -
    have "mem t = overlay (mem x) (phys_to_virt t p1) user_blob"
      unfolding tr(2) by (simp add: t_def)
    then show ?thesis using overlay_at [OF that] that by (simp add: lengths)
  qed
  have other: "translate t root y = translate s root y"
    if "y \<in> A" "\<forall>V \<in> ?V. \<not> same_page y V" for y
  proof -
    have "translate t root y = translate u root y"
      using t(3) [OF that(1)] tr(1) x(3,5) w(3) [OF that(1)] wr(1) v(3,5) root by simp
    also have "\<dots> = translate s root y"
      using m(5) [OF that(2,1)] b1(8) [OF that(1)] b2(8) [OF that(1)] b3(8) [OF that(1)] b4(8) [OF that(1)] by simp
    finally show ?thesis .
  qed
  have "beyond_memory t = beyond_memory s"
    using b1(9) b2(9) b3(9) b4(9) beyond_map_user_pages [of p1 s4]
    by (simp add: t_def x_def w_def v_def u_def mem_update_keeps kprintln_text text_keeps_space)
  moreover have "space_ok A t root" "data_page A t root p1"
    using t(2,4) x(2) tr(1) x(3) wr(1) v(3) root by simp_all
  moreover have "n \<le> card (free_pages t)" "0 \<notin> free_pages t"
    using m(7,8) t(6) w(6) by (simp_all add: x_def v_def kprintln_text text_keeps_space)
  moreover have "user_page t root V" if V: "V \<in> ?V" "user_open s root V" for V
  proof -
    have VA: "V \<in> A" using V(1) A by blast
    have "free_pages s4 \<subseteq> {..<2 ^ 40}"
      using b1(10) b2(10) b3(10) b4(10) assms(5) by (fastforce dest: free_pages_less)
    moreover have "user_open s4 root V"
      using V(2) b1(11) [OF VA] b2(11) [OF VA] b3(11) [OF VA] b4(11) [OF VA] by simp
    ultimately have "user_page u root V" using m(6) V(1) by blast
    then have "user_page v root V"
      using levels_cong(3) [of v u root V] by (simp add: v_def kprintln_text text_keeps_space)
    then have "user_page w root V"
      by (rule user_page_kept) (use w(3,5) VA v(3) root in simp_all)
    then have "user_page x root V"
      using levels_cong(3) [of x w root V] by (simp add: x_def kprintln_text text_keeps_space)
    then show ?thesis
      by (rule user_page_kept) (use t(3,5) VA x(3) wr(1) v(3) root in simp_all)
  qed
  ultimately show ?thesis using run T bytes other by (intro exI [of _ p1] exI [of _ t]) simp
qed

lemma blob_at:
  assumes "maps_to s P p" "\<forall>i < length user_blob. mem s (phys_to_virt s p + of_nat i) = user_blob ! i"
  shows "holds_bytes s P user_blob"
  using holds_bytes_page [OF assms(1), of user_blob] assms(2) by (simp add: lengths)

lemma code_at:
  assumes "maps_to s P p" "\<forall>i < length user_blob. mem s (phys_to_virt s p + of_nat i) = user_blob ! i"
    and "user_page s (read_cr3 s AND NOT 0xfff) P"
  shows "holds_code s P user_blob"
  by (rule holds_code_page [OF assms(1,3) _ blob_at [OF assms(1,2)]]) (simp add: lengths)

text \<open>
  C4: With sixteen free pages \<open>kmain\<close> sets up user memory: both code addresses show the program, user
  mode may execute it where the upper levels that were present let it in, and the address space stays
  well formed. The three mapped addresses all lead to the page of the first
  program, so the first stack lies on top of the code, and the second stack is not mapped at all.
\<close>

theorem kmain_user_memory_ready:
  assumes "space_ok A s root" "root = read_cr3 s AND NOT 0xfff" "16 \<le> card (free_pages s)" "0 \<notin> free_pages s"
    and "unat (g_total_pages s) \<le> 2 ^ 40" and "{user_code0, user_stack0, user_code1, user_stack1} \<subseteq> A"
  shows "\<exists>p t. kmain_user_memory s = Some (Inr t) \<and> space_ok A t root \<and>
    (\<forall>V \<in> {user_code0, user_code1}. holds_bytes t V user_blob \<and>
       (user_open s root V \<longrightarrow> holds_code t V user_blob)) \<and>
    (\<forall>V \<in> {user_code0, user_stack0, user_code1}. maps_to t V p) \<and>
    translate t root user_stack1 = translate s root user_stack1"
proof -
  have "\<forall>V \<in> {user_code0, user_stack0, user_code1}. \<not> same_page user_stack1 V"
    by (simp add: same_page_def user_addrs)
  moreover obtain p t where t: "kmain_user_memory s = Some (Inr t)" "space_ok A t root"
    "\<forall>i < length user_blob. mem t (phys_to_virt t p + of_nat i) = user_blob ! i"
    "\<forall>V \<in> {user_code0, user_stack0, user_code1}. maps_to t V p"
    "\<forall>x \<in> A. (\<forall>V \<in> {user_code0, user_stack0, user_code1}. \<not> same_page x V) \<longrightarrow>
       translate t root x = translate s root x" "beyond_memory t = beyond_memory s"
    "\<forall>V \<in> {user_code0, user_stack0, user_code1}. user_open s root V \<longrightarrow> user_page t root V"
    using user_memory_spec [OF assms(1,2) _ assms(4,5), of 0] assms(3,6) by auto
  moreover have "holds_bytes t V user_blob \<and> (user_open s root V \<longrightarrow> holds_code t V user_blob)"
    if V: "V \<in> {user_code0, user_code1}" for V
  proof -
    have m: "maps_to t V p" using t(4) V by blast
    have "read_cr3 t = read_cr3 s" using beyond_memoryD(1) [OF t(6)] by (simp add: read_cr3_def)
    with code_at [OF m t(3)] blob_at [OF m t(3)] t(7) V assms(2) show ?thesis by auto
  qed
  ultimately show ?thesis using assms(6) by (intro exI [of _ p] exI [of _ t]) simp
qed

section \<open>Running the program\<close>

text \<open>
  The registers the program uses, and the instructions it is made of: \<open>mov eax, imm32\<close>,
  \<open>lea rdi, [rip + disp32]\<close>, \<open>mov esi, imm32\<close>, \<open>syscall\<close> and \<open>jmp rel8\<close>. \<open>rd\<close> reads the byte
  at an address, \<open>None\<close> is another instruction or a page fault.
\<close>

record user_cpu =
  u_rip :: u64
  u_rax :: u64
  u_rdi :: u64
  u_rsi :: u64

datatype user_step_result = Ran user_cpu | Syscall user_cpu

definition imm32 :: "(u64 \<Rightarrow> u8 option) \<Rightarrow> u64 \<Rightarrow> u32 option" where
  "imm32 rd a =
     do {
       b0 \<leftarrow> rd a;
       b1 \<leftarrow> rd (a + 1);
       b2 \<leftarrow> rd (a + 2);
       b3 \<leftarrow> rd (a + 3);
       Some (ucast b0 OR push_bit 8 (ucast b1) OR push_bit 16 (ucast b2) OR push_bit 24 (ucast b3))
     }"

definition user_step :: "(u64 \<Rightarrow> u8 option) \<Rightarrow> user_cpu \<Rightarrow> user_step_result option" where
  "user_step rd c =
     (let ip = u_rip c
      in if rd ip = Some 0xb8 then
           map_option (\<lambda>v. Ran (c\<lparr>u_rip := ip + 5, u_rax := ucast v\<rparr>)) (imm32 rd (ip + 1))
         else if rd ip = Some 0x48 \<and> rd (ip + 1) = Some 0x8d \<and> rd (ip + 2) = Some 0x3d then
           map_option (\<lambda>v. Ran (c\<lparr>u_rip := ip + 7, u_rdi := ip + 7 + scast v\<rparr>)) (imm32 rd (ip + 3))
         else if rd ip = Some 0xbe then
           map_option (\<lambda>v. Ran (c\<lparr>u_rip := ip + 5, u_rsi := ucast v\<rparr>)) (imm32 rd (ip + 1))
         else if rd ip = Some 0x0f \<and> rd (ip + 1) = Some 0x05 then Some (Syscall (c\<lparr>u_rip := ip + 2\<rparr>))
         else if rd ip = Some 0xeb then
           map_option (\<lambda>d. Ran (c\<lparr>u_rip := ip + 2 + scast d\<rparr>)) (rd (ip + 1))
         else None)"

lemma user_blob_bytes:
  "user_blob = [0xb8, 0, 0, 0, 0, 0x48, 0x8d, 0x3d, 9, 0, 0, 0, 0xbe, 16, 0, 0, 0, 0x0f, 0x05, 0xeb, 0xfe] @ user_msg"
  by (simp add: user_blob_def user_code_def put32_def Let_def lengths)

lemma blob_code:
  assumes "holds_code s P user_blob" "k < 21"
  shows "user_fetch s (P + of_nat k) = Some (user_code ! k)"
  using assms lengths by (auto simp: holds_code_def user_blob_def nth_append)

lemma blob_msg:
  assumes "holds_bytes s P user_blob"
  shows "readable s (P + 21) [0..<16] = user_msg"
proof -
  have "load_byte s (P + 21 + of_nat i) = Some (user_msg ! i)" if "i < 16" for i
  proof -
    have "P + 21 + of_nat i = P + of_nat (21 + i)" by simp
    moreover have "load_byte s (P + of_nat (21 + i)) = Some (user_blob ! (21 + i))"
      using assms that lengths by (simp add: holds_bytes_def del: of_nat_add)
    ultimately show ?thesis using lengths by (simp add: user_blob_def nth_append add.assoc)
  qed
  then have "map (\<lambda>i. load_byte s (P + 21 + of_nat i)) [0..<16] = map Some user_msg"
    using lengths by (intro nth_equalityI) simp_all
  then show ?thesis by (simp add: readable_def takeWhile_map o_def)
qed

lemma user_code_bytes:
  "user_code = [0xb8, 0, 0, 0, 0, 0x48, 0x8d, 0x3d, 9, 0, 0, 0, 0xbe, 16, 0, 0, 0, 0x0f, 0x05, 0xeb, 0xfe]"
  by (simp add: user_code_def put32_def Let_def lengths)

lemma message_shown: "shown user_msg = ''hello from user'' @ [CHR 0x0A]"
  by (simp add: shown_def user_msg_def)

text \<open>
  One instruction of the program, system calls included: the dispatcher looks at the first two arguments
  only. The stub restores neither \<open>rdi\<close> nor \<open>rsi\<close>, so that they hold afterwards what the compiled
  dispatcher left there, \<open>junk\<close>. \<open>None\<close> is a fault, or a call that does not come back.
\<close>

type_synonym call_junk = "hw_event list \<Rightarrow> user_cpu \<Rightarrow> user_cpu"

definition user_instr ::
    "call_junk \<Rightarrow> user_cpu \<Rightarrow> 'a pmm_state_scheme \<Rightarrow> (user_cpu \<times> 'a pmm_state_scheme) option" where
  "user_instr junk c s =
     (case user_step (user_fetch s) c of
        None \<Rightarrow> None
      | Some (Ran c) \<Rightarrow> Some (c, s)
      | Some (Syscall c) \<Rightarrow>
          (case syscall_dispatch (u_rax c) (u_rdi c) (u_rsi c) 0 0 0 0 s of
             (r, s) \<Rightarrow>
               (case r of
                  Returned v \<Rightarrow> Some ((junk (trace s) c)\<lparr>u_rip := u_rip c, u_rax := v\<rparr>, s)
                | _ \<Rightarrow> None)))"

primrec user_run ::
    "call_junk \<Rightarrow> nat \<Rightarrow> user_cpu \<Rightarrow> 'a pmm_state_scheme \<Rightarrow> (user_cpu \<times> 'a pmm_state_scheme) option" where
  "user_run junk 0 c s = Some (c, s)"
| "user_run junk (Suc n) c s =
     (case user_instr junk c s of None \<Rightarrow> None | Some (c, s) \<Rightarrow> user_run junk n c s)"

text \<open>The registers of the program at \<open>P\<close> after \<open>n\<close> instructions, as far as they matter.\<close>

definition progress :: "u64 \<Rightarrow> nat \<Rightarrow> user_cpu \<Rightarrow> bool" where
  "progress P n c \<longleftrightarrow>
     (if n = 0 then u_rip c = P
      else if n = 1 then u_rip c = P + 5 \<and> u_rax c = 0
      else if n = 2 then u_rip c = P + 12 \<and> u_rax c = 0 \<and> u_rdi c = P + 21
      else if n = 3 then u_rip c = P + 17 \<and> u_rax c = 0 \<and> u_rdi c = P + 21 \<and> u_rsi c = 16
      else u_rip c = P + 19 \<and> u_rax c = 16)"

definition user_text :: string where
  "user_text = ''hello from user'' @ [CHR 0x0A]"

lemma user_fetch_put_text [simp]: "user_fetch (put_text str s) = user_fetch s" for s :: "'a pmm_state_scheme"
  by (simp add: fun_eq_iff user_fetch_def text_keeps_space levels_cong(3) [OF text_keeps_space(10)])

lemma holds_code_put_text [simp]: "holds_code (put_text str s) P bs = holds_code s P bs" for s :: "'a pmm_state_scheme"
  by (simp add: holds_code_def)

text \<open>The fourth instruction is the system call, and the fifth stays where it is.\<close>

lemma progress_step:
  assumes code: "holds_code s P user_blob" and c: "progress P n c"
  shows "\<exists>c'. user_instr junk c s = Some (c', if n = 3 then put_text user_text s else s) \<and> progress P (Suc n) c'"
proof -
  note at = blob_code [OF code, unfolded user_code_bytes]
  have rd: "user_fetch s P = Some 0xb8" "user_fetch s (P + 1) = Some 0" "user_fetch s (P + 2) = Some 0"
    "user_fetch s (P + 3) = Some 0" "user_fetch s (P + 4) = Some 0" "user_fetch s (P + 5) = Some 0x48"
    "user_fetch s (P + 6) = Some 0x8d" "user_fetch s (P + 7) = Some 0x3d" "user_fetch s (P + 8) = Some 9"
    "user_fetch s (P + 9) = Some 0" "user_fetch s (P + 10) = Some 0" "user_fetch s (P + 11) = Some 0"
    "user_fetch s (P + 12) = Some 0xbe" "user_fetch s (P + 13) = Some 16" "user_fetch s (P + 14) = Some 0"
    "user_fetch s (P + 15) = Some 0" "user_fetch s (P + 16) = Some 0" "user_fetch s (P + 17) = Some 0x0f"
    "user_fetch s (P + 18) = Some 0x05" "user_fetch s (P + 19) = Some 0xeb" "user_fetch s (P + 20) = Some 0xfe"
    using at [of 0] at [of 1] at [of 2] at [of 3] at [of 4] at [of 5] at [of 6] at [of 7] at [of 8] at [of 9]
      at [of 10] at [of 11] at [of 12] at [of 13] at [of 14] at [of 15] at [of 16] at [of 17] at [of 18]
      at [of 19] at [of 20] by simp_all
  consider "n = 0" | "n = 1" | "n = 2" | "n = 3" | "3 < n" by linarith
  then show ?thesis
  proof cases
    case 1
    then have "user_step (user_fetch s) c = Some (Ran (c\<lparr>u_rip := P + 5, u_rax := 0\<rparr>))"
      using c by (simp add: user_step_def imm32_def rd progress_def add.assoc)
    then show ?thesis using 1 by (simp add: user_instr_def progress_def)
  next
    case 2
    then have "user_step (user_fetch s) c = Some (Ran (c\<lparr>u_rip := P + 12, u_rdi := P + 21\<rparr>))"
      using c by (simp add: user_step_def imm32_def rd progress_def add.assoc)
    then show ?thesis using 2 c by (simp add: user_instr_def progress_def)
  next
    case 3
    then have "user_step (user_fetch s) c = Some (Ran (c\<lparr>u_rip := P + 17, u_rsi := 16\<rparr>))"
      using c by (simp add: user_step_def imm32_def rd progress_def add.assoc)
    then show ?thesis using 3 c by (simp add: user_instr_def progress_def)
  next
    case 4
    then have "user_step (user_fetch s) c = Some (Syscall (c\<lparr>u_rip := P + 19\<rparr>))"
      using c by (simp add: user_step_def imm32_def rd progress_def add.assoc)
    moreover have "syscall_dispatch 0 (P + 21) 16 0 0 0 0 s = (Returned 16, put_text user_text s)"
      using write_loop_spec [of "P + 21" 16 0 s] blob_msg [OF holds_code_bytes [OF code]] lengths(2)
      by (simp add: syscall_dispatch_def SYS_debug_write_def message_shown user_text_def)
    ultimately show ?thesis using 4 c by (simp add: user_instr_def progress_def)
  next
    case 5
    then have "user_step (user_fetch s) c = Some (Ran c)"
      using c by (simp add: user_step_def rd progress_def add.assoc)
    then show ?thesis using 5 c by (simp add: user_instr_def progress_def)
  qed
qed

lemma progress_run:
  assumes "holds_code s P user_blob" "progress P k c"
  shows "\<exists>c'. user_run junk n c s = Some (c', if k < 4 \<and> 4 \<le> k + n then put_text user_text s else s) \<and>
    progress P (k + n) c'"
  using assms
proof (induction n arbitrary: k c s)
  case (Suc n)
  let ?s = "if k = 3 then put_text user_text s else s"
  obtain c' where c': "user_instr junk c s = Some (c', ?s)" "progress P (Suc k) c'"
    using progress_step [OF Suc.prems] by blast
  have "holds_code ?s P user_blob" using Suc.prems(1) by simp
  from Suc.IH [OF this c'(2)] show ?case using c'(1) by (auto split: if_splits)
qed auto

text \<open>
  C12: Where user mode may execute the program it loads the number of \<open>debug_write\<close>, the address and the
  length of its message and makes the system call, which prints the message and returns 16; after that
  the program stays at its last instruction for good. So however long it runs, the message is printed
  once.
\<close>

theorem user_program_writes:
  assumes "holds_code s P user_blob" "u_rip c = P"
  shows "\<exists>c'. user_run junk n c s = Some (c', if n < 4 then s else put_text (''hello from user'' @ [CHR 0x0A]) s) \<and>
    (4 \<le> n \<longrightarrow> u_rip c' = P + 19 \<and> u_rax c' = 16)"
proof -
  have "progress P 0 c" using assms(2) by (simp add: progress_def)
  from progress_run [OF assms(1) this, of junk n] show ?thesis
    by (auto simp: progress_def user_text_def not_le)
qed

section \<open>Witnesses\<close>

lemma demo_user_memory:
  "\<exists>p t. kmain_user_memory demo_vmm = Some (Inr t) \<and>
    holds_code t user_code0 user_blob \<and> holds_code t user_code1 user_blob \<and> maps_to t user_stack0 p"
proof -
  have s: "0x5000 = read_cr3 demo_vmm AND NOT 0xfff" "16 \<le> card (free_pages demo_vmm)" "0 \<notin> free_pages demo_vmm"
    "unat (g_total_pages demo_vmm) \<le> 2 ^ 40"
    by (simp_all only: demo_vmm_card, simp_all add: demo_vmm_free) (simp_all add: demo_vmm_def read_cr3_def)
  obtain p t where t: "kmain_user_memory demo_vmm = Some (Inr t)"
    "\<forall>i < length user_blob. mem t (phys_to_virt t p + of_nat i) = user_blob ! i"
    "\<forall>V \<in> {user_code0, user_stack0, user_code1}. maps_to t V p" "beyond_memory t = beyond_memory demo_vmm"
    "\<forall>V \<in> {user_code0, user_stack0, user_code1}. user_open demo_vmm 0x5000 V \<longrightarrow> user_page t 0x5000 V"
    using user_memory_spec [OF demo_space_ok(1) s(1) _ s(3,4) subset_UNIV, of 0] s(2) by auto
  have "read_cr3 t AND NOT 0xfff = 0x5000" using beyond_memoryD(1) [OF t(4)] s(1) by (simp add: read_cr3_def)
  with code_at [OF _ t(2)] t(3,5) demo_user_open
  have "holds_code t user_code0 user_blob" "holds_code t user_code1 user_blob" "maps_to t user_stack0 p" by auto
  with t(1) show ?thesis by blast
qed

theorem user_program_writes_witness:
  "\<exists>t c'. kmain_user_memory demo_vmm = Some (Inr t) \<and>
    user_run (\<lambda>_ c. c) 100 \<lparr>u_rip = user_code1, u_rax = 1, u_rdi = 2, u_rsi = 3\<rparr> t =
      Some (c', put_text (''hello from user'' @ [CHR 0x0A]) t) \<and> u_rip c' = 0x500013"
proof -
  obtain t where t: "kmain_user_memory demo_vmm = Some (Inr t)" "holds_code t user_code1 user_blob"
    using demo_user_memory by blast
  from user_program_writes [OF t(2), of "\<lparr>u_rip = user_code1, u_rax = 1, u_rdi = 2, u_rsi = 3\<rparr>" "\<lambda>_ c. c" 100] t(1)
  show ?thesis by (auto simp: user_addrs)
qed

theorem kmain_user_memory_ready_witness:
  "\<exists>p t. kmain_user_memory demo_vmm = Some (Inr t) \<and> holds_code t user_code1 user_blob \<and>
    maps_to t user_code0 p \<and> maps_to t user_stack0 p"
proof -
  have "0x5000 = read_cr3 demo_vmm AND NOT 0xfff" "16 \<le> card (free_pages demo_vmm)" "0 \<notin> free_pages demo_vmm"
    "unat (g_total_pages demo_vmm) \<le> 2 ^ 40"
    by (simp_all only: demo_vmm_card, simp_all add: demo_vmm_free) (simp_all add: demo_vmm_def read_cr3_def)
  from kmain_user_memory_ready [OF demo_space_ok(1) this subset_UNIV] demo_user_open show ?thesis by blast
qed

end
