(* ===== verification/Interrupts.thy ===== *)
theory Interrupts
  imports Sched Print
begin

text \<open>
  Interrupt dispatch: \<open>kernel/arch/x86_64/cpu/irq.c\<close>, and the handler of processor exceptions in
  \<open>idt_handler.c\<close>. A handler is a function pointer; what a call through it does is a parameter
  (\<open>call\<close>), instantiated with the scheduler for the timer interrupt.
\<close>

section \<open>Dispatch: \<open>irq.c\<close>\<close>

record irq_state = sched_state +
  g_handlers :: "u8 \<Rightarrow> u64"
  g_vector_handlers :: "u8 \<Rightarrow> u64"

definition IRQ_BASE :: u8 where "IRQ_BASE = 32"

definition irq_init :: "devices \<Rightarrow> 'a machine_scheme \<Rightarrow> 'a machine_scheme" where
  "irq_init d s =
     (let s = pic_init d IRQ_BASE (IRQ_BASE + 8) s
      in for_u64 0 16 (\<lambda>i. pic_set_mask d (ucast i)) s)"

definition irq_register_handler :: "u8 \<Rightarrow> u64 \<Rightarrow> 'a irq_state_scheme \<Rightarrow> 'a irq_state_scheme" where
  "irq_register_handler irq handler s =
     (if irq < 16 then s\<lparr>g_handlers := (g_handlers s)(irq := handler)\<rparr> else s)"

definition irq_register_vector_handler :: "u8 \<Rightarrow> u64 \<Rightarrow> 'a irq_state_scheme \<Rightarrow> 'a irq_state_scheme" where
  "irq_register_vector_handler vector handler s =
     s\<lparr>g_vector_handlers := (g_vector_handlers s)(vector := handler)\<rparr>"

type_synonym 'a handler_call =
  "u64 \<Rightarrow> isr_frame \<Rightarrow> 'a irq_state_scheme \<Rightarrow> (isr_frame \<times> 'a irq_state_scheme) option"

definition irq_common_handler ::
    "'a handler_call \<Rightarrow> isr_frame \<Rightarrow> 'a irq_state_scheme \<Rightarrow> (isr_frame \<times> 'a irq_state_scheme) option" where
  "irq_common_handler call f s =
     (let vec = ucast (f_vector f) :: u8
      in if vec \<ge> IRQ_BASE \<and> vec < IRQ_BASE + 16 then
           (let irq = vec - IRQ_BASE
            in do {
              (f, s) \<leftarrow> (if g_handlers s irq \<noteq> 0 then call (g_handlers s irq) f s else Some (f, s));
              Some (f, pic_send_eoi irq s)
            })
         else do {
           (f, s) \<leftarrow> (if g_vector_handlers s vec \<noteq> 0 then call (g_vector_handlers s vec) f s
                     else Some (f, s));
           Some (f, if lapic_is_enabled s \<and> ucast vec \<noteq> LAPIC_SPURIOUS_VECTOR then lapic_eoi s else s)
         })"

section \<open>Exceptions: \<open>idt_handler.c\<close>\<close>

definition exc_name :: "u64 \<Rightarrow> string" where
  "exc_name vec =
     (if vec = 0 then ''#DE Divide Error''
      else if vec = 6 then ''#UD Invalid Opcode''
      else if vec = 13 then ''#GP General Protection''
      else if vec = 14 then ''#PF Page Fault''
      else ''CPU Exception'')"

text \<open>The state the handler halts in; \<open>cr2\<close> is the control register the page fault left.\<close>

definition isr_common_handler :: "u64 \<Rightarrow> isr_frame \<Rightarrow> 'a machine_scheme \<Rightarrow> 'a machine_scheme" where
  "isr_common_handler cr2 f s =
     (let s = kprint (CHR 0x0A # ''[EXC] '') s;
          s = kprint (exc_name (f_vector f)) s;
          s = kprint '' vec='' s;
          s = kprint_hex_u64 (f_vector f) s;
          s = kprint '' err='' s;
          s = kprint_hex_u64 (f_error f) s;
          s = kprint '' rip='' s;
          s = kprint_hex_u64 (f_rip f) s;
          s = (if f_vector f = 14 then kprint_hex_u64 cr2 (kprint '' cr2='' s) else s)
      in panic ''unhandled exception'' s)"

section \<open>Every legacy line starts out masked\<close>

text \<open>
  C36: After \<open>irq_init\<close> both interrupt controllers are operational, deliver to the vectors 32 to 47
  behind the processor exceptions, and all sixteen lines are masked.
\<close>

theorem irq_init_masks_all:
  assumes "pic_device d" "irq < 16"
  shows "pics_operational (irq_init d s) \<and> vec_base (chip PIC1 (irq_init d s)) = 32 \<and>
    vec_base (chip PIC2 (irq_init d s)) = 40 \<and> masked (irq_init d s) irq"
proof -
  let ?P = "\<lambda>m t. pics_operational t \<and> vec_base (chip PIC1 t) = 32 \<and> vec_base (chip PIC2 t) = 40 \<and>
    (\<forall>irq :: u8. (ucast irq :: u64) < m \<longrightarrow> masked t irq)"
  let ?s = "pic_init d IRQ_BASE (IRQ_BASE + 8) s"
  have "?P 0 ?s" by (simp add: pics_operational_def pic_init_chips IRQ_BASE_def)
  moreover have "?P (j + 1) (pic_set_mask d (ucast j) t)" if j: "j < 16" and t: "?P j t" for j t
  proof -
    let ?i = "ucast j :: u8"
    have op: "pics_operational t" using t by simp
    have i: "unat ?i = unat j"
      using j by (simp add: unsigned_ucast_eq take_bit_nat_eq_self word_less_nat_alt)
    obtain v where v: "\<And>k. bit v k \<longleftrightarrow> bit (imr (chip (irq_base ?i) t)) k \<or> k = line_of ?i"
      "\<forall>base \<in> {PIC1, PIC2}. chip base (pic_set_mask d ?i t) =
        (if base = irq_base ?i then (chip base t)\<lparr>imr := v\<rparr> else chip base t)"
      using pic_mask_chips(1) [OF assms(1) op, of ?i] by blast
    have at: "irq_base k \<in> {PIC1, PIC2}" for k by (simp add: irq_base_def)
    have "masked (pic_set_mask d ?i t) k" if k: "(ucast k :: u64) < j + 1" for k :: u8
    proof -
      have "(ucast k :: u64) < j \<or> unat k = unat j"
        using k j by (auto simp: less_Suc_word word_unat_eq_iff unat_ucast_up)
      then have "masked t k \<or> k = ?i" using t i by (auto simp: word_unat_eq_iff)
      then show ?thesis using v at [of k] by (auto simp: masked_def)
    qed
    then show ?thesis using t v(2) by (simp add: pics_operational_def)
  qed
  ultimately have "?P 16 (irq_init d s)"
    unfolding irq_init_def Let_def by (intro for_u64_inv [where P = ?P]) simp_all
  moreover have "(ucast irq :: u64) < 16" using assms(2) by (simp add: word_less_nat_alt unat_ucast_up)
  ultimately show ?thesis by blast
qed


section \<open>The timer interrupt\<close>

text \<open>The handlers of the running kernel: the scheduler, at the address it is linked at.\<close>

definition timer_call ::
    "devices \<Rightarrow> (u64 \<Rightarrow> u64 \<Rightarrow> 'a irq_state_scheme \<Rightarrow> 'a irq_state_scheme option) \<Rightarrow> u64 \<Rightarrow> 'a handler_call" where
  "timer_call d run_cb tick_addr h f s = (if h = tick_addr then sched_on_tick d run_cb f s else None)"

lemma lapic_eoi_parts:
  "sched_part (lapic_eoi s) = sched_part s" "msrs (lapic_eoi s) = msrs s"
  "g_lapic_base (lapic_eoi s) = g_lapic_base s"
  "g_lapic_base s \<noteq> 0 \<Longrightarrow> trace (lapic_eoi s) = trace s @ [EvMmioW32 (g_lapic_base s + 0xb0) 0]"
  by (simp_all add: lapic_eoi_def sched_part_def lapic_write_def mmio_write32_def emit_def LAPIC_REG_EOI_def)

text \<open>
  C16: A timer interrupt goes through to the scheduler: when it ends a slice the frame of the next
  ready thread is returned to the stub, else the interrupted one, and the interrupt is acknowledged
  at the local controller after the switch.
\<close>

theorem timer_interrupt_schedules:
  assumes inv: "sched_inv s q" and es: "queued s es" and cb: "callbacks_quiet run_cb"
    "callbacks_ok (fst (timer_now_ns d s)) run_cb"
    and h: "g_vector_handlers s 0xf0 = tick_addr" "tick_addr \<noteq> 0" and f: "f_vector f = 0xf0"
    and n: "n = (if slice_over d f s then rr_next s q else g_current s)"
  shows "\<exists>f' t. irq_common_handler (timer_call d run_cb tick_addr) f s = Some (f', t) \<and>
    g_current t = n \<and> sched_inv t (rotate_to n q) \<and>
    f' = (if n = g_current s then f else t_frame (threads s n)) \<and>
    (lapic_is_enabled t \<and> g_lapic_base t \<noteq> 0 \<longrightarrow> last (trace t) = EvMmioW32 (g_lapic_base t + 0xb0) 0)"
proof -
  from sched_on_tick_spec [OF inv es cb, of f] obtain f' u where
    u: "sched_on_tick d run_cb f s = Some (f', u)"
    "if slice_over d f s
     then sched_inv u (rotate_to (rr_next s q) q) \<and> g_current u = rr_next s q \<and>
       f' = (if rr_next s q = g_current s then f else t_frame (threads s (rr_next s q)))
     else sched_inv u q \<and> g_current u = g_current s \<and> f' = f" by (auto split: if_splits)
  obtain r where q: "q = g_current s # r" using inv by (auto simp: sched_inv_def elim: ring_cases)
  have inv_u: "sched_inv u (rotate_to n q)" "g_current u = n" "f' = (if n = g_current s then f else t_frame (threads s n))"
    using u(2) n by (auto simp: rotate_to_def q split: if_splits)
  define t where "t = (if lapic_is_enabled u then lapic_eoi u else u)"
  have "irq_common_handler (timer_call d run_cb tick_addr) f s = Some (f', t)"
    using u(1) h f by (simp add: irq_common_handler_def IRQ_BASE_def timer_call_def t_def LAPIC_SPURIOUS_VECTOR_def)
  moreover have part: "sched_part t = sched_part u" by (simp add: t_def lapic_eoi_parts)
  then have "sched_inv t (rotate_to n q)" "g_current t = n"
    using inv_u sched_partD [OF part] by (simp_all add: sched_inv_def ring_def)
  moreover have "lapic_is_enabled t \<Longrightarrow> g_lapic_base t \<noteq> 0 \<Longrightarrow> last (trace t) = EvMmioW32 (g_lapic_base t + 0xb0) 0"
    by (auto simp: t_def lapic_is_enabled_def rdmsr_def lapic_eoi_parts split: if_splits)
  ultimately show ?thesis using inv_u(3) by blast
qed

section \<open>Witnesses\<close>

definition demo_irq :: irq_state where
  "demo_irq = sched_state.extend (demo_sched 0) (irq_state.fields (\<lambda>_. 0) ((\<lambda>_. 0)(0xf0 := 0x80004000)))"

theorem irq_init_masks_all_witness:
  "masked (irq_init demo_devices \<lparr>trace = [], mem = \<lambda>_. 0, cr3 = 0, msrs = \<lambda>_. 0\<rparr>) 11"
  using irq_init_masks_all [OF demo_pic_device, where irq = 11 and
      s = "\<lparr>trace = [], mem = \<lambda>_. 0, cr3 = 0, msrs = \<lambda>_. 0\<rparr>"] by simp

lemma demo_irq_fields:
  "threads demo_irq = threads (demo_sched 0)" "g_current demo_irq = 0x8000"
  "g_cpu_local demo_irq = g_cpu_local (demo_sched 0)" "g_tss demo_irq = g_tss (demo_sched 0)"
  "g_head demo_irq = 0" "g_vector_handlers demo_irq 0xf0 = 0x80004000"
  by (simp_all add: demo_irq_def irq_state.defs demo_sched_defs demo_timer_fields)

text \<open>The slice of the first thread is over, and the second one goes on.\<close>

theorem timer_interrupt_schedules_witness:
  "\<exists>f' t. irq_common_handler (timer_call (demo_cpu 0) (\<lambda>f a s. Some s) 0x80004000)
      (demo_frame\<lparr>f_vector := 0xf0\<rparr>) demo_irq = Some (f', t) \<and> g_current t = 0x9000 \<and> f_rip f' = 0x500000"
proof -
  have inv: "sched_inv demo_irq [0x8000, 0x9000]"
    using demo_sched_inv [of 0] by (simp add: sched_inv_def ring_def demo_irq_fields demo_sched_fields)
  have es: "queued demo_irq []" by (simp add: queued_Nil demo_irq_fields)
  have cb: "callbacks_quiet (\<lambda>f a s. Some (s :: irq_state))" "callbacks_ok now (\<lambda>f a s. Some (s :: irq_state))" for now
    by (auto simp: callbacks_ok_def callbacks_quiet_def)
  have clock: "g_tick_num demo_irq = 2" "g_tick_den demo_irq = 1000000000" "g_slice_end_ns demo_irq = 1"
    "trace demo_irq = [EvPause, EvPause, EvPause, EvPause]"
    by (simp_all add: demo_irq_def irq_state.defs demo_sched_defs demo_timer_fields)
  have "1 \<le> fst (timer_now_ns (demo_cpu 0) demo_irq)"
    using timer_now_clock [OF demo_cpu_clock, of demo_irq demo_irq "[]" 0] by (simp add: clock word_le_nat_alt)
  then have over: "slice_over (demo_cpu 0) (demo_frame\<lparr>f_vector := 0xf0\<rparr>) demo_irq"
    by (simp add: slice_over_def demo_frame_def clock)
  have next1: "rr_next demo_irq [0x8000, 0x9000] = 0x9000"
    by (simp add: rr_next_def demo_irq_fields demo_sched_defs)
  have rip: "f_rip (t_frame (threads demo_irq 0x9000)) = 0x500000" by (simp add: demo_irq_fields demo_sched_defs)
  from timer_interrupt_schedules [OF inv es cb(1) cb(2) demo_irq_fields(6) _ _ refl, of "demo_frame\<lparr>f_vector := 0xf0\<rparr>" "demo_cpu 0"]
  show ?thesis using over next1 rip by (auto simp: demo_irq_fields)
qed

end
