(* ===== verification/Print_Typed.thy ===== *)
theory Print_Typed
  imports Print
begin

text \<open>
  Which calls of the formatter are well typed: the conversions of the format take the arguments they
  are given, widths fit an \<open>int\<close>, and the format does not end inside a conversion. The check follows
  the parser of \<open>kvprintf\<close>; what passes it never faults.
\<close>

section \<open>Typing formats\<close>

datatype karg_type = IntT | U64T | PtrT | StrT

fun type_of_karg :: "karg \<Rightarrow> karg_type" where
  "type_of_karg (ArgInt w) = IntT"
| "type_of_karg (ArgU64 w) = U64T"
| "type_of_karg (ArgPtr w) = PtrT"
| "type_of_karg (ArgStr p) = StrT"

definition take_type :: "karg_type \<Rightarrow> string \<Rightarrow> karg_type list \<Rightarrow> (string \<times> karg_type list) option" where
  "take_type T rest Ts = (case Ts of [] \<Rightarrow> None | U # Us \<Rightarrow> if U = T then Some (rest, Us) else None)"

text \<open>The conversion \<open>d\<close>: the format behind it and the types that are left.\<close>

definition conv_typed :: "char \<Rightarrow> string \<Rightarrow> karg_type list \<Rightarrow> (string \<times> karg_type list) option" where
  "conv_typed d rest Ts =
     (if d = CHR ''c'' \<or> d = CHR ''d'' \<or> d = CHR ''i'' \<or> d = CHR ''u'' \<or> d = CHR ''x'' \<or> d = CHR ''X''
      then take_type IntT rest Ts
      else if d = CHR ''s'' then take_type StrT rest Ts
      else if d = CHR ''p'' then take_type PtrT rest Ts
      else if d = CHR ''l'' then
        (case rest of
           l # rest' \<Rightarrow>
             if l = CHR ''l'' then
               (case rest' of
                  x # rest'' \<Rightarrow>
                    if x = CHR ''x'' \<or> x = CHR ''u'' then take_type U64T rest'' Ts else Some (rest', Ts)
                | [] \<Rightarrow> Some (rest', Ts))
             else Some (rest, Ts)
         | [] \<Rightarrow> Some (rest, Ts))
      else Some (rest, Ts))"

lemma conv_typed_length: "conv_typed d rest Ts = Some (r, Us) \<Longrightarrow> length r \<le> length rest"
  by (auto simp: conv_typed_def take_type_def split: if_splits list.splits)

function fmt_typed :: "string \<Rightarrow> karg_type list \<Rightarrow> bool" where
  "fmt_typed [] Ts = True"
| "fmt_typed (c # fmt) Ts =
     (if c \<noteq> CHR ''%'' then fmt_typed fmt Ts
      else
        (case parse_flag fmt of (pad, fmt1) \<Rightarrow>
          (case parse_width fmt1 0 of
             Inl e \<Rightarrow> False
           | Inr (width, fmt2) \<Rightarrow>
               (case fmt2 of
                  [] \<Rightarrow> False
                | d # rest \<Rightarrow>
                    (case conv_typed d rest Ts of
                       None \<Rightarrow> False
                     | Some (rest', Us) \<Rightarrow> fmt_typed rest' Us)))))"
  by pat_completeness auto
termination
  by (relation "measure (\<lambda>(fmt, Ts). length fmt)")
    (auto dest!: parse_width_length parse_flag_length [OF sym] conv_typed_length)

section \<open>Soundness\<close>

lemma print_uint_returns:
  assumes "base = 10 \<or> base = 16"
  shows "\<exists>t. print_uint v base width pad upper s = Inr t"
proof -
  have "num_base base" using assms by (auto simp: num_base_def)
  moreover have "unat v < unat base ^ 20"
    using assms unat_less_u64 [of v] by (elim disjE) simp_all
  ultimately show ?thesis
    using print_uint_text [of base v 20 width pad upper s] by auto
qed

lemma kv_uint_returns:
  "base = 10 \<or> base = 16 \<Longrightarrow> \<exists>t. kv_uint v as base width pad upper rest s = Inr (rest, as, t)"
  using print_uint_returns [of base v width pad upper s] by (auto simp: kv_uint_def)

lemma print_int_returns: "\<exists>t. print_int v 10 s = Inr t"
  by (simp add: print_int_def print_uint_returns)

lemma take_type_some:
  assumes "take_type T rest (map type_of_karg args) = Some (r, Us)"
  obtains a as where "args = a # as" "type_of_karg a = T" "r = rest" "map type_of_karg as = Us"
  using assms by (cases args) (auto simp: take_type_def split: if_splits)

lemma type_of_karg_cases:
  "type_of_karg a = IntT \<Longrightarrow> \<exists>w. a = ArgInt w" "type_of_karg a = U64T \<Longrightarrow> \<exists>w. a = ArgU64 w"
  "type_of_karg a = PtrT \<Longrightarrow> \<exists>w. a = ArgPtr w" "type_of_karg a = StrT \<Longrightarrow> \<exists>p. a = ArgStr p"
  by (cases a; simp)+

lemma conv_int:
  assumes "take_type IntT rest (map type_of_karg args) = Some (r, Us)"
    and "d \<in> {CHR ''c'', CHR ''d'', CHR ''i'', CHR ''u'', CHR ''x'', CHR ''X''}"
  shows "\<exists>as t. kv_conv d rest args width pad s = Inr (r, as, t) \<and> map type_of_karg as = Us"
proof -
  from assms(1) obtain a as where a: "args = a # as" "type_of_karg a = IntT" "r = rest" "map type_of_karg as = Us"
    by (rule take_type_some)
  then obtain w where w: "a = ArgInt w" using type_of_karg_cases(1) by blast
  obtain t where t: "print_int (scast w) 10 s = Inr t" using print_int_returns by blast
  have u: "\<exists>t. kv_uint (ucast w) as base width pad up rest s = Inr (rest, as, t)"
    if "base = 10 \<or> base = 16" for base up
    using kv_uint_returns [OF that] .
  show ?thesis
    using assms(2) a w t u [of 10 False] u [of 16 False] u [of 16 True]
    by (auto simp: kv_conv_def)
qed

lemma conv_sound:
  assumes "conv_typed d rest (map type_of_karg args) = Some (r, Us)"
  shows "\<exists>as t. kv_conv d rest args width pad s = Inr (r, as, t) \<and> map type_of_karg as = Us"
proof -
  consider (int) "d \<in> {CHR ''c'', CHR ''d'', CHR ''i'', CHR ''u'', CHR ''x'', CHR ''X''}"
    | (str) "d = CHR ''s''" | (ptr) "d = CHR ''p''" | (ll) "d = CHR ''l''"
    | (other) "d \<notin> {CHR ''c'', CHR ''d'', CHR ''i'', CHR ''u'', CHR ''x'', CHR ''X'', CHR ''s'', CHR ''p'', CHR ''l''}"
    by blast
  then show ?thesis
  proof cases
    case int
    then show ?thesis using assms by (intro conv_int) (auto simp: conv_typed_def)
  next
    case str
    then have "take_type StrT rest (map type_of_karg args) = Some (r, Us)"
      using assms by (simp add: conv_typed_def)
    then show ?thesis
      using str by (elim take_type_some) (auto simp: kv_conv_def dest!: type_of_karg_cases(4))
  next
    case ptr
    then have "take_type PtrT rest (map type_of_karg args) = Some (r, Us)"
      using assms by (simp add: conv_typed_def)
    then obtain w as where a: "args = ArgPtr w # as" "r = rest" "map type_of_karg as = Us"
      by (elim take_type_some) (auto dest!: type_of_karg_cases(3))
    obtain t where "kv_uint w as 16 16 CHR ''0'' False rest (kputc CHR ''x'' (kputc CHR ''0'' s)) = Inr (rest, as, t)"
      using kv_uint_returns [of 16] by blast
    then show ?thesis using ptr a by (simp add: kv_conv_def)
  next
    case ll
    show ?thesis
    proof (cases "\<exists>x rest''. rest = CHR ''l'' # x # rest'' \<and> (x = CHR ''x'' \<or> x = CHR ''u'')")
      case True
      then obtain x rest'' where x: "rest = CHR ''l'' # x # rest''" "x = CHR ''x'' \<or> x = CHR ''u''" by blast
      then have "take_type U64T rest'' (map type_of_karg args) = Some (r, Us)"
        using assms ll by (auto simp: conv_typed_def)
      then obtain w as where a: "args = ArgU64 w # as" "r = rest''" "map type_of_karg as = Us"
        by (elim take_type_some) (auto dest!: type_of_karg_cases(2))
      have "\<exists>t. kv_uint w as b width pad False rest'' s = Inr (rest'', as, t)" if "b = 10 \<or> b = 16" for b
        using kv_uint_returns [OF that] .
      from this [of 10] this [of 16] show ?thesis using ll x a by (auto simp: kv_conv_def)
    next
      case False
      then show ?thesis
        using assms ll by (auto simp: conv_typed_def kv_conv_def split: list.splits if_splits)
    qed
  next
    case other
    then show ?thesis using assms by (auto simp: conv_typed_def kv_conv_def)
  qed
qed

lemma kvprintf_typed:
  "fmt_typed fmt (map type_of_karg args) \<Longrightarrow> \<exists>t. kvprintf fmt args s = Inr t"
proof (induction "length fmt" arbitrary: fmt args s rule: less_induct)
  case less
  show ?case
  proof (cases fmt)
    case (Cons c fmt0)
    show ?thesis
    proof (cases "c = CHR ''%''")
      case False
      then show ?thesis using less Cons by simp
    next
      case True
      obtain pad fmt1 where flag: "parse_flag fmt0 = (pad, fmt1)" by fastforce
      from less.prems True Cons flag obtain width d rest r Us where
        w: "parse_width fmt1 0 = Inr (width, d # rest)" and
        c: "conv_typed d rest (map type_of_karg args) = Some (r, Us)" and ty: "fmt_typed r Us"
        by (auto split: sum.splits list.splits option.splits prod.splits)
      obtain as t where t: "kv_conv d rest args width pad s = Inr (r, as, t)" "map type_of_karg as = Us"
        using conv_sound [OF c] by blast
      have "length r < length fmt"
        using conv_typed_length [OF c] parse_width_length [OF w] parse_flag_length [OF flag] Cons by simp
      from less.hyps [OF this] ty t(2) have "\<exists>t'. kvprintf r as t = Inr t'" by simp
      then show ?thesis using Cons True flag w t(1) by simp
    qed
  qed simp
qed

text \<open>
  C31: The check is sound: a format that is well typed for the types of its arguments is printed
  without a fault, in every state.
\<close>

theorem kvprintf_well_typed:
  assumes "fmt_typed fmt (map type_of_karg args)"
  shows "\<exists>t. kvprintf fmt args s = Inr t"
  using assms by (rule kvprintf_typed)

theorem kvprintf_well_typed_witness:
  "\<exists>t. kvprintf ''%s[%llu]: 0x%8x'' [ArgStr None, ArgU64 7, ArgInt 255]
    \<lparr>trace = [], mem = \<lambda>_. 0, cr3 = 0, msrs = \<lambda>_. 0\<rparr> = Inr t"
  by (rule kvprintf_well_typed)
    (simp add: conv_typed_def take_type_def parse_flag_def is_digit_char_def)

section \<open>Calls that only print\<close>

text \<open>A step of the report: it returns, and all it does is to print some text.\<close>

definition only_prints :: "('a machine_scheme \<Rightarrow> 'a machine_scheme outcome) \<Rightarrow> bool" where
  "only_prints f \<longleftrightarrow> (\<exists>str. \<forall>s. f s = Inr (put_text str s))"

lemma only_prints_returns: "only_prints f \<longleftrightarrow> prints f \<and> (\<forall>s. \<exists>t. f s = Inr t)"
  by (auto simp: only_prints_def prints_def)

lemma only_prints_bind:
  "only_prints f \<Longrightarrow> only_prints g \<Longrightarrow> only_prints (\<lambda>s. bind_outcome (f s) g)"
  unfolding only_prints_def by (metis bind_outcome_simps(2) fold_append o_apply put_text_def)

lemma only_prints_kprintln: "only_prints (\<lambda>s. Inr (kprintln str s))"
  by (auto simp: only_prints_def kprintln_text)

lemma only_prints_kprintf: "fmt_typed fmt (map type_of_karg args) \<Longrightarrow> only_prints (kprintf fmt args)"
  unfolding only_prints_returns kprintf_def [abs_def]
  by (intro conjI allI prints_kvprintf kvprintf_typed)

lemma only_prints_kprintlnf: "fmt_typed fmt (map type_of_karg args) \<Longrightarrow> only_prints (kprintlnf fmt args)"
proof -
  assume "fmt_typed fmt (map type_of_karg args)"
  then have "only_prints (kvprintf fmt args)" using only_prints_kprintf by (simp add: kprintf_def [abs_def])
  moreover have "only_prints (\<lambda>s. Inr (kputc CHR 0x0A s))"
    unfolding only_prints_def by (intro exI [of _ "[CHR 0x0A]"]) simp
  ultimately show ?thesis unfolding kprintlnf_def [abs_def] by (rule only_prints_bind)
qed

lemma only_prints_if:
  "(P \<Longrightarrow> only_prints f) \<Longrightarrow> (\<not> P \<Longrightarrow> only_prints g) \<Longrightarrow> only_prints (if P then f else g)"
  by simp

lemma only_prints_option:
  "(x = None \<Longrightarrow> only_prints f) \<Longrightarrow> (\<And>y. x = Some y \<Longrightarrow> only_prints (g y)) \<Longrightarrow>
    only_prints (case x of None \<Rightarrow> f | Some y \<Rightarrow> g y)"
  by (cases x) simp_all

end
