(* ===== verification/Boot_Print.thy ===== *)
theory Boot_Print
  imports Boot_Info Print_Typed
begin

text \<open>
  The report of \<open>kernel/boot/boot_info.c\<close>: \<open>print_boot_info\<close> and \<open>print_framebuffer_info\<close>, one
  definition per section of the report. Every statement of the source is one element of a list
  that \<open>run_all\<close> executes in order. The sections read the requests \<open>rq\<close> and \<open>g_boot_info\<close>, which
  printing does not change, as arguments. The branches for other architectures are not compiled
  for the x86_64 kernel and are not modelled.
\<close>

section \<open>Statements\<close>

primrec run_all :: "('s \<Rightarrow> 's outcome) list \<Rightarrow> 's \<Rightarrow> 's outcome" where
  "run_all [] s = Inr s"
| "run_all (f # fs) s = bind_outcome (f s) (run_all fs)"

text \<open>\<open>for (uint64_t i = 0; i < n; i++) body;\<close> from \<open>i\<close> on.\<close>

function for_out :: "u64 \<Rightarrow> u64 \<Rightarrow> (u64 \<Rightarrow> 's \<Rightarrow> 's outcome) \<Rightarrow> 's \<Rightarrow> 's outcome" where
  "for_out i n body s =
     (if i < n then bind_outcome (body i s) (for_out (i + 1) n body) else Inr s)"
  by pat_completeness auto
termination
  by (relation "measure (\<lambda>(i, n, body, s). unat n - unat i)")
    (auto simp: unat_Suc_less word_less_nat_alt)

declare for_out.simps [simp del]

definition say :: "string \<Rightarrow> 'a machine_scheme \<Rightarrow> 'a machine_scheme outcome" where
  "say str s = Inr (kprintln str s)"

text \<open>The element \<open>i\<close> of an array of pointers that may be NULL.\<close>

definition ptr_at :: "(u64 \<Rightarrow> 'e option) option \<Rightarrow> u64 \<Rightarrow> 'e option" where
  "ptr_at arr i = (case arr of None \<Rightarrow> None | Some f \<Rightarrow> f i)"

text \<open>\<open>if (!arr && n) kprintln(msg);\<close>\<close>

definition null_note ::
    "(u64 \<Rightarrow> 'e option) option \<Rightarrow> u64 \<Rightarrow> string \<Rightarrow> 'a machine_scheme \<Rightarrow> 'a machine_scheme outcome" where
  "null_note arr n msg s = (if arr = None \<and> n \<noteq> 0 then say msg s else Inr s)"

text \<open>\<open>if (!request.response) kprintln("  not provided"); else ...\<close>\<close>

definition provided ::
    "'r option \<Rightarrow> ('a machine_scheme \<Rightarrow> 'a machine_scheme outcome) list \<Rightarrow> 'a machine_scheme \<Rightarrow>
      'a machine_scheme outcome" where
  "provided resp body s = (if resp = None then say ''  not provided'' s else run_all body s)"

section \<open>Names\<close>

definition firmware_type_name :: "limine_consts \<Rightarrow> u64 \<Rightarrow> string" where
  "firmware_type_name C t =
     (if t = FIRMWARE_TYPE_X86BIOS C then ''x86bios''
      else if t = FIRMWARE_TYPE_EFI32 C then ''efi32''
      else if t = FIRMWARE_TYPE_EFI64 C then ''efi64''
      else if t = FIRMWARE_TYPE_SBI C then ''sbi''
      else ''unknown'')"

definition paging_mode_name :: "limine_consts \<Rightarrow> u64 \<Rightarrow> string" where
  "paging_mode_name C mode =
     (if mode = PAGING_MODE_X86_64_4LVL C then ''x86_64 4lvl''
      else if mode = PAGING_MODE_X86_64_5LVL C then ''x86_64 5lvl''
      else ''x86_64 unknown'')"

definition memmap_type_name :: "limine_consts \<Rightarrow> u64 \<Rightarrow> string" where
  "memmap_type_name C t =
     (if t = MEMMAP_USABLE C then ''usable''
      else if t = MEMMAP_RESERVED C then ''reserved''
      else if t = MEMMAP_ACPI_RECLAIMABLE C then ''acpi_reclaimable''
      else if t = MEMMAP_ACPI_NVS C then ''acpi_nvs''
      else if t = MEMMAP_BAD_MEMORY C then ''bad_memory''
      else if t = MEMMAP_BOOTLOADER_RECLAIMABLE C then ''bootloader_reclaimable''
      else if t = MEMMAP_EXECUTABLE_AND_MODULES C then ''executable_and_modules''
      else if t = MEMMAP_FRAMEBUFFER C then ''framebuffer''
      else if t = MEMMAP_ACPI_TABLES C then ''acpi_tables''
      else ''unknown'')"

definition media_type_name :: "limine_consts \<Rightarrow> u32 \<Rightarrow> string" where
  "media_type_name C t =
     (if t = MEDIA_TYPE_GENERIC C then ''generic''
      else if t = MEDIA_TYPE_OPTICAL C then ''optical''
      else if t = MEDIA_TYPE_TFTP C then ''tftp''
      else ''unknown'')"

definition framebuffer_memory_model_name :: "limine_consts \<Rightarrow> u8 \<Rightarrow> string" where
  "framebuffer_memory_model_name C model =
     (if model = FRAMEBUFFER_RGB C then ''rgb'' else ''unknown'')"

section \<open>Numbers and files\<close>

text \<open>The loop of \<open>print_hex_fixed\<close> for the \<open>i\<close> low digits, the most significant first.\<close>

primrec hex_fixed_loop :: "nat \<Rightarrow> u64 \<Rightarrow> 'a machine_scheme \<Rightarrow> 'a machine_scheme outcome" where
  "hex_fixed_loop 0 v s = Inr s"
| "hex_fixed_loop (Suc i) v s =
     (let nib = ucast (drop_bit (i * 4) v AND 0xf) :: u8
      in bind_outcome
          (kprintf ''%c'' [ArgInt (of_nat (of_char (''0123456789abcdef'' ! unat nib)))] s)
          (hex_fixed_loop i v))"

definition print_hex_fixed :: "u64 \<Rightarrow> nat \<Rightarrow> 'a machine_scheme \<Rightarrow> 'a machine_scheme outcome" where
  "print_hex_fixed v digits s = hex_fixed_loop digits v s"

text \<open>Every call passes the address of a member, so the pointer is not NULL.\<close>

definition print_uuid :: "limine_uuid \<Rightarrow> 'a machine_scheme \<Rightarrow> 'a machine_scheme outcome" where
  "print_uuid u =
     run_all
      ([print_hex_fixed (ucast (uuid_a u)) 8,
        kprintf ''-'' [],
        print_hex_fixed (ucast (uuid_b u)) 4,
        kprintf ''-'' [],
        print_hex_fixed (ucast (uuid_c u)) 4,
        kprintf ''-'' [],
        print_hex_fixed (ucast (uuid_d u 0)) 2,
        print_hex_fixed (ucast (uuid_d u 1)) 2,
        kprintf ''-'' []] @
       map (\<lambda>i. print_hex_fixed (ucast (uuid_d u i)) 2) [2..<8])"

definition print_signed_u64_line ::
    "string \<Rightarrow> u64 \<Rightarrow> 'a machine_scheme \<Rightarrow> 'a machine_scheme outcome" where
  "print_signed_u64_line label v s =
     (if sint v < 0
      then let abs_value = (- (v + 1)) + 1
           in kprintf (''  %s: -%llu'' @ [CHR 0x0A]) [ArgStr (Some label), ArgU64 abs_value] s
      else kprintf (''  %s: %llu'' @ [CHR 0x0A]) [ArgStr (Some label), ArgU64 v] s)"

text \<open>The lines that \<open>print_limine_file\<close> and \<open>print_limine_file_indexed\<close> print alike.\<close>

definition limine_file_lines ::
    "limine_consts \<Rightarrow> limine_file \<Rightarrow> ('a machine_scheme \<Rightarrow> 'a machine_scheme outcome) list" where
  "limine_file_lines C file =
     [kprintlnf ''    revision: %llu'' [ArgU64 (file_revision file)],
      kprintlnf ''    address: 0x%llx'' [ArgU64 (file_address file)],
      kprintlnf ''    size: %llu'' [ArgU64 (file_size file)],
      kprintlnf ''    path: %s'' [ArgStr (file_path file)],
      kprintlnf ''    string: %s'' [ArgStr (file_string file)],
      kprintlnf ''    media_type: %u (%s)''
        [ArgInt (file_media_type file), ArgStr (Some (media_type_name C (file_media_type file)))],
      kprintlnf ''    unused: 0x%x'' [ArgInt (file_unused file)],
      kprintlnf ''    tftp_ip: 0x%x'' [ArgInt (file_tftp_ip file)],
      kprintlnf ''    tftp_port: %u'' [ArgInt (file_tftp_port file)],
      kprintlnf ''    partition_index: %u'' [ArgInt (file_partition_index file)],
      kprintlnf ''    mbr_disk_id: 0x%x'' [ArgInt (file_mbr_disk_id file)],
      kprintf ''    gpt_disk_uuid: '' [],
      print_uuid (file_gpt_disk_uuid file),
      kprintf [CHR 0x0A] [],
      kprintf ''    gpt_part_uuid: '' [],
      print_uuid (file_gpt_part_uuid file),
      kprintf [CHR 0x0A] [],
      kprintf ''    part_uuid: '' [],
      print_uuid (file_part_uuid file),
      kprintf [CHR 0x0A] []]"

definition print_limine_file ::
    "limine_consts \<Rightarrow> string \<Rightarrow> limine_file option \<Rightarrow> 'a machine_scheme \<Rightarrow> 'a machine_scheme outcome" where
  "print_limine_file C label file =
     (case file of
        None \<Rightarrow> kprintlnf ''  %s: (null)'' [ArgStr (Some label)]
      | Some f \<Rightarrow> run_all (kprintlnf ''  %s:'' [ArgStr (Some label)] # limine_file_lines C f))"

definition print_limine_file_indexed ::
    "limine_consts \<Rightarrow> string \<Rightarrow> u64 \<Rightarrow> limine_file option \<Rightarrow> 'a machine_scheme \<Rightarrow>
      'a machine_scheme outcome" where
  "print_limine_file_indexed C label index file =
     (case file of
        None \<Rightarrow> kprintlnf ''  %s[%llu]: (null)'' [ArgStr (Some label), ArgU64 index]
      | Some f \<Rightarrow>
          run_all (kprintlnf ''  %s[%llu]:'' [ArgStr (Some label), ArgU64 index] # limine_file_lines C f))"

section \<open>The framebuffers\<close>

definition print_video_mode ::
    "limine_consts \<Rightarrow> u64 \<Rightarrow> limine_video_mode option \<Rightarrow> 'a machine_scheme \<Rightarrow>
      'a machine_scheme outcome" where
  "print_video_mode C m mode =
     (case mode of
        None \<Rightarrow> kprintlnf ''    mode[%llu]: (null)'' [ArgU64 m]
      | Some md \<Rightarrow>
          run_all
           [kprintlnf ''    mode[%llu]:'' [ArgU64 m],
            kprintlnf ''      pitch: %llu'' [ArgU64 (vm_pitch md)],
            kprintlnf ''      width: %llu'' [ArgU64 (vm_width md)],
            kprintlnf ''      height: %llu'' [ArgU64 (vm_height md)],
            kprintlnf ''      bpp: %u'' [ArgInt (ucast (vm_bpp md))],
            kprintlnf ''      memory_model: %u (%s)''
              [ArgInt (ucast (vm_memory_model md)),
               ArgStr (Some (framebuffer_memory_model_name C (vm_memory_model md)))],
            kprintlnf ''      red_mask_size: %u'' [ArgInt (ucast (vm_red_mask_size md))],
            kprintlnf ''      red_mask_shift: %u'' [ArgInt (ucast (vm_red_mask_shift md))],
            kprintlnf ''      green_mask_size: %u'' [ArgInt (ucast (vm_green_mask_size md))],
            kprintlnf ''      green_mask_shift: %u'' [ArgInt (ucast (vm_green_mask_shift md))],
            kprintlnf ''      blue_mask_size: %u'' [ArgInt (ucast (vm_blue_mask_size md))],
            kprintlnf ''      blue_mask_shift: %u'' [ArgInt (ucast (vm_blue_mask_shift md))]])"

definition print_framebuffer ::
    "limine_consts \<Rightarrow> u64 \<Rightarrow> limine_framebuffer option \<Rightarrow> 'a machine_scheme \<Rightarrow>
      'a machine_scheme outcome" where
  "print_framebuffer C i fbp =
     (case fbp of
        None \<Rightarrow> kprintlnf ''  framebuffer[%llu]: (null)'' [ArgU64 i]
      | Some fb \<Rightarrow>
          run_all
           [kprintlnf ''  framebuffer[%llu]:'' [ArgU64 i],
            kprintlnf ''    address: 0x%llx'' [ArgU64 (fb_address fb)],
            kprintlnf ''    width: %llu'' [ArgU64 (fb_width fb)],
            kprintlnf ''    height: %llu'' [ArgU64 (fb_height fb)],
            kprintlnf ''    pitch: %llu'' [ArgU64 (fb_pitch fb)],
            kprintlnf ''    bpp: %u'' [ArgInt (ucast (fb_bpp fb))],
            kprintlnf ''    memory_model: %u (%s)''
              [ArgInt (ucast (fb_memory_model fb)),
               ArgStr (Some (framebuffer_memory_model_name C (fb_memory_model fb)))],
            kprintlnf ''    red_mask_size: %u'' [ArgInt (ucast (fb_red_mask_size fb))],
            kprintlnf ''    red_mask_shift: %u'' [ArgInt (ucast (fb_red_mask_shift fb))],
            kprintlnf ''    green_mask_size: %u'' [ArgInt (ucast (fb_green_mask_size fb))],
            kprintlnf ''    green_mask_shift: %u'' [ArgInt (ucast (fb_green_mask_shift fb))],
            kprintlnf ''    blue_mask_size: %u'' [ArgInt (ucast (fb_blue_mask_size fb))],
            kprintlnf ''    blue_mask_shift: %u'' [ArgInt (ucast (fb_blue_mask_shift fb))],
            kprintlnf ''    edid_size: %llu'' [ArgU64 (fb_edid_size fb)],
            kprintlnf ''    edid: 0x%llx'' [ArgU64 (fb_edid fb)],
            kprintlnf ''    mode_count: %llu'' [ArgU64 (fb_mode_count fb)],
            null_note (fb_modes fb) (fb_mode_count fb) ''    modes: (null)'',
            for_out 0 (fb_mode_count fb) (\<lambda>m. print_video_mode C m (ptr_at (fb_modes fb) m))])"

definition framebuffer_section ::
    "limine_consts \<Rightarrow> limine_requests \<Rightarrow> boot_info \<Rightarrow> 'a machine_scheme \<Rightarrow> 'a machine_scheme outcome" where
  "framebuffer_section C rq b =
     run_all
      [say ''Framebuffer:'',
       provided (rq_framebuffer rq)
        (let r = bi_framebuffer b in
         [kprintlnf ''  revision: %llu'' [ArgU64 (fbr_revision r)],
          kprintlnf ''  framebuffer_count: %llu'' [ArgU64 (fbr_framebuffer_count r)],
          null_note (fbr_framebuffers r) (fbr_framebuffer_count r) ''  framebuffers: (null)'',
          for_out 0 (fbr_framebuffer_count r)
            (\<lambda>i. print_framebuffer C i (ptr_at (fbr_framebuffers r) i))])]"

definition print_framebuffer_info ::
    "limine_consts \<Rightarrow> 'a boot_state_scheme \<Rightarrow> 'a boot_state_scheme outcome" where
  "print_framebuffer_info C s = framebuffer_section C (limine_requests s) (g_boot_info s) s"

section \<open>The sections of \<open>print_boot_info\<close>\<close>

definition hhdm_section ::
    "limine_requests \<Rightarrow> boot_info \<Rightarrow> 'a machine_scheme \<Rightarrow> 'a machine_scheme outcome" where
  "hhdm_section rq b =
     run_all
      [say ''HHDM:'',
       (case rq_hhdm rq of
          None \<Rightarrow> say ''  not provided''
        | Some resp \<Rightarrow>
            run_all
             [kprintlnf ''  revision: %llu'' [ArgU64 (hhdm_revision resp)],
              kprintlnf ''  offset: 0x%llx'' [ArgU64 (bi_hhdm_offset b)]])]"

definition bootloader_section ::
    "limine_requests \<Rightarrow> boot_info \<Rightarrow> 'a machine_scheme \<Rightarrow> 'a machine_scheme outcome" where
  "bootloader_section rq b =
     run_all
      [say ''Bootloader info:'',
       provided (rq_bootloader_info rq)
        (let r = bi_bootloader_info b in
         [kprintlnf ''  revision: %llu'' [ArgU64 (bli_revision r)],
          kprintlnf ''  name: %s'' [ArgStr (bli_name r)],
          kprintlnf ''  version: %s'' [ArgStr (bli_version r)]])]"

definition cmdline_section ::
    "limine_requests \<Rightarrow> boot_info \<Rightarrow> 'a machine_scheme \<Rightarrow> 'a machine_scheme outcome" where
  "cmdline_section rq b =
     run_all
      [say ''Executable cmdline:'',
       provided (rq_cmdline rq)
        (let r = bi_cmdline b in
         [kprintlnf ''  revision: %llu'' [ArgU64 (cmd_revision r)],
          kprintlnf ''  cmdline: %s'' [ArgStr (cmd_cmdline r)]])]"

definition firmware_section ::
    "limine_consts \<Rightarrow> limine_requests \<Rightarrow> boot_info \<Rightarrow> 'a machine_scheme \<Rightarrow>
      'a machine_scheme outcome" where
  "firmware_section C rq b =
     run_all
      [say ''Firmware type:'',
       provided (rq_firmware_type rq)
        (let r = bi_firmware_type b in
         [kprintlnf ''  revision: %llu'' [ArgU64 (fw_revision r)],
          kprintlnf ''  firmware_type: %llu (%s)''
            [ArgU64 (fw_firmware_type r), ArgStr (Some (firmware_type_name C (fw_firmware_type r)))]])]"

definition stack_size_section ::
    "limine_requests \<Rightarrow> boot_info \<Rightarrow> 'a machine_scheme \<Rightarrow> 'a machine_scheme outcome" where
  "stack_size_section rq b =
     run_all
      [say ''Stack size:'',
       provided (rq_stack_size rq)
        [kprintlnf ''  revision: %llu'' [ArgU64 (ss_revision (bi_stack_size b))]]]"

definition paging_mode_section ::
    "limine_consts \<Rightarrow> limine_requests \<Rightarrow> boot_info \<Rightarrow> 'a machine_scheme \<Rightarrow>
      'a machine_scheme outcome" where
  "paging_mode_section C rq b =
     run_all
      [say ''Paging mode:'',
       provided (rq_paging_mode rq)
        (let r = bi_paging_mode b in
         [kprintlnf ''  revision: %llu'' [ArgU64 (pm_revision r)],
          kprintlnf ''  mode: %llu (%s)''
            [ArgU64 (pm_mode r), ArgStr (Some (paging_mode_name C (pm_mode r)))]])]"

definition entry_point_section ::
    "limine_requests \<Rightarrow> boot_info \<Rightarrow> 'a machine_scheme \<Rightarrow> 'a machine_scheme outcome" where
  "entry_point_section rq b =
     run_all
      [say ''Entry point:'',
       provided (rq_entry_point rq)
        [kprintlnf ''  revision: %llu'' [ArgU64 (ep_revision (bi_entry_point b))]]]"

definition executable_file_section ::
    "limine_consts \<Rightarrow> limine_requests \<Rightarrow> boot_info \<Rightarrow> 'a machine_scheme \<Rightarrow>
      'a machine_scheme outcome" where
  "executable_file_section C rq b =
     run_all
      [say ''Executable file:'',
       provided (rq_executable_file rq)
        (let r = bi_kernel b in
         [kprintlnf ''  revision: %llu'' [ArgU64 (ef_revision r)],
          print_limine_file C ''kernel'' (ef_executable_file r)])]"

definition modules_section ::
    "limine_consts \<Rightarrow> limine_requests \<Rightarrow> boot_info \<Rightarrow> 'a machine_scheme \<Rightarrow>
      'a machine_scheme outcome" where
  "modules_section C rq b =
     run_all
      [say ''Modules:'',
       provided (rq_module rq)
        (let r = bi_module b in
         [kprintlnf ''  revision: %llu'' [ArgU64 (mod_revision r)],
          kprintlnf ''  module_count: %llu'' [ArgU64 (mod_module_count r)],
          null_note (mod_modules r) (mod_module_count r) ''  modules: (null)'',
          for_out 0 (mod_module_count r)
            (\<lambda>i. print_limine_file_indexed C ''module'' i (ptr_at (mod_modules r) i))])]"

definition smbios_section ::
    "limine_requests \<Rightarrow> boot_info \<Rightarrow> 'a machine_scheme \<Rightarrow> 'a machine_scheme outcome" where
  "smbios_section rq b =
     run_all
      [say ''SMBIOS:'',
       provided (rq_smbios rq)
        (let r = bi_smbios b in
         [kprintlnf ''  revision: %llu'' [ArgU64 (smb_revision r)],
          kprintlnf ''  entry_32: 0x%llx'' [ArgU64 (smb_entry_32 r)],
          kprintlnf ''  entry_64: 0x%llx'' [ArgU64 (smb_entry_64 r)]])]"

definition efi_system_table_section ::
    "limine_requests \<Rightarrow> boot_info \<Rightarrow> 'a machine_scheme \<Rightarrow> 'a machine_scheme outcome" where
  "efi_system_table_section rq b =
     run_all
      [say ''EFI system table:'',
       provided (rq_efi_system_table rq)
        (let r = bi_efi_system_table b in
         [kprintlnf ''  revision: %llu'' [ArgU64 (est_revision r)],
          kprintlnf ''  address: 0x%llx'' [ArgU64 (est_address r)]])]"

definition efi_memmap_section ::
    "limine_requests \<Rightarrow> boot_info \<Rightarrow> 'a machine_scheme \<Rightarrow> 'a machine_scheme outcome" where
  "efi_memmap_section rq b =
     run_all
      [say ''EFI memmap:'',
       provided (rq_efi_memmap rq)
        (let r = bi_efi_memmap b in
         [kprintlnf ''  revision: %llu'' [ArgU64 (em_revision r)],
          kprintlnf ''  memmap: 0x%llx'' [ArgU64 (em_memmap r)],
          kprintlnf ''  memmap_size: %llu'' [ArgU64 (em_memmap_size r)],
          kprintlnf ''  desc_size: %llu'' [ArgU64 (em_desc_size r)],
          kprintlnf ''  desc_version: %llu'' [ArgU64 (em_desc_version r)]])]"

definition boot_date_section ::
    "limine_requests \<Rightarrow> boot_info \<Rightarrow> 'a machine_scheme \<Rightarrow> 'a machine_scheme outcome" where
  "boot_date_section rq b =
     run_all
      [say ''Date at boot:'',
       provided (rq_date_at_boot rq)
        (let r = bi_boot_date b in
         [kprintlnf ''  revision: %llu'' [ArgU64 (dab_revision r)],
          print_signed_u64_line ''timestamp'' (dab_timestamp r)])]"

definition dtb_section ::
    "limine_requests \<Rightarrow> boot_info \<Rightarrow> 'a machine_scheme \<Rightarrow> 'a machine_scheme outcome" where
  "dtb_section rq b =
     run_all
      [say ''Device tree blob:'',
       provided (rq_dtb rq)
        (let r = bi_device_tree_blob b in
         [kprintlnf ''  revision: %llu'' [ArgU64 (dtb_revision r)],
          kprintlnf ''  dtb_ptr: 0x%llx'' [ArgU64 (dtb_ptr r)]])]"

definition riscv_section ::
    "limine_requests \<Rightarrow> boot_info \<Rightarrow> 'a machine_scheme \<Rightarrow> 'a machine_scheme outcome" where
  "riscv_section rq b =
     run_all
      [say ''RISC-V BSP hartid:'',
       provided (rq_riscv_bsp_hartid rq)
        (let r = bi_riscv_bsp_hartid b in
         [kprintlnf ''  revision: %llu'' [ArgU64 (rb_revision r)],
          kprintlnf ''  bsp_hartid: %llu'' [ArgU64 (rb_bsp_hartid r)]])]"

definition performance_section ::
    "limine_requests \<Rightarrow> boot_info \<Rightarrow> 'a machine_scheme \<Rightarrow> 'a machine_scheme outcome" where
  "performance_section rq b =
     run_all
      [say ''Bootloader performance:'',
       provided (rq_performance rq)
        (let r = bi_performance b in
         [kprintlnf ''  revision: %llu'' [ArgU64 (perf_revision r)],
          kprintlnf ''  reset_usec: %llu'' [ArgU64 (perf_reset_usec r)],
          kprintlnf ''  init_usec: %llu'' [ArgU64 (perf_init_usec r)],
          kprintlnf ''  exec_usec: %llu'' [ArgU64 (perf_exec_usec r)]])]"

definition executable_address_section ::
    "limine_requests \<Rightarrow> boot_info \<Rightarrow> 'a machine_scheme \<Rightarrow> 'a machine_scheme outcome" where
  "executable_address_section rq b =
     run_all
      [say ''Executable address:'',
       provided (rq_executable_address rq)
        (let r = bi_kernel_address b in
         [kprintlnf ''  revision: %llu'' [ArgU64 (ea_revision r)],
          kprintlnf ''  physical_base: 0x%llx'' [ArgU64 (physical_base r)],
          kprintlnf ''  virtual_base: 0x%llx'' [ArgU64 (virtual_base r)]])]"

definition print_memmap_entry ::
    "limine_consts \<Rightarrow> u64 \<Rightarrow> limine_memmap_entry option \<Rightarrow> 'a machine_scheme \<Rightarrow>
      'a machine_scheme outcome" where
  "print_memmap_entry C i ep =
     (case ep of
        None \<Rightarrow> kprintlnf ''  entry[%llu]: (null)'' [ArgU64 i]
      | Some e \<Rightarrow>
          kprintlnf ''  entry[%llu]: base=0x%llx length=0x%llx type=%llu (%s)''
            [ArgU64 i, ArgU64 (e_base e), ArgU64 (e_length e), ArgU64 (e_type e),
             ArgStr (Some (memmap_type_name C (e_type e)))])"

definition memmap_section ::
    "limine_consts \<Rightarrow> limine_requests \<Rightarrow> boot_info \<Rightarrow> 'a machine_scheme \<Rightarrow>
      'a machine_scheme outcome" where
  "memmap_section C rq b =
     run_all
      [say ''Memory map:'',
       provided (rq_memmap rq)
        (let r = bi_memmap b in
         [kprintlnf ''  revision: %llu'' [ArgU64 (mm_revision r)],
          kprintlnf ''  entry_count: %llu'' [ArgU64 (entry_count r)],
          null_note (entries r) (entry_count r) ''  entries: (null)'',
          for_out 0 (entry_count r) (\<lambda>i. print_memmap_entry C i (ptr_at (entries r) i))])]"

definition rsdp_section ::
    "limine_requests \<Rightarrow> boot_info \<Rightarrow> 'a machine_scheme \<Rightarrow> 'a machine_scheme outcome" where
  "rsdp_section rq b =
     run_all
      [say ''ACPI RSDP:'',
       provided (rq_rsdp rq)
        (let r = bi_acpi b in
         [kprintlnf ''  revision: %llu'' [ArgU64 (rsdp_revision r)],
          kprintlnf ''  address: 0x%llx'' [ArgU64 (rsdp_address r)]])]"

definition print_mp_info ::
    "u64 \<Rightarrow> limine_mp_info option \<Rightarrow> 'a machine_scheme \<Rightarrow> 'a machine_scheme outcome" where
  "print_mp_info i infop =
     (case infop of
        None \<Rightarrow> kprintlnf ''  cpu[%llu]: (null)'' [ArgU64 i]
      | Some info \<Rightarrow>
          run_all
           [kprintlnf ''  cpu[%llu]:'' [ArgU64 i],
            kprintlnf ''    processor_id: %u'' [ArgInt (mp_processor_id info)],
            kprintlnf ''    lapic_id: %u'' [ArgInt (mp_lapic_id info)],
            kprintlnf ''    reserved: 0x%llx'' [ArgU64 (mp_reserved info)],
            kprintlnf ''    goto_address: 0x%llx'' [ArgU64 (mp_goto_address info)],
            kprintlnf ''    extra_argument: 0x%llx'' [ArgU64 (mp_extra_argument info)]])"

definition smp_section ::
    "limine_consts \<Rightarrow> limine_requests \<Rightarrow> boot_info \<Rightarrow> 'a machine_scheme \<Rightarrow>
      'a machine_scheme outcome" where
  "smp_section C rq b =
     run_all
      [say ''SMP:'',
       provided (rq_mp rq)
        (let r = bi_smp b in
         [kprintlnf ''  revision: %llu'' [ArgU64 (mpr_revision r)],
          kprintlnf ''  flags: 0x%x'' [ArgInt (mpr_flags r)],
          kprintlnf ''  x2apic: %s''
            [ArgStr (Some (if mpr_flags r AND MP_RESPONSE_X86_64_X2APIC C \<noteq> 0 then ''yes'' else ''no''))],
          kprintlnf ''  bsp_lapic_id: %u'' [ArgInt (mpr_bsp_lapic_id r)],
          kprintlnf ''  cpu_count: %llu'' [ArgU64 (mpr_cpu_count r)],
          null_note (mpr_cpus r) (mpr_cpu_count r) ''  cpus: (null)'',
          for_out 0 (mpr_cpu_count r) (\<lambda>i. print_mp_info i (ptr_at (mpr_cpus r) i))])]"

definition boot_report ::
    "limine_consts \<Rightarrow> limine_requests \<Rightarrow> boot_info \<Rightarrow> 'a machine_scheme \<Rightarrow>
      'a machine_scheme outcome" where
  "boot_report C rq b =
     run_all
      [say ''=========================================================='',
       say ''=====================BOOT INFO============================'',
       say ''=========================================================='',
       hhdm_section rq b,
       bootloader_section rq b,
       cmdline_section rq b,
       firmware_section C rq b,
       stack_size_section rq b,
       paging_mode_section C rq b,
       entry_point_section rq b,
       executable_file_section C rq b,
       modules_section C rq b,
       smbios_section rq b,
       efi_system_table_section rq b,
       efi_memmap_section rq b,
       boot_date_section rq b,
       dtb_section rq b,
       riscv_section rq b,
       performance_section rq b,
       executable_address_section rq b,
       memmap_section C rq b,
       rsdp_section rq b,
       smp_section C rq b]"

definition print_boot_info ::
    "limine_consts \<Rightarrow> 'a boot_state_scheme \<Rightarrow> 'a boot_state_scheme outcome" where
  "print_boot_info C s = boot_report C (limine_requests s) (g_boot_info s) s"

section \<open>The report only prints\<close>

named_theorems report_rules \<open>introduction rules for \<open>only_prints\<close>\<close>

lemma only_prints_text: "only_prints (\<lambda>s. Inr (put_text str s))"
  by (auto simp: only_prints_def)

lemma only_prints_ext: "only_prints g \<Longrightarrow> (\<And>s. f s = g s) \<Longrightarrow> only_prints f"
  by (simp add: only_prints_def)

lemma only_prints_skip: "only_prints (\<lambda>s. Inr s)"
  using only_prints_text [of "[]"] by simp

lemma only_prints_say [report_rules]: "only_prints (say str)"
  unfolding say_def [abs_def] by (rule only_prints_kprintln)

lemma only_prints_Nil [report_rules]: "only_prints (run_all [])"
  using only_prints_skip by (simp add: run_all.simps(1) [abs_def])

lemma only_prints_Cons [report_rules]:
  "only_prints f \<Longrightarrow> only_prints (run_all fs) \<Longrightarrow> only_prints (run_all (f # fs))"
  using only_prints_bind [of f "run_all fs"] by (simp add: run_all.simps(2) [abs_def])

lemma run_all_append: "run_all (fs @ gs) s = bind_outcome (run_all fs s) (run_all gs)"
  by (induction fs arbitrary: s) (simp_all add: bind_outcome_def split: sum.splits)

lemma only_prints_append:
  "only_prints (run_all fs) \<Longrightarrow> only_prints (run_all gs) \<Longrightarrow> only_prints (run_all (fs @ gs))"
  using only_prints_bind [of "run_all fs" "run_all gs"] by (simp add: run_all_append [abs_def])

lemma only_prints_map: "(\<And>x. only_prints (f x)) \<Longrightarrow> only_prints (run_all (map f xs))"
  by (induction xs) (simp_all add: only_prints_Nil only_prints_Cons)

lemma only_prints_for [report_rules]:
  assumes "\<And>i. only_prints (body i)"
  shows "only_prints (for_out i n body)"
proof (induction "unat n - unat i" arbitrary: i rule: less_induct)
  case less
  show ?case
  proof (cases "i < n")
    case True
    then have "unat n - unat (i + 1) < unat n - unat i"
      by (auto simp: unat_Suc_less word_less_nat_alt)
    from only_prints_bind [OF assms less [OF this], of i] show ?thesis
      by (rule only_prints_ext) (simp add: for_out.simps [of i n body] True)
  next
    case False
    then show ?thesis using only_prints_skip by (simp add: for_out.simps [of i n body, abs_def])
  qed
qed

lemma only_prints_provided [report_rules]: "only_prints (run_all body) \<Longrightarrow> only_prints (provided resp body)"
  by (rule only_prints_ext [of "if resp = None then say ''  not provided'' else run_all body"])
    (simp_all add: provided_def only_prints_say)

lemma only_prints_null_note [report_rules]: "only_prints (null_note arr n msg)"
  by (rule only_prints_ext [of "if arr = None \<and> n \<noteq> 0 then say msg else Inr"])
    (simp_all add: null_note_def only_prints_say only_prints_skip)

lemma only_prints_hex_fixed [report_rules]: "only_prints (print_hex_fixed v digits)"
proof -
  have "only_prints (hex_fixed_loop i v)" for i
  proof (induction i)
    case (Suc i)
    have "fmt_typed ''%c'' (map type_of_karg [ArgInt w])" for w
      by (simp add: conv_typed_def take_type_def parse_flag_def is_digit_char_def)
    from only_prints_bind [OF only_prints_kprintf [OF this] Suc] show ?case
      by (simp add: hex_fixed_loop.simps(2) [abs_def] Let_def)
  qed (use only_prints_skip in \<open>simp add: hex_fixed_loop.simps(1) [abs_def]\<close>)
  then show ?thesis by (simp add: print_hex_fixed_def [abs_def])
qed

declare only_prints_kprintf [report_rules] only_prints_kprintlnf [report_rules]
lemmas format_typing = conv_typed_def take_type_def parse_flag_def is_digit_char_def

lemma only_prints_uuid [report_rules]: "only_prints (print_uuid u)"
  unfolding print_uuid_def
  by (intro only_prints_append only_prints_map report_rules) simp_all

lemma only_prints_signed [report_rules]: "only_prints (print_signed_u64_line label v)"
  unfolding print_signed_u64_line_def [abs_def] Let_def
  by (cases "sint v < 0") (simp_all add: format_typing only_prints_kprintf)

lemma only_prints_file_lines: "only_prints (run_all (limine_file_lines C file))"
  unfolding limine_file_lines_def by (intro report_rules) (simp_all add: format_typing)

lemma only_prints_file [report_rules]: "only_prints (print_limine_file C label file)"
  unfolding print_limine_file_def
  by (intro only_prints_option report_rules only_prints_file_lines) (simp_all add: format_typing)

lemma only_prints_file_indexed [report_rules]: "only_prints (print_limine_file_indexed C label i file)"
  unfolding print_limine_file_indexed_def
  by (intro only_prints_option report_rules only_prints_file_lines) (simp_all add: format_typing)

lemma only_prints_video_mode [report_rules]: "only_prints (print_video_mode C m mode)"
  unfolding print_video_mode_def by (intro only_prints_option report_rules) (simp_all add: format_typing)

lemma only_prints_framebuffer [report_rules]: "only_prints (print_framebuffer C i fb)"
  unfolding print_framebuffer_def by (intro only_prints_option report_rules) (simp_all add: format_typing)

lemma only_prints_memmap_entry [report_rules]: "only_prints (print_memmap_entry C i e)"
  unfolding print_memmap_entry_def by (intro only_prints_option report_rules) (simp_all add: format_typing)

lemma only_prints_mp_info [report_rules]: "only_prints (print_mp_info i info)"
  unfolding print_mp_info_def by (intro only_prints_option report_rules) (simp_all add: format_typing)

lemma only_prints_hhdm [report_rules]: "only_prints (hhdm_section rq b)"
  unfolding hhdm_section_def by (intro only_prints_option report_rules) (simp_all add: format_typing)

lemma only_prints_sections [report_rules]:
  "only_prints (framebuffer_section C rq b)"
  "only_prints (bootloader_section rq b)"
  "only_prints (cmdline_section rq b)"
  "only_prints (firmware_section C rq b)"
  "only_prints (stack_size_section rq b)"
  "only_prints (paging_mode_section C rq b)"
  "only_prints (entry_point_section rq b)"
  "only_prints (executable_file_section C rq b)"
  "only_prints (modules_section C rq b)"
  "only_prints (smbios_section rq b)"
  "only_prints (efi_system_table_section rq b)"
  "only_prints (efi_memmap_section rq b)"
  "only_prints (boot_date_section rq b)"
  "only_prints (dtb_section rq b)"
  "only_prints (riscv_section rq b)"
  "only_prints (performance_section rq b)"
  "only_prints (executable_address_section rq b)"
  "only_prints (memmap_section C rq b)"
  "only_prints (rsdp_section rq b)"
  "only_prints (smp_section C rq b)"
  unfolding framebuffer_section_def bootloader_section_def cmdline_section_def firmware_section_def stack_size_section_def paging_mode_section_def entry_point_section_def executable_file_section_def modules_section_def smbios_section_def efi_system_table_section_def efi_memmap_section_def boot_date_section_def dtb_section_def riscv_section_def performance_section_def executable_address_section_def memmap_section_def rsdp_section_def smp_section_def Let_def
  by (intro report_rules; simp add: format_typing)+

lemma only_prints_boot_report: "only_prints (boot_report C rq b)"
  unfolding boot_report_def by (intro report_rules)

section \<open>The text of UUIDs and signed numbers\<close>

lemma run_all_text:
  "f s = Inr (put_text t s) \<Longrightarrow> run_all (f # fs) s = run_all fs (put_text t s)"
  by simp

lemma kprintf_plain: "(\<forall>c \<in> set str. c \<noteq> CHR ''%'') \<Longrightarrow> kprintf str [] s = Inr (put_text str s)"
  unfolding kprintf_def by (induction str arbitrary: s) simp_all

definition hex_char :: "nat \<Rightarrow> char" where
  "hex_char k = ''0123456789abcdef'' ! k"

lemma digit_val_hex_char: "k < 16 \<Longrightarrow> digit_val (hex_char k) = k"
proof -
  have "\<forall>k \<in> set [0..<16]. digit_val (hex_char k) = k"
    by (simp add: upt_rec hex_char_def digit_val_def)
  then show "k < 16 \<Longrightarrow> digit_val (hex_char k) = k" by simp
qed

lemma kprintf_char: "kprintf ''%c'' [ArgInt (of_nat (of_char c))] s = Inr (kputc c s)"
proof -
  have "of_char c < (2::nat) ^ 32" by (rule less_trans [OF nat_of_char_less_256]) simp
  then have "unat (of_nat (of_char c) :: u32) = of_char c"
    by (simp add: unat_of_nat take_bit_nat_eq_self)
  then show ?thesis by (simp add: kprintf_def kv_conv_def parse_flag_def is_digit_char_def)
qed

text \<open>The \<open>n\<close> low hexadecimal digits of \<open>v\<close>, the most significant first.\<close>

primrec hex_text :: "nat \<Rightarrow> u64 \<Rightarrow> string" where
  "hex_text 0 v = []"
| "hex_text (Suc i) v = hex_char (unat v div 16 ^ i mod 16) # hex_text i v"

lemma length_hex_text [simp]: "length (hex_text n v) = n"
  by (induction n) simp_all

lemma parse_hex_text: "parse_uint 16 (hex_text n v) = unat v mod 16 ^ n"
proof (induction n)
  case 0
  show ?case by (simp add: parse_uint_def)
next
  case (Suc n)
  have "parse_uint 16 (hex_text (Suc n) v) = (unat v div 16 ^ n mod 16) * 16 ^ n + unat v mod 16 ^ n"
    using parse_uint_append [of 16 "[hex_char (unat v div 16 ^ n mod 16)]" "hex_text n v"] Suc
    by (simp add: parse_uint_def digit_val_hex_char)
  then show ?case by (simp only: power_Suc2 mod_mult2_eq mult.commute [of _ "16 ^ n"])
qed

lemma print_hex_fixed_text: "print_hex_fixed v n s = Inr (put_text (hex_text n v) s)"
proof -
  have nib: "unat (ucast (drop_bit (i * 4) v AND 0xf) :: u8) = unat v div 16 ^ i mod 16" for i
    using nibble_unat64 [of i v] by (simp add: unsigned_ucast_eq take_bit_nat_eq_self)
  have "hex_fixed_loop n v s = Inr (put_text (hex_text n v) s)"
    by (induction n arbitrary: s) (simp_all add: Let_def nib kprintf_char flip: hex_char_def)
  then show ?thesis by (simp add: print_hex_fixed_def)
qed

text \<open>The standard text of a UUID: 8-4-4-4-12 digits.\<close>

definition uuid_text :: "limine_uuid \<Rightarrow> string" where
  "uuid_text u =
     hex_text 8 (ucast (uuid_a u)) @ ''-'' @ hex_text 4 (ucast (uuid_b u)) @ ''-'' @
     hex_text 4 (ucast (uuid_c u)) @ ''-'' @
     concat (map (\<lambda>i. hex_text 2 (ucast (uuid_d u i))) [0..<2]) @ ''-'' @
     concat (map (\<lambda>i. hex_text 2 (ucast (uuid_d u i))) [2..<8])"

lemma print_uuid_text: "print_uuid u s = Inr (put_text (uuid_text u) s)"
  by (simp add: print_uuid_def uuid_text_def print_hex_fixed_text kprintf_plain upt_rec del: put_text_simps(2))

lemma put_text_append: "put_text (xs @ ys) s = put_text ys (put_text xs s)"
  by simp

lemma take_drop_concat:
  assumes "\<And>i. length (f i) = 2" "k < length is"
  shows "take 2 (drop (2 * k) (concat (map f is))) = f (is ! k)"
  using assms(2)
proof (induction "is" arbitrary: k)
  case (Cons i "is")
  then show ?case using assms(1) by (cases k) simp_all
qed simp

lemma hex_text_exact:
  fixes x :: "'w::len word"
  assumes "LENGTH('w) = 4 * n" "n \<le> 16"
  shows "parse_uint 16 (hex_text n (ucast x)) = unat x"
proof -
  have "unat (ucast x :: u64) = unat x" using assms by (intro unat_ucast_up) simp
  moreover have "unat x < 16 ^ n"
    using unsigned_less [of x, where ?'a = nat] assms(1) by (simp add: power_mult)
  ultimately show ?thesis by (simp add: parse_hex_text)
qed

section \<open>Properties\<close>

text \<open>
  A UUID is printed as 36 characters, 8-4-4-4-12, whose digit groups read back as its members.
\<close>

theorem print_uuid_roundtrip:
  "\<exists>a b c d e. print_uuid u s = Inr (put_text (a @ ''-'' @ b @ ''-'' @ c @ ''-'' @ d @ ''-'' @ e) s) \<and>
    map length [a, b, c, d, e] = [8, 4, 4, 4, 12] \<and>
    parse_uint 16 a = unat (uuid_a u) \<and> parse_uint 16 b = unat (uuid_b u) \<and>
    parse_uint 16 c = unat (uuid_c u) \<and>
    (\<forall>i < 2. parse_uint 16 (take 2 (drop (2 * i) d)) = unat (uuid_d u i)) \<and>
    (\<forall>i < 6. parse_uint 16 (take 2 (drop (2 * i) e)) = unat (uuid_d u (i + 2)))"
proof (intro exI conjI allI impI)
  let ?f = "\<lambda>i. hex_text 2 (ucast (uuid_d u i))"
  show "print_uuid u s = Inr (put_text (hex_text 8 (ucast (uuid_a u)) @ ''-'' @
      hex_text 4 (ucast (uuid_b u)) @ ''-'' @ hex_text 4 (ucast (uuid_c u)) @ ''-'' @
      concat (map ?f [0..<2]) @ ''-'' @ concat (map ?f [2..<8])) s)"
    by (simp only: print_uuid_text uuid_text_def)
  show "parse_uint 16 (take 2 (drop (2 * i) (concat (map ?f [0..<2])))) = unat (uuid_d u i)"
    if "i < 2" for i
    using that by (subst take_drop_concat) (simp_all add: hex_text_exact)
  show "parse_uint 16 (take 2 (drop (2 * i) (concat (map ?f [2..<8])))) = unat (uuid_d u (i + 2))"
    if "i < 6" for i
    using that by (subst take_drop_concat) (simp_all add: hex_text_exact add.commute del: upt_Suc upt_rec_numeral)
qed (simp_all add: hex_text_exact length_concat o_def upt_rec)

theorem print_uuid_roundtrip_witness:
  "\<exists>a b c d e. print_uuid \<lparr>uuid_a = 0x12345678, uuid_b = 0xabcd, uuid_c = 1, uuid_d = of_nat\<rparr>
      \<lparr>trace = [], mem = \<lambda>_. 0, cr3 = 0, msrs = \<lambda>_. 0\<rparr> =
      Inr (put_text (a @ ''-'' @ b @ ''-'' @ c @ ''-'' @ d @ ''-'' @ e)
        \<lparr>trace = [], mem = \<lambda>_. 0, cr3 = 0, msrs = \<lambda>_. 0\<rparr>) \<and>
    length e = 12 \<and> parse_uint 16 a = 0x12345678 \<and> parse_uint 16 (take 2 (drop 10 e)) = 7"
  using print_uuid_roundtrip [of "\<lparr>uuid_a = 0x12345678, uuid_b = 0xabcd, uuid_c = 1, uuid_d = of_nat\<rparr>"
      "\<lparr>trace = [], mem = \<lambda>_. 0, cr3 = 0, msrs = \<lambda>_. 0\<rparr>"]
  by (elim exE conjE) (drule spec [of "\<lambda>i. i < 6 \<longrightarrow> _ i" 5], fastforce)

lemma kprintf_signed_neg:
  "kprintf (''  %s: -%llu'' @ [CHR 0x0A]) [ArgStr (Some l), ArgU64 w] s =
    bind_outcome (print_uint w 10 0 CHR '' '' False (put_text (''  '' @ c_text l @ '': '' @ ''-'') s))
      (\<lambda>s. Inr (kputc CHR 0x0A s))"
  by (simp add: kprintf_def kv_conv_def kv_uint_def parse_flag_def is_digit_char_def kputs_text
      put_text_append bind_outcome_def del: put_text_simps(3) split: sum.splits)

lemma kprintf_signed_pos:
  "kprintf (''  %s: %llu'' @ [CHR 0x0A]) [ArgStr (Some l), ArgU64 w] s =
    bind_outcome (print_uint w 10 0 CHR '' '' False (put_text (''  '' @ c_text l @ '': '' @ []) s))
      (\<lambda>s. Inr (kputc CHR 0x0A s))"
  by (simp add: kprintf_def kv_conv_def kv_uint_def parse_flag_def is_digit_char_def kputs_text
      put_text_append bind_outcome_def del: put_text_simps(3) split: sum.splits)

lemma unat_of_int_sint: "0 \<le> k \<Longrightarrow> k < 2 ^ 64 \<Longrightarrow> int (unat (word_of_int k :: u64)) = k"
  by (simp add: uint_word_of_int)

lemma magnitude: "int (unat (if sint v < 0 then - (v + 1) + 1 else v)) = \<bar>sint v\<bar>" for v :: u64
proof -
  have id: "word_of_int (sint v) = v" by (simp flip: scast_eq)
  then have "- v = word_of_int (- sint v)" by (simp only: wi_hom_neg [symmetric])
  moreover from id have "v = word_of_int (sint v)" by (rule sym)
  moreover have "- (2 ^ 63) \<le> sint v" "sint v < 2 ^ 63" using sint_ge [of v] sint_lt [of v] by simp_all
  moreover have "- (v + 1) + 1 = - v" by simp
  ultimately have "(if sint v < 0 then - (v + 1) + 1 else v) = word_of_int \<bar>sint v\<bar>"
      "\<bar>sint v\<bar> < 2 ^ 64"
    by (simp_all only: abs_if split: if_split) auto
  then show ?thesis by (simp only: unat_of_int_sint abs_ge_zero)
qed

text \<open>
  The signed line of the report prints the number exactly, the smallest one included.
\<close>

theorem print_signed_u64_line_exact:
  "\<exists>ds. print_signed_u64_line label v s =
      Inr (put_text (''  '' @ c_text label @ '': '' @ (if sint v < 0 then ''-'' else []) @ ds @ [CHR 0x0A]) s) \<and>
    int (parse_uint 10 ds) = \<bar>sint v\<bar>"
proof -
  let ?w = "if sint v < 0 then - (v + 1) + 1 else v"
  let ?pre = "''  '' @ c_text label @ '': '' @ (if sint v < 0 then ''-'' else [])"
  have "unat ?w < unat (10 :: u64) ^ 20" using unat_less_u64 [of ?w] by simp
  from print_uint_text [OF _ this, of 0 "CHR '' ''" False "put_text ?pre s"]
  obtain ds where ds: "print_uint ?w 10 0 CHR '' '' False (put_text ?pre s) =
      Inr (put_text ds (put_text ?pre s))" "parse_uint 10 ds = unat ?w"
    by (auto simp: num_base_def)
  have "print_signed_u64_line label v s =
      bind_outcome (print_uint ?w 10 0 CHR '' '' False (put_text ?pre s)) (\<lambda>s. Inr (kputc CHR 0x0A s))"
    by (cases "sint v < 0")
      (simp_all only: print_signed_u64_line_def Let_def kprintf_signed_neg kprintf_signed_pos if_True if_False)
  moreover have "int (unat ?w) = \<bar>sint v\<bar>"
    by (rule magnitude)
  ultimately show ?thesis
    using ds by (intro exI [of _ ds]) (simp add: put_text_append del: put_text_simps(3))
qed

lemma put_text_events: "put_text str t = t\<lparr>trace := trace t @ map (\<lambda>c. EvOut COM1 (byte_of_char c)) str\<rparr>"
  for t :: "'a boot_state_scheme"
  by (induction str arbitrary: t) (simp_all add: kputc_def emit_def)

lemma print_boot_info_sends:
  "\<exists>str. print_boot_info C s = Inr (s\<lparr>trace := trace s @ map (\<lambda>c. EvOut COM1 (byte_of_char c)) str\<rparr>)"
  using only_prints_boot_report put_text_events
  unfolding only_prints_def print_boot_info_def by metis

text \<open>
  C32: Whatever the boot loader answered, the report returns and does nothing but send text to
  the serial port.
\<close>

theorem print_boot_info_only_prints:
  "(\<exists>str. print_boot_info C s = Inr (s\<lparr>trace := trace s @ map (\<lambda>c. EvOut COM1 (byte_of_char c)) str\<rparr>)) \<and>
   (\<exists>str. print_framebuffer_info C s =
      Inr (s\<lparr>trace := trace s @ map (\<lambda>c. EvOut COM1 (byte_of_char c)) str\<rparr>))"
  using print_boot_info_sends only_prints_sections(1) put_text_events
  unfolding only_prints_def print_framebuffer_info_def by metis

end
