(* ===== verification/Kmain.thy ===== *)
theory Kmain
  imports User_Program Interrupts Boot_Print
begin

text \<open>
  The boot path, \<open>kernel/core/kmain.c\<close>: the order in which \<open>kmain\<close> brings the components up, and the
  way into user mode; user memory and the program in it are in \<open>User_Program\<close>. \<open>None\<close> is a run that does
  not get to the end of the boot path: a component that halts or faults, or a page fault on user memory.
  The lemmas are about its last two steps, threads and interrupts; \<open>Boot_Path\<close> puts all steps together.
\<close>

section \<open>Entry and exit\<close>

definition early_banner :: "'a machine_scheme \<Rightarrow> 'a machine_scheme" where
  "early_banner s =
     (let s = kprintln ''================================================================'' s;
          s = kprintln ''========================= mCincOS =============================='' s
      in kprintln ''================================================================'' s)"

text \<open>
  The four data segment registers, then the frame for \<open>iretq\<close>: instruction pointer, code segment, flags
  with interrupts enabled, stack pointer and stack segment; \<open>flags\<close> is what \<open>pushfq\<close> pushes. The base of
  the user data segment is 0, which \<open>IA32_GS_BASE\<close> is already.
\<close>

definition enter_user :: "u64 \<Rightarrow> u64 \<Rightarrow> u64 \<Rightarrow> 'a machine_scheme \<Rightarrow> 'a machine_scheme" where
  "enter_user flags rip rsp s =
     emit (EvIretq rip (ucast USER_CS) (flags OR 0x200) rsp (ucast USER_DS))
       (emit (EvSegs (ucast USER_DS)) (emit EvCli s))"

section \<open>Steps of \<open>kmain\<close>\<close>

definition TIMER_VECTOR :: u8 where "TIMER_VECTOR = 0xf0"
definition SCHED_QUANTUM_NS :: u64 where "SCHED_QUANTUM_NS = 5000000"

text \<open>The addresses of the static objects of \<open>kmain.c\<close> and of the tick handler.\<close>

record kmain_symbols =
  sym_t0 :: u64
  sym_t1 :: u64
  sym_sched_on_tick :: u64

definition alloc_stack :: "'a pmm_state_scheme \<Rightarrow> u64 \<times> 'a pmm_state_scheme" where
  "alloc_stack s = (let (p, s) = pmm_alloc_pages 2 s in (phys_to_virt s (p + 2 * 4096), s))"

definition kmain_stacks :: "'a gdt_state_scheme \<Rightarrow> u64 \<times> u64 \<times> 'a gdt_state_scheme" where
  "kmain_stacks s =
     (let s = kprintln ''df_stack'' s;
          (top, s) = alloc_stack s;
          s = gdt_set_ist 1 top s;
          s = kprintln ''alloc pf stack'' s;
          (top, s) = alloc_stack s;
          s = gdt_set_ist 2 top s;
          s = kprintln ''alloc nmi stack'' s;
          (top, s) = alloc_stack s;
          s = gdt_set_ist 3 top s;
          (p0, s) = pmm_alloc_pages 2 s;
          (p1, s) = pmm_alloc_pages 2 s
      in (phys_to_virt s (p0 + 2 * 4096), phys_to_virt s (p1 + 2 * 4096), s))"

definition kmain_init_threads ::
    "kmain_symbols \<Rightarrow> u64 \<Rightarrow> u64 \<Rightarrow> 'a sched_state_scheme \<Rightarrow> 'a sched_state_scheme" where
  "kmain_init_threads km kstack0_top kstack1_top s =
     (let s = kprintln ''thread init 1'' s;
          s = thread_init_user (sym_t0 km) user_code0 (user_stack0 + 4096) kstack0_top s;
          s = kprintln ''thread 2'' s;
          s = thread_init_user (sym_t1 km) user_code1 (user_stack1 + 4096) kstack1_top s;
          s = s\<lparr>g_cpu_local := (g_cpu_local s)\<lparr>kernel_rsp := kstack0_top\<rparr>\<rparr>;
          s = gdt_set_kernel_stack kstack0_top s;
          s = kprintln ''[init] sched'' s
      in sched_init (sym_t0 km) s)"

definition kmain_threads ::
    "devices \<Rightarrow> kmain_symbols \<Rightarrow> u64 \<Rightarrow> u64 \<Rightarrow> 'a sched_state_scheme \<Rightarrow> 'a sched_state_scheme option" where
  "kmain_threads d km kstack0_top kstack1_top s =
     sched_add d (sym_t1 km) (kmain_init_threads km kstack0_top kstack1_top s)"

text \<open>Interrupts, the timer and the scheduler's tick; the status of \<open>timer_init\<close> is not looked at.\<close>

definition kmain_interrupts ::
    "devices \<Rightarrow> cpu_symbols \<Rightarrow> kmain_symbols \<Rightarrow> 'a irq_state_scheme \<Rightarrow>
      ('a irq_state_scheme + 'a irq_state_scheme) option" where
  "kmain_interrupts d cs km s =
     do {
       let s = kprintln ''[init] idt'' s;
       let s = idt_init cs s;
       let s = irq_init d s;
       let s = kprintln ''[init] timer'' s;
       (rc, s) \<leftarrow> timer_init d TIMER_VECTOR s;
       if timer_source s = TIMER_SRC_NONE then Some (Inl (panic ''timer init failed'' s))
       else do {
         let s = (if timer_source s = TIMER_SRC_TSC_DEADLINE then kprintln ''[timer] tsc-deadline'' s
                  else kprintln ''[timer] lapic oneshot'' s);
         let s = irq_register_vector_handler (timer_vector s) (sym_sched_on_tick km) s;
         s \<leftarrow> sched_set_quantum_ns d SCHED_QUANTUM_NS s;
         s \<leftarrow> sched_start d s;
         Some (Inr (idt_enable s))
       }
     }"

text \<open>How the boot path ends: halted in \<open>panic\<close>, or at the \<open>iretq\<close> into user mode.\<close>

datatype 's kmain_end = Panicked 's | InUser 's

definition kmain_start ::
    "limine_consts \<Rightarrow> link_symbols \<Rightarrow> cpu_symbols \<Rightarrow> 'a gdt_state_scheme \<Rightarrow> 'a gdt_state_scheme option" where
  "kmain_start lc ls cs s =
     (let s = early_banner s;
          s = boot_info_init s
      in case print_boot_info lc s of
           Inl e \<Rightarrow> None
         | Inr s \<Rightarrow>
             (let s = kprintln ''[init] gdt'' s;
                  s = gdt_init cs s;
                  s = kprintln ''[init] pmm'' s
              in do {
                s \<leftarrow> pmm_init lc ls s;
                let s = kprintln ''[init] vmm'' s;
                let s = vmm_init s;
                Some (kprintln ''[init] cpu_local + kernel stack'' s)
              }))"

definition kmain ::
    "limine_consts \<Rightarrow> link_symbols \<Rightarrow> cpu_symbols \<Rightarrow> kmain_symbols \<Rightarrow> devices \<Rightarrow> u64 \<Rightarrow>
      'a irq_state_scheme \<Rightarrow> 'a irq_state_scheme kmain_end option" where
  "kmain lc ls cs km d flags s =
     do {
       s \<leftarrow> kmain_start lc ls cs s;
       let (kstack0_top, kstack1_top, s) = kmain_stacks s;
       r \<leftarrow> kmain_user_memory s;
       case r of
         Inl s \<Rightarrow> Some (Panicked s)
       | Inr s \<Rightarrow> do {
           s \<leftarrow> kmain_threads d km kstack0_top kstack1_top s;
           r \<leftarrow> kmain_interrupts d cs km s;
           case r of
             Inl s \<Rightarrow> Some (Panicked s)
           | Inr s \<Rightarrow>
               (let s = kprintln ''[init] syscall'' s;
                    s = syscall_init cs s
                in Some (InUser (enter_user flags user_code0 (user_stack0 + 4096) s)))
         }
     }"

text \<open>
  The statements behind \<open>enter_user\<close>, which does not return: they are never run. The results of the two
  allocations are not looked at.
\<close>

definition kmain_tail :: "u64 \<Rightarrow> 'a pmm_state_scheme \<Rightarrow> 'a pmm_state_scheme option" where
  "kmain_tail flags s =
     (let user_code_va = 0x400000;
          user_stack_va = 0x700000;
          (uc_phys, s) = pmm_alloc_pages 1 s;
          (us_phys, s) = pmm_alloc_pages 1 s;
          s = snd (vmm_map_page user_code_va uc_phys (PTE_U OR PTE_W) s);
          s = snd (vmm_map_page user_stack_va us_phys (PTE_U OR PTE_W) s)
      in do {
        s \<leftarrow> build_user_blob user_code_va s;
        Some (enter_user flags user_code_va (user_stack_va + 4096) s)
      })"

section \<open>What the later components leave alone\<close>

text \<open>Everything but the trace; printing reaches the trace only.\<close>

definition untraced :: "'a machine_scheme \<Rightarrow> 'a machine_scheme" where
  "untraced s = s\<lparr>trace := []\<rparr>"

lemma untraced_emit [simp]: "untraced (emit e s) = untraced s"
  by (simp add: untraced_def emit_def)

lemma untraced_eq: "untraced t = untraced s \<Longrightarrow> t = s\<lparr>trace := trace t\<rparr>"
  unfolding untraced_def by (cases s, cases t) simp

lemma untraced_text [simp]:
  "untraced (kprintln str s) = untraced s" "untraced (kprint str s) = untraced s"
proof -
  have "untraced (put_text x s) = untraced s" for x
    using put_text_trace [of x s] by (auto simp: untraced_def)
  then show "untraced (kprintln str s) = untraced s" "untraced (kprint str s) = untraced s"
    by (simp_all add: kprintln_text kprint_text)
qed

lemma text_eq: "\<exists>tr. kprintln str s = s\<lparr>trace := tr\<rparr>" "\<exists>tr. kprint str s = s\<lparr>trace := tr\<rparr>"
  using untraced_eq [OF untraced_text(1)] untraced_eq [OF untraced_text(2)] by blast+

text \<open>What address spaces depend on, and where the local controller is.\<close>

definition memory_part where
  "memory_part s = (mem s, cr3 s, msrs s IA32_APIC_BASE, g_boot_info s, g_hhdm s, g_bitmap s, g_total_pages s, g_free_bytes s)"

lemma memory_partD:
  fixes s :: "'a pmm_state_scheme" and t :: "'b pmm_state_scheme"
  assumes "memory_part t = memory_part s"
  shows "space_ok A t root = space_ok A s root" "translate t root x = translate s root x"
    "data_page A t root q = data_page A s root q" "maps_to t x q = maps_to s x q"
    "free_pages t = free_pages s" "current_root t = current_root s"
    "phys_to_virt t q = phys_to_virt s q" "mem t = mem s" "g_total_pages t = g_total_pages s"
    "g_boot_info t = g_boot_info s" "msrs t IA32_APIC_BASE = msrs s IA32_APIC_BASE" "cr3 t = cr3 s"
    "pt_get t q j = pt_get s q j" "g_hhdm t = g_hhdm s"
    "level_entry t root x k = level_entry s root x k" "user_open t root x = user_open s root x"
    "user_page t root x = user_page s root x"
proof -
  from assms have f: "mem t = mem s" "g_hhdm t = g_hhdm s" "g_bitmap t = g_bitmap s"
    "g_total_pages t = g_total_pages s" "g_free_bytes t = g_free_bytes s"
    and r: "cr3 t = cr3 s" "g_boot_info t = g_boot_info s" "msrs t IA32_APIC_BASE = msrs s IA32_APIC_BASE"
    by (simp_all add: memory_part_def)
  note c = tables_cong [OF f]
  show "translate t root x = translate s root x" "free_pages t = free_pages s" "pt_get t q j = pt_get s q j"
    by (simp_all add: c)
  show "level_entry t root x k = level_entry s root x k" "user_open t root x = user_open s root x"
    "user_page t root x = user_page s root x"
    by (simp_all add: levels_cong [OF c(1)])
  show "space_ok A t root = space_ok A s root" by (rule space_ok_fields [OF f])
  show "data_page A t root q = data_page A s root q" by (rule data_page_fields [OF f])
  show "current_root t = current_root s" "phys_to_virt t q = phys_to_virt s q" "mem t = mem s"
    "g_total_pages t = g_total_pages s" "g_boot_info t = g_boot_info s"
    "msrs t IA32_APIC_BASE = msrs s IA32_APIC_BASE" "cr3 t = cr3 s" "g_hhdm t = g_hhdm s"
    using f r by (simp_all add: read_cr3_def phys_to_virt_def hhdm_offset_def)
  show "maps_to t x q = maps_to s x q" using r by (simp add: maps_to_def c read_cr3_def)
qed

lemma text_memory_part [simp]:
  "memory_part (kprintln str s) = memory_part s" "memory_part (kprint str s) = memory_part s"
  using text_eq(1) [of str s] text_eq(2) [of str s] by (auto simp: memory_part_def)

text \<open>
  The same with the address of the controller's registers and the queue of timer events: threads and
  timers never touch them.
\<close>

definition local_part where
  "local_part s = (memory_part s, g_lapic_base s, g_head s)"

lemma local_partD:
  assumes "local_part t = local_part s"
  shows "memory_part t = memory_part s" "g_lapic_base t = g_lapic_base s" "g_head t = g_head s"
  using assms by (simp_all add: local_part_def)

lemma text_local_part [simp]: "local_part (kprintln str s) = local_part s"
  using text_eq(1) [of str s] by (auto simp: local_part_def memory_part_def)

lemma timer_local_part [simp]:
  "local_part (timer_stop s) = local_part s" "local_part (timer_oneshot_ns d ns s) = local_part s"
  "local_part (snd (timer_now_ns d s)) = local_part s"
  by (simp_all add: local_part_def memory_part_def timer_stop_def timer_oneshot_ns_def timer_now_ns_def
      lapic_timer_stop_def lapic_timer_set_tsc_deadline_def lapic_timer_oneshot_def lapic_write_def
      mmio_write32_def wrmsr_def rdtsc_ordered_def rdtsc_def emit_def Let_def IA32_TSC_DEADLINE_def IA32_APIC_BASE_def)

lemma slice_local_part [simp]: "local_part (s\<lparr>g_slice_end_ns := v\<rparr>) = local_part s"
  by (simp add: local_part_def memory_part_def)

lemma arm_local_part: "sched_arm_timer d s = Some t \<Longrightarrow> local_part t = local_part s"
  using timer_local_part(3) [of d s]
  by (auto simp: sched_arm_timer_def sched_next_deadline_def Let_def case_prod_beta bind_eq_Some_conv split: if_splits)

section \<open>Threads\<close>

lemma text_keeps_sched:
  "sched_part (kprintln str s) = sched_part s" "queue_part (kprintln str s) = queue_part s"
proof -
  obtain tr where "kprintln str s = s\<lparr>trace := tr\<rparr>" using text_eq(1) by blast
  then show "sched_part (kprintln str s) = sched_part s" "queue_part (kprintln str s) = queue_part s"
    by (simp_all add: sched_part_def queue_part_def)
qed

lemmas text_keeps = sched_partD [OF text_keeps_sched(1)] queue_partD [OF text_keeps_sched(2)]

definition start_frame :: "u64 \<Rightarrow> u64 \<Rightarrow> isr_frame" where
  "start_frame rip rsp = zero_frame\<lparr>f_rip := rip, f_cs := ucast USER_CS, f_rflags := 0x202, f_rsp := rsp,
     f_ss := ucast USER_DS\<rparr>"

lemma init_threads:
  fixes s :: "'a sched_state_scheme" and k0 k1 :: u64
  assumes "sym_t0 km \<noteq> sym_t1 km"
  defines "u \<equiv> kmain_init_threads km k0 k1 s"
  shows "t_frame (threads u (sym_t0 km)) = start_frame user_code0 (user_stack0 + 4096)"
    "t_frame (threads u (sym_t1 km)) = start_frame user_code1 (user_stack1 + 4096)"
    "t_state (threads u (sym_t0 km)) = THREAD_RUNNING" "t_state (threads u (sym_t1 km)) = THREAD_READY"
    "t_next (threads u (sym_t0 km)) = sym_t0 km" "kstack_top (threads u (sym_t0 km)) = k0"
    "g_current u = sym_t0 km" "kernel_rsp (g_cpu_local u) = k0" "rsp0 (g_tss u) = k0"
  using assms(1)
  by (simp_all add: u_def kmain_init_threads_def Let_def thread_init_user_def zero_thread_def set_thread_def
      sched_init_def gdt_set_kernel_stack_def text_keeps start_frame_def)

text \<open>
  Two user threads, the first running on its kernel stack and the second next in
  the ring; each starts at its own program with its own stack pointer, in ring 3 with interrupts on.
\<close>

lemma kmain_threads_ready:
  assumes "sym_t0 km \<noteq> 0" "sym_t1 km \<noteq> 0" "sym_t0 km \<noteq> sym_t1 km"
  shows "\<exists>t. kmain_threads d km k0 k1 s = Some t \<and> sched_inv t [sym_t0 km, sym_t1 km] \<and>
    g_current t = sym_t0 km \<and> rr_next t [sym_t0 km, sym_t1 km] = sym_t1 km \<and>
    t_frame (threads t (sym_t0 km)) = start_frame user_code0 (user_stack0 + 4096) \<and>
    t_frame (threads t (sym_t1 km)) = start_frame user_code1 (user_stack1 + 4096)"
proof -
  define u where "u = kmain_init_threads km k0 k1 s"
  note u = init_threads [OF assms(3), of k0 k1 s, folded u_def]
  have "sched_inv u [sym_t0 km]"
    using u assms(1) by (simp add: sched_inv_def ring_def)
  from sched_add_spec [OF this _ assms(2), of d] assms(3) u show ?thesis
    by (auto simp: kmain_threads_def rr_next_def simp flip: u_def)
qed

lemma thread_local_part [simp]:
  "local_part (thread_init_user t entry stack kstack s) = local_part s" "local_part (set_thread t f s) = local_part s"
  "local_part (sched_init t s) = local_part s" "local_part (gdt_set_kernel_stack v s) = local_part s"
  "local_part (s\<lparr>g_cpu_local := c\<rparr>) = local_part s"
  by (simp_all add: thread_init_user_def zero_thread_def set_thread_def sched_init_def gdt_set_kernel_stack_def Let_def
      local_part_def memory_part_def)

lemma kmain_threads_local_part:
  assumes "kmain_threads d km k0 k1 s = Some t"
  shows "local_part t = local_part s"
proof -
  have "local_part (kmain_init_threads km k0 k1 s) = local_part s"
    by (simp add: kmain_init_threads_def Let_def)
  then show ?thesis
    using assms by (auto simp: kmain_threads_def sched_add_def Let_def dest!: arm_local_part split: if_splits)
qed

section \<open>The unreachable tail\<close>

text \<open>Had it been reached with eight free pages, the stack would have had a page of its own.\<close>

lemma kmain_tail_own_stack:
  assumes s: "space_ok A s root" "root = current_root s" "8 \<le> card (free_pages s)" "0 \<notin> free_pages s"
    and n: "unat (g_total_pages s) \<le> 2 ^ 40" and A: "{user_code0, user_stack0} \<subseteq> A"
  shows "\<exists>p q t. kmain_tail flags s = Some t \<and> space_ok A t root \<and> p \<noteq> q \<and>
    maps_to t user_code0 p \<and> maps_to t user_stack0 q"
proof -
  obtain p s1 where a1: "pmm_alloc_pages 1 s = (p, s1)" by force
  obtain q s2 where a2: "pmm_alloc_pages 1 s1 = (q, s2)" by force
  have c: "7 + 1 \<le> card (free_pages s)" using s(3) by simp
  note b1 = alloc_step [OF s(1,2) c s(4) a1]
  have c1: "6 + 1 \<le> card (free_pages s1)" using b1(4) by simp
  note b2 = alloc_step [OF b1(2,3) c1 b1(5) a2]
  have r: "vmm_ready s" "vmm_ready s1" using s(1) b1(2) by (simp_all add: space_ok_def)
  note small = alloc_page_bounds [OF r(1) a1 n]
  have "unat (g_total_pages s1) \<le> 2 ^ 40" using small(3) n by simp
  note small2 = alloc_page_bounds [OF r(2) a2 this]
  have "unat p div 4096 \<notin> free_pages s1" "unat q div 4096 \<in> free_pages s1"
    using b1(6) alloc_one_spec(4) [OF r(2) a2 b2(1)] by (simp_all add: data_page_def table_page_def)
  then have pq: "p \<noteq> q" by auto
  define s3 where "s3 = snd (vmm_map_page user_code0 p (PTE_U OR PTE_W) s2)"
  define s4 where "s4 = snd (vmm_map_page user_stack0 q (PTE_U OR PTE_W) s3)"
  have V: "user_code0 \<in> A" "user_stack0 \<in> A" using A by simp_all
  have c2: "3 + 3 \<le> card (free_pages s2)" using b2(4) by simp
  note m3 = map_user_page [OF b2(2,3) V(1) c2 b2(5), where p = p, folded s3_def]
  have r3: "root = current_root s3" "0 + 3 \<le> card (free_pages s3)" using b2(3) m3(2,3) by simp_all
  note m4 = map_user_page [OF m3(1) r3(1) V(2) r3(2) m3(4), where p = q, folded s4_def]
  have r4: "root = current_root s4" using r3(1) m4(2) by simp
  have "\<not> same_page user_code0 user_stack0" "same_page user_code0 user_code0" "same_page user_stack0 user_stack0"
    and al: "aligned 12 user_code0" "aligned 12 user_stack0" "drop_bit 47 user_code0 = 0" "drop_bit 47 user_stack0 = 0"
    by (simp_all add: same_page_def user_addrs aligned_unat)
  then have "translate s4 (current_root s4) user_code0 = Some (leaf_value (vmm_align_down p) (PTE_U OR PTE_W))"
    "translate s4 (current_root s4) user_stack0 = Some (leaf_value (vmm_align_down q) (PTE_U OR PTE_W))"
    unfolding r4 [symmetric] using m3(6) [OF V(1)] m4(6) [OF V(1)] m4(6) [OF V(2)] by simp_all
  then have maps: "maps_to s4 user_code0 p" "maps_to s4 user_stack0 q"
    using al by (simp_all only: maps_to_def option.map page_frame_leaf [OF small(1,2)] page_frame_leaf [OF small2(1,2)])
  have d: "data_page A s4 root p" using b2(7) [OF b1(6)] m3(5) m4(5) by blast
  note w = build_user_blob_page [OF m4(1) [unfolded r4] maps(1) d [unfolded r4] V(1)]
  define t where "t = s4\<lparr>mem := overlay (mem s4) (phys_to_virt s4 p) user_blob\<rparr>"
  have t: "maps_to t user_code0 p" "maps_to t user_stack0 q"
    using maps w(3) [folded t_def] V by (simp_all add: maps_to_def) (simp_all add: t_def read_cr3_def)
  define u where "u = enter_user flags user_code0 (user_stack0 + 4096) t"
  have "kmain_tail flags s = Some u"
    using w(1) [folded t_def] by (simp add: kmain_tail_def a1 a2 s3_def s4_def user_addrs u_def)
  moreover have e: "memory_part u = memory_part t"
    by (simp add: u_def enter_user_def emit_def memory_part_def)
  moreover have "space_ok A u root" unfolding memory_partD(1) [OF e] r4 by (rule w(2) [folded t_def])
  ultimately show ?thesis using pq t memory_partD(4) [OF e] by blast
qed

section \<open>Interrupts\<close>

text \<open>
  A step that may map the page of \<open>L\<close>: the address space stays well formed, other translations and
  the data pages with their contents stay.
\<close>

definition keeps_space :: "u64 set \<Rightarrow> u64 \<Rightarrow> u64 \<Rightarrow> 'a pmm_state_scheme \<Rightarrow> 'a pmm_state_scheme \<Rightarrow> bool" where
  "keeps_space A root L s t \<longleftrightarrow> space_ok A t root \<and> current_root t = root \<and> g_hhdm t = g_hhdm s \<and>
     (\<forall>x \<in> A. \<not> same_page x L \<longrightarrow> translate t root x = translate s root x) \<and> keeps_data A root s t"

lemma keeps_space_part:
  assumes "memory_part s' = memory_part s" "memory_part t' = memory_part t"
  shows "keeps_space A root L s' t' = keeps_space A root L s t"
  by (simp only: keeps_space_def keeps_data_def upper_kept_def memory_partD [OF assms(1)] memory_partD [OF assms(2)])

text \<open>So a user page keeps its contents.\<close>

lemma keeps_space_bytes:
  assumes k: "keeps_space A root L s t" and p: "data_page A s root p"
    and V: "maps_to s V p" "V \<in> A" "\<not> same_page V L" and root: "current_root s = root"
    and bytes: "\<forall>i < length bs. mem s (phys_to_virt s p + of_nat i) = bs ! i" "length bs \<le> 4096"
  shows "maps_to t V p" "holds_bytes t V bs" "user_page s root V \<Longrightarrow> user_page t root V"
proof -
  have d: "unat j < 512 \<Longrightarrow> pt_get t p j = pt_get s p j" for j
    using k p by (simp add: keeps_space_def keeps_data_def)
  have h: "g_hhdm t = g_hhdm s" using k by (simp add: keeps_space_def)
  show "user_page s root V \<Longrightarrow> user_page t root V"
    by (erule user_page_kept [where A = A]) (use k V in \<open>simp_all add: keeps_space_def keeps_data_def\<close>)
  show m: "maps_to t V p" using k V root by (simp add: maps_to_def keeps_space_def)
  show "holds_bytes t V bs"
  proof (rule holds_bytes_page [OF m bytes(2)])
    fix i
    assume i: "i < length bs"
    then have "unat (of_nat i :: u64) < 4096" using bytes(2) by (simp add: unat_of_nat_less)
    from page_bytes_kept [OF d h this] show "mem t (phys_to_virt t p + of_nat i) = bs ! i"
      using bytes(1) i by simp
  qed
qed

lemma irq_init_trace: "irq_init d s = s\<lparr>trace := trace (irq_init d s)\<rparr>"
proof (rule untraced_eq)
  have mask: "untraced (pic_set_mask d i t) = untraced t" for i and t :: "'a machine_scheme"
    by (simp add: pic_set_mask_def Let_def case_prod_beta inb_def outb_def)
  have "untraced (pic_init d a b s) = untraced s" for a b
    by (simp add: pic_init_def Let_def case_prod_beta inb_def outb_def io_wait_def)
  then show "untraced (irq_init d s) = untraced s"
    by (simp add: irq_init_def for_u64_frame [of untraced, OF mask])
qed

lemma lapic_init_tss:
  fixes s :: "'a lapic_state_scheme"
  assumes "lapic_init s = Some t"
  shows "g_tss t = g_tss s" "g_head t = g_head s"
proof -
  have more: "g_tss t = g_tss s \<and> g_head t = g_head s" if "pmm_state.more t = pmm_state.more s"
    for s t :: "'a lapic_state_scheme"
    using that by (cases s; cases t) simp
  show "g_tss t = g_tss s" "g_head t = g_head s"
    using assms by (auto simp: lapic_init_def lapic_store_def Let_def bind_eq_Some_conv wrmsr_def lapic_write_def mmio_write32_def
        emit_def split: if_splits dest!: beyond_mmio_map beyond_memoryD(5) more)
qed

text \<open>The entry that maps the registers of the local controller at its address in the direct map.\<close>

definition controller_mapped :: "u64 \<Rightarrow> u64 \<Rightarrow> 'a lapic_state_scheme \<Rightarrow> bool" where
  "controller_mapped root phys s \<longleftrightarrow> g_lapic_base s = phys + bi_hhdm_offset (g_boot_info s) \<and>
     translate s root (g_lapic_base s) =
       Some (leaf_value phys (PTE_P OR PTE_W OR PTE_G OR (PTE_PCD OR PTE_PWT)))"

lemma controller_mapped_part:
  assumes "local_part t = local_part s"
  shows "controller_mapped root p t = controller_mapped root p s"
  by (simp only: controller_mapped_def local_partD(2) [OF assms] memory_partD(2,10) [OF local_partD(1) [OF assms]])

text \<open>
  What \<open>timer_init\<close> does where the processor has an invariant time-stamp counter with deadlines and tells its
  frequency, and three pages are free for the tables of the controller's page.
\<close>

lemma timer_init_deadline:
  assumes "space_ok A s root" "current_root s = root" "g_lapic_base s = 0"
    and L: "L = (msrs s IA32_APIC_BASE AND 0xfffff000) + bi_hhdm_offset (g_boot_info s)" "L \<in> A"
    and free: "L \<noteq> 0" "3 \<le> card (free_pages s)" "0 \<notin> free_pages s"
    and cpu: "cpu_has_invariant_tsc d \<noteq> 0" "cpu_has_tsc_deadline d \<noteq> 0" "tsc_hz_from_cpuid d \<noteq> 0"
  shows "\<exists>t. timer_init d v s = Some (0, t) \<and> sched_part t = sched_part s \<and>
    g_src t = TIMER_SRC_TSC_DEADLINE \<and> g_vector t = v \<and> keeps_space A root L s t \<and> g_head t = g_head s \<and>
    controller_mapped root (msrs s IA32_APIC_BASE AND 0xfffff000) t"
proof -
  let ?s = "s\<lparr>g_vector := v\<rparr>"
  have sv: "memory_part ?s = memory_part s" by (simp add: memory_part_def)
  let ?phys = "msrs s IA32_APIC_BASE AND 0xfffff000"
  have "space_ok A ?s root" using assms(1) memory_partD(1) [OF sv] by simp
  moreover have "free_pages ?s = free_pages s" by (rule memory_partD(5) [OF sv])
  ultimately obtain u where u: "lapic_init ?s = Some u" "space_ok A u root"
    "\<forall>x \<in> A. \<not> same_page x L \<longrightarrow> translate u root x = translate ?s root x" "keeps_data A root ?s u"
    "g_lapic_base u = L" "translate u root L = Some (leaf_value ?phys (PTE_P OR PTE_W OR PTE_G OR (PTE_PCD OR PTE_PWT)))"
    using lapic_init_spec [of A ?s root, OF _ _ _ refl] assms(2-8) by (auto simp: read_cr3_def)
  have h: "g_hhdm u = g_hhdm s" "cr3 u = cr3 s" "g_boot_info u = g_boot_info s"
    using u(1) by (auto simp: lapic_init_def lapic_store_def Let_def bind_eq_Some_conv lapic_write_def mmio_write32_def emit_def wrmsr_def
        split: if_splits dest!: beyond_mmio_map dest: beyond_memoryD(1,4,6))
  have more: "lapic_state.more u = lapic_state.more ?s" using lapic_init_frame [OF u(1)] by simp
  then have p: "timer_state.more u = timer_state.more s" "g_vector u = v"
    by (cases u; cases s; simp)+
  have tss: "g_tss u = g_tss s" "g_head u = g_head s" using lapic_init_tss [OF u(1)] by simp_all
  obtain t where t: "timer_start_source d v (tsc_hz_from_cpuid d) u = Some (0, t)" "timer_state.more t = timer_state.more u"
    "g_tss t = g_tss u" "g_src t = TIMER_SRC_TSC_DEADLINE" "g_vector t = g_vector u" "memory_part t = memory_part u"
    "g_head t = g_head u" "g_lapic_base t = g_lapic_base u"
    using cpu(2) by (simp add: timer_start_source_def Let_def timer_set_scale_def timer_stop_def lapic_timer_stop_def
        lapic_timer_set_tsc_deadline_def lapic_write_def mmio_write32_def wrmsr_def emit_def memory_part_def
        IA32_TSC_DEADLINE_def IA32_APIC_BASE_def)
  have "timer_init d v s = Some (0, t)" using cpu u t(1) by (simp add: timer_init_def)
  moreover have "keeps_space A root L s u"
    using u assms(2) h memory_partD(2,3,13,15) [OF sv]
    by (simp add: keeps_space_def keeps_data_def upper_kept_def read_cr3_def)
  then have "keeps_space A root L s t" using keeps_space_part [OF refl t(6)] by blast
  moreover have "controller_mapped root ?phys t"
    using u(5,6) t(8) h(3) L(1) memory_partD(2,10) [OF t(6)] by (simp add: controller_mapped_def)
  ultimately show ?thesis using t p tss by (simp add: sched_part_def)
qed

lemma arm_keeps_more: "sched_arm_timer d s = Some t \<Longrightarrow> sched_state.more t = sched_state.more s"
  by (auto simp: sched_arm_timer_def sched_next_deadline_def Let_def case_prod_beta bind_eq_Some_conv
      sched_partD(7) [OF timer_parts(1)] sched_partD(7) [OF timer_parts(3)] sched_partD(7) [OF timer_parts(5)]
      split: if_splits)

lemma idt_init_parts: "sched_part (idt_init cs s) = sched_part s" "local_part (idt_init cs s) = local_part s"
  for s :: "'a sched_state_scheme"
  unfolding idt_init_def Let_def sched_part_def local_part_def memory_part_def
  by (simp_all add: idt_set_gate_def lidt_def emit_def for_u64_frame)

text \<open>Everything up to the timer is set up, seen from the scheduler and from the address space.\<close>

definition before_timer :: "devices \<Rightarrow> cpu_symbols \<Rightarrow> 'a irq_state_scheme \<Rightarrow> 'a irq_state_scheme" where
  "before_timer d cs s =
     kprintln ''[init] timer'' (irq_init d (idt_init cs (kprintln ''[init] idt'' s)))"

lemma before_timer_parts:
  "sched_part (before_timer d cs s) = sched_part s" "local_part (before_timer d cs s) = local_part s"
proof -
  define s3 where "s3 = irq_init d (idt_init cs (kprintln ''[init] idt'' s))"
  obtain tr where "s3 = (idt_init cs (kprintln ''[init] idt'' s))\<lparr>trace := tr\<rparr>"
    using irq_init_trace [of d "idt_init cs (kprintln ''[init] idt'' s)"] s3_def by metis
  then have "sched_part s3 = sched_part s" "local_part s3 = local_part s"
    using idt_init_parts [of cs "kprintln ''[init] idt'' s"]
    by (simp_all add: text_keeps_sched) (simp_all add: sched_part_def local_part_def memory_part_def)
  then show "sched_part (before_timer d cs s) = sched_part s" "local_part (before_timer d cs s) = local_part s"
    by (simp_all add: before_timer_def text_keeps_sched flip: s3_def)
qed

text \<open>The whole step, with what it leaves of memory.\<close>

lemma kmain_interrupts_spec:
  assumes "sched_inv s q" "space_ok A s root" "current_root s = root" "g_lapic_base s = 0"
    and L: "L = (msrs s IA32_APIC_BASE AND 0xfffff000) + bi_hhdm_offset (g_boot_info s)" "L \<in> A"
    and free: "L \<noteq> 0" "3 \<le> card (free_pages s)" "0 \<notin> free_pages s"
    and cpu: "cpu_has_invariant_tsc d \<noteq> 0" "cpu_has_tsc_deadline d \<noteq> 0" "tsc_hz_from_cpuid d \<noteq> 0"
  shows "\<exists>t. kmain_interrupts d cs km s = Some (Inr t) \<and> sched_inv t q \<and> g_current t = g_current s \<and>
    threads t = threads s \<and> g_quantum_ns t = 5000000 \<and>
    g_vector_handlers t 0xf0 = sym_sched_on_tick km \<and> last (trace t) = EvSti \<and> keeps_space A root L s t \<and>
    g_head t = g_head s \<and> controller_mapped root (msrs s IA32_APIC_BASE AND 0xfffff000) t"
proof -
  let ?s = "before_timer d cs s"
  note part = local_partD [OF before_timer_parts(2), of d cs s]
  note mp = memory_partD [OF part(1)]
  obtain u where u: "timer_init d TIMER_VECTOR ?s = Some (0, u)" "sched_part u = sched_part ?s"
    "g_src u = TIMER_SRC_TSC_DEADLINE" "g_vector u = TIMER_VECTOR" "keeps_space A root L ?s u"
    "g_head u = g_head s" "controller_mapped root (msrs s IA32_APIC_BASE AND 0xfffff000) u"
    using timer_init_deadline [of A ?s root L d TIMER_VECTOR] assms mp part(2,3) by auto
  then have su: "sched_part u = sched_part s" using before_timer_parts(1) by simp
  define v where "v = irq_register_vector_handler TIMER_VECTOR (sym_sched_on_tick km)
    (kprintln ''[timer] tsc-deadline'' u)"
  define w where "w = v\<lparr>g_quantum_ns := ucast SCHED_QUANTUM_NS\<rparr>"
  have uk: "sched_part (kprintln ''[timer] tsc-deadline'' u) = sched_part s"
    using su by (simp add: text_keeps_sched)
  have w: "threads w = threads s" "g_current w = g_current s" "g_cpu_local w = g_cpu_local s" "g_tss w = g_tss s"
    "g_quantum_ns w = 5000000" "g_vector_handlers w 0xf0 = sym_sched_on_tick km"
    using sched_partD [OF uk]
    by (simp_all add: w_def v_def irq_register_vector_handler_def TIMER_VECTOR_def SCHED_QUANTUM_NS_def)
  have wu: "local_part w = local_part u"
    using text_local_part [of "''[timer] tsc-deadline''" u]
    by (simp add: w_def v_def irq_register_vector_handler_def local_part_def memory_part_def)
  have "sched_inv w q" using assms(1) by (simp add: sched_inv_def ring_def w)
  then obtain x where x: "sched_arm_timer d w = Some x" "same_sched w x"
    using sched_arm_timer_spec by blast
  have ix: "sched_inv x q" using same_sched_inv [OF x(2)] \<open>sched_inv w q\<close> by simp
  then obtain y where y: "sched_arm_timer d x = Some y" "same_sched x y"
    using sched_arm_timer_spec by blast
  have iy: "sched_inv y q" using same_sched_inv [OF y(2)] ix by simp
  have h: "g_vector_handlers y 0xf0 = sym_sched_on_tick km"
    using arm_keeps_more [OF x(1)] arm_keeps_more [OF y(1)] w(6) by (cases w; cases x; cases y) simp
  obtain tr where "kprintln ''[timer] tsc-deadline'' u = u\<lparr>trace := tr\<rparr>"
    using text_eq(1) by blast
  then have tv: "timer_source u = TIMER_SRC_TSC_DEADLINE"
    "timer_vector (kprintln ''[timer] tsc-deadline'' u) = TIMER_VECTOR"
    using u(3,4) by (simp_all add: timer_source_def timer_vector_def)
  have "kmain_interrupts d cs km s = Some (Inr (idt_enable y))"
    using u(1) x(1) y(1) tv
    by (simp add: kmain_interrupts_def before_timer_def v_def w_def sched_set_quantum_ns_def sched_start_def
        SCHED_QUANTUM_NS_def Let_def)
  moreover have "sched_inv (idt_enable y) q" "threads (idt_enable y) = threads s" "g_current (idt_enable y) = g_current s"
    "g_quantum_ns (idt_enable y) = 5000000" "g_vector_handlers (idt_enable y) 0xf0 = sym_sched_on_tick km"
    "last (trace (idt_enable y)) = EvSti"
    using iy h w x(2) y(2) by (simp_all add: idt_enable_def emit_def sched_inv_def ring_def same_sched_def)
  moreover have "memory_part (idt_enable y) = memory_part u"
    using local_partD(1) [OF wu] local_partD(1) [OF arm_local_part [OF x(1)]] local_partD(1) [OF arm_local_part [OF y(1)]]
    by (simp add: idt_enable_def emit_def memory_part_def)
  with u(5) have "keeps_space A root L s (idt_enable y)" using keeps_space_part [OF part(1)] by metis
  moreover have "g_head (idt_enable y) = g_head s"
    using local_partD(3) [OF wu] local_partD(3) [OF arm_local_part [OF x(1)]] local_partD(3) [OF arm_local_part [OF y(1)]]
      u(6) by (simp add: idt_enable_def emit_def)
  moreover have "local_part (idt_enable y) = local_part u"
    using wu arm_local_part [OF x(1)] arm_local_part [OF y(1)] by (simp add: idt_enable_def emit_def local_part_def memory_part_def)
  then have "controller_mapped root (msrs s IA32_APIC_BASE AND 0xfffff000) (idt_enable y)"
    using u(7) controller_mapped_part by blast
  ultimately show ?thesis by blast
qed

text \<open>
  C13: On a processor with an invariant time-stamp counter, TSC deadlines and a frequency that \<open>cpuid\<close>
  tells, and with three free pages for the tables of the controller's page, \<open>kmain\<close> gets the interrupts
  going: the registers of the local controller are mapped, the ring of threads is as it was, ticks of five
  milliseconds go to the scheduler through vector 240, and interrupts are enabled only after all of
  that. The page of the controller must be on the well-formed part of the space.
\<close>

theorem kmain_interrupts_ready:
  assumes "sched_inv s q" "space_ok A s root" "current_root s = root" "g_lapic_base s = 0"
    and "L = (msrs s IA32_APIC_BASE AND 0xfffff000) + bi_hhdm_offset (g_boot_info s)" "L \<in> A" "L \<noteq> 0"
    and "3 \<le> card (free_pages s)" "0 \<notin> free_pages s"
    and "cpu_has_invariant_tsc d \<noteq> 0" "cpu_has_tsc_deadline d \<noteq> 0" "tsc_hz_from_cpuid d \<noteq> 0"
  shows "\<exists>t. kmain_interrupts d cs km s = Some (Inr t) \<and> sched_inv t q \<and> g_current t = g_current s \<and>
    threads t = threads s \<and> g_quantum_ns t = 5000000 \<and>
    g_vector_handlers t 0xf0 = sym_sched_on_tick km \<and> last (trace t) = EvSti \<and>
    controller_mapped root (msrs s IA32_APIC_BASE AND 0xfffff000) t"
  using kmain_interrupts_spec [OF assms] by blast

section \<open>Witnesses\<close>

definition demo_kmain :: kmain_symbols where
  "demo_kmain = \<lparr>sym_t0 = 0x8000, sym_t1 = 0x9000, sym_sched_on_tick = 0x80004000\<rparr>"

abbreviation demo_before_irq :: irq_state where
  "demo_before_irq \<equiv> demo_irq\<lparr>g_lapic_base := 0, msrs := \<lambda>_. 0xfee00900\<rparr>"

theorem kmain_interrupts_ready_witness:
  "\<exists>t. kmain_interrupts (demo_cpu 0x1000000) demo_symbols demo_kmain demo_before_irq = Some (Inr t) \<and>
    sched_inv t [0x8000, 0x9000] \<and> g_vector_handlers t 0xf0 = 0x80004000 \<and> last (trace t) = EvSti \<and>
    controller_mapped 0x5000 0xfee00000 t"
proof -
  let ?s = demo_before_irq
  have inv: "sched_inv ?s [0x8000, 0x9000]"
    using demo_sched_inv [of 0] by (simp add: sched_inv_def ring_def demo_irq_fields demo_sched_fields)
  note defs = demo_irq_def irq_state.defs demo_sched_defs demo_timer_def demo_defs
  have "space_ok UNIV ?s 0x5000 = space_ok UNIV demo_vmm 0x5000"
    by (rule space_ok_fields) (simp_all add: defs)
  then have sp: "space_ok UNIV ?s 0x5000" using demo_space_ok(1) by simp
  have "free_pages ?s = free_pages demo_vmm" by (rule tables_cong(4)) (simp_all add: defs)
  then have free: "3 \<le> card (free_pages ?s)" "0 \<notin> free_pages ?s"
    by (simp_all only: demo_vmm_card) (simp_all add: demo_vmm_free)
  have cr: "current_root ?s = 0x5000" and h: "bi_hhdm_offset (g_boot_info demo_irq) = 0"
    by (simp_all add: read_cr3_def defs zero_boot_info_def)
  from kmain_interrupts_ready [OF inv sp cr _ refl UNIV_I _ free, of "demo_cpu 0x1000000" demo_symbols demo_kmain]
  show ?thesis by (auto simp: demo_cpu_features demo_kmain_def h)
qed

end
