(* ===== verification/Boot_Space.thy ===== *)
theory Boot_Space
  imports Mmio
begin

text \<open>
  The address space that the boot loader hands over. Its tables lie in pages that the memory map does
  not call usable, so \<open>pmm_init\<close> never gives them away and its bitmap never covers them: the paths
  the kernel works on stay a tree of tables, now in the sense of the allocator. Enough usable memory
  leaves enough free pages, and allocations keep the space.
\<close>

section \<open>Taking over the tables of the boot loader\<close>

definition boot_page :: "limine_consts \<Rightarrow> memmap_response \<Rightarrow> u64 \<Rightarrow> bool" where
  "boot_page lc mm p \<longleftrightarrow> aligned 12 p \<and> p \<noteq> 0 \<and> \<not> usable_page lc mm 0 (unat p div 4096)"

lemma good_place_usable:
  assumes "good_place lc mm n k0 k1 b" "page_in x (unat b) (unat b + unat n)"
  shows "usable_page lc mm 0 x"
proof -
  obtain i e where e: "usable_entry lc mm i e" "unat (e_base e) \<le> unat b" "unat b + unat n \<le> e_limit e"
    using assms(1) unfolding good_place_def by blast
  then have "page_in x (unat (e_base e)) (e_limit e)"
    using assms(2) div_le_mono [OF e(2), of 4096] by (simp add: page_in_def)
  with e(1) show ?thesis by (auto simp: usable_page_def)
qed

text \<open>A page without a byte of the bitmap, seen through the direct map.\<close>

lemma bitmap_apart:
  assumes p: "aligned 12 p" "\<not> page_in (unat p div 4096) (unat b) (unat b + unat n)"
    and b: "aligned 12 b" "g_bitmap t = b + g_hhdm t" "unat b + unat n < 2 ^ 64"
    and n: "unat (g_total_pages t) \<le> 8 * unat n"
  shows "page_apart t p"
  unfolding page_apart_def
proof (intro allI impI notI)
  fix y
  assume y: "y < g_total_pages t" and near: "unat (bitmap_addr t y - pt_virt t p) < 4096"
  let ?o = "drop_bit 3 y" and ?k = "b + drop_bit 3 y - p"
  obtain x where x: "unat p = 4096 * x" using p(1) by (auto simp: aligned_12)
  have o: "unat ?o < unat n"
    using y n by (simp add: unat_drop_bit word_less_nat_alt)
  have "bitmap_addr t y - pt_virt t p = ?k"
    using b(2) by (simp add: bitmap_addr_def pt_virt_add)
  with near have k: "unat ?k < 4096" by simp
  then have "unat (p + ?k) = 4096 * x + unat ?k"
    using aligned_add_unat [of 12 p ?k] p(1) x by simp
  moreover have "unat (b + ?o) = unat b + unat ?o"
    using o b(3) by (intro unat_add_no_wrap) simp
  ultimately have eq: "unat b + unat ?o = 4096 * x + unat ?k" by simp
  obtain q where q: "unat b = 4096 * q" using b(1) by (auto simp: aligned_12)
  have "q \<le> x" using eq k q by linarith
  then have "page_in (unat p div 4096) (unat b) (unat b + unat n)"
    using eq k q o x by (simp add: page_in_def)
  with p(2) show False ..
qed

text \<open>What \<open>pmm_init\<close> leaves, in one place.\<close>

lemma pmm_init_parts:
  assumes "memmap_ok lc (bi_memmap (g_boot_info s))"
    and "kernel_phys_range ls s = (k0, k1)" "unat k0 \<le> unat k1" "unat k1 + 4095 < 2 ^ 64"
    and "aligned 12 (bi_hhdm_offset (g_boot_info s))" "pmm_init lc ls s = Some t"
  obtains b where "good_place lc (bi_memmap (g_boot_info s)) (g_bitmap_bytes t) k0 k1 b"
    "free_pages t = {x. usable_page lc (bi_memmap (g_boot_info s)) 0 x \<and>
      \<not> page_in x (unat k0) (unat k1) \<and> \<not> page_in x (unat b) (unat b + unat (g_bitmap_bytes t))}"
    "\<And>p. aligned 12 p \<Longrightarrow> \<not> page_in (unat p div 4096) (unat b) (unat b + unat (g_bitmap_bytes t)) \<Longrightarrow> page_apart t p"
    "vmm_ready t"
proof (rule pmm_init_cases [OF assms(1-4)])
  fix maxp b t'
  assume p: "pmm_init lc ls s = (if b = 0 then None else Some t')"
    "g_bitmap t' = b + bi_hhdm_offset (g_boot_info s)" "g_hhdm t' = bi_hhdm_offset (g_boot_info s)"
    "unat (g_total_pages t') \<le> 8 * unat (g_bitmap_bytes t')" "g_bitmap_bytes t' = bitmap_bytes_for maxp"
    "b \<noteq> 0 \<Longrightarrow> good_place lc (bi_memmap (g_boot_info s)) (bitmap_bytes_for maxp) k0 k1 b"
    "b \<noteq> 0 \<Longrightarrow> free_pages t' = {x. usable_page lc (bi_memmap (g_boot_info s)) 0 x \<and>
       \<not> page_in x (unat k0) (unat k1) \<and> \<not> page_in x (unat b) (unat b + unat (g_bitmap_bytes t'))} \<and> pmm_inv t'"
  have t: "b \<noteq> 0" "t' = t" using p(1) assms(6) by (auto split: if_splits)
  have good: "good_place lc (bi_memmap (g_boot_info s)) (g_bitmap_bytes t) k0 k1 b" using p(5,6) t by simp
  have top: "unat b + unat (g_bitmap_bytes t) < 2 ^ 64"
    using good assms(1) by (fastforce simp: good_place_def memmap_ok_def)
  have apart: "page_apart t p"
    if "aligned 12 p" "\<not> page_in (unat p div 4096) (unat b) (unat b + unat (g_bitmap_bytes t))" for p
    by (rule bitmap_apart [OF that]) (use good p(2-4) t top in \<open>simp_all add: good_place_def\<close>)
  have ready: "vmm_ready t"
    unfolding vmm_ready_def
  proof (intro conjI allI impI)
    show "pmm_inv t" "aligned 12 (g_hhdm t)" using p(3,7) t assms(5) by simp_all
    fix x :: u64
    assume x: "unat x \<in> free_pages t"
    then have "x < g_total_pages t" by (simp add: mem_free_pages)
    with \<open>pmm_inv t\<close> have small: "unat x < 2 ^ 52" by (simp add: pmm_inv_def word_less_nat_alt)
    show "page_apart t (x * PAGE_SIZE)"
    proof (rule apart)
      show "aligned 12 (x * PAGE_SIZE)" by (simp add: aligned_unat unat_pages [OF small])
      show "\<not> page_in (unat (x * PAGE_SIZE) div 4096) (unat b) (unat b + unat (g_bitmap_bytes t))"
        using x p(7) t by (simp only: unat_page_addr [OF small]) simp
    qed
  qed
  show thesis by (rule that [OF good _ apart ready]) (use p(7) t in simp_all)
qed

text \<open>
  C11: \<open>pmm_init\<close> establishes what the virtual memory manager asks of the allocator: the counter is
  exact, and no free page overlaps the bitmap, so writing to a fresh table cannot corrupt it.
\<close>

theorem pmm_init_vmm_ready:
  assumes "memmap_ok lc (bi_memmap (g_boot_info s))"
    and "kernel_phys_range ls s = (k0, k1)" "unat k0 \<le> unat k1" "unat k1 + 4095 < 2 ^ 64"
    and "aligned 12 (bi_hhdm_offset (g_boot_info s))"
    and "pmm_init lc ls s = Some t"
  shows "vmm_ready t"
  by (rule pmm_init_parts [OF assms])

section \<open>The space of the boot loader\<close>

lemma pmm_init_space:
  fixes s t :: "'a pmm_state_scheme"
  assumes ok: "memmap_ok lc (bi_memmap (g_boot_info s))"
    and k: "kernel_phys_range ls s = (k0, k1)" "unat k0 \<le> unat k1" "unat k1 + 4095 < 2 ^ 64"
    and h: "aligned 12 (bi_hhdm_offset (g_boot_info s))" and init: "pmm_init lc ls s = Some t"
    and boot: "tree (paths A) (pt_get (s\<lparr>g_hhdm := bi_hhdm_offset (g_boot_info s)\<rparr>))
      (boot_page lc (bi_memmap (g_boot_info s))) root"
  shows "space_ok A t root"
    "x \<in> A \<Longrightarrow> translate t root x = translate (s\<lparr>g_hhdm := bi_hhdm_offset (g_boot_info s)\<rparr>) root x"
    "x \<in> A \<Longrightarrow> user_open t root x = user_open (s\<lparr>g_hhdm := bi_hhdm_offset (g_boot_info s)\<rparr>) root x"
proof -
  let ?mm = "bi_memmap (g_boot_info s)" and ?s = "s\<lparr>g_hhdm := bi_hhdm_offset (g_boot_info s)\<rparr>"
  obtain b where b: "good_place lc ?mm (g_bitmap_bytes t) k0 k1 b"
    "free_pages t = {x. usable_page lc ?mm 0 x \<and>
      \<not> page_in x (unat k0) (unat k1) \<and> \<not> page_in x (unat b) (unat b + unat (g_bitmap_bytes t))}"
    and apart: "\<And>p. aligned 12 p \<Longrightarrow> \<not> page_in (unat p div 4096) (unat b) (unat b + unat (g_bitmap_bytes t)) \<Longrightarrow>
      page_apart t p"
    and ready: "vmm_ready t"
    by (rule pmm_init_parts [OF ok k h init]) (rule that)
  note keep = pmm_init_keeps [OF ok init]
  have page: "table_page t p \<and> page_apart t p" if "boot_page lc ?mm p" for p
    using that apart good_place_usable [OF b(1)] b(2) h keep(2) by (auto simp: boot_page_def table_page_def)
  have get: "pt_get t p i = pt_get ?s p i" if p: "boot_page lc ?mm p" and i: "unat i < 512" for p i
  proof -
    have v: "pt_virt ?s p = pt_virt t p" using keep(2) by (simp add: pt_virt_add)
    have "mem t (cell (pt_virt t p) i + k) = mem s (cell (pt_virt t p) i + k)" if "unat k < 8" for k
    proof (rule keep(3))
      fix y
      assume y: "y < g_total_pages t"
      show "cell (pt_virt t p) i + k \<noteq> bitmap_addr t y"
      proof
        assume "cell (pt_virt t p) i + k = bitmap_addr t y"
        then have "bitmap_addr t y - pt_virt t p = 8 * i + k" by (simp add: cell_def algebra_simps)
        with page [OF p] y cell_in_page [OF i that] show False unfolding page_apart_def by metis
      qed
    qed
    then show ?thesis unfolding pt_get_def v by (intro rd64_cong) simp
  qed
  have "tree (paths A) (pt_get t) (table_page t) root"
    by (rule tree_cong [OF boot table_at_agree [OF boot get]]) (auto dest: page)
  with ready show "space_ok A t root" by (simp add: space_ok_def)
  show "x \<in> A \<Longrightarrow> user_open t root x = user_open ?s root x" by (rule upper_kept_agree(2) [OF boot get])
  show "x \<in> A \<Longrightarrow> translate t root x = translate ?s root x"
    unfolding translate_def by (rule leaf_at_agree [OF boot get path_in_va]) simp_all
qed

text \<open>How much is free afterwards: all usable pages but those of the kernel and of the bitmap.\<close>

lemma pmm_init_room:
  assumes "memmap_ok lc (bi_memmap (g_boot_info s))"
    and "kernel_phys_range ls s = (k0, k1)" "unat k0 \<le> unat k1" "unat k1 + 4095 < 2 ^ 64"
    and "aligned 12 (bi_hhdm_offset (g_boot_info s))" "pmm_init lc ls s = Some t"
  shows "card {x. usable_page lc (bi_memmap (g_boot_info s)) 0 x \<and> \<not> page_in x (unat k0) (unat k1)} \<le>
    card (free_pages t) + (unat (g_bitmap_bytes t) + 4095) div 4096"
proof (rule pmm_init_parts [OF assms])
  fix b
  assume good: "good_place lc (bi_memmap (g_boot_info s)) (g_bitmap_bytes t) k0 k1 b"
    and free: "free_pages t = {x. usable_page lc (bi_memmap (g_boot_info s)) 0 x \<and>
      \<not> page_in x (unat k0) (unat k1) \<and> \<not> page_in x (unat b) (unat b + unat (g_bitmap_bytes t))}"
  obtain q where q: "unat b = 4096 * q" using good by (auto simp: good_place_def aligned_12)
  let ?B = "{q..<q + (unat (g_bitmap_bytes t) + 4095) div 4096}"
  have "(unat b + unat (g_bitmap_bytes t) + 4095) div 4096 = q + (unat (g_bitmap_bytes t) + 4095) div 4096"
    unfolding q by (simp add: add.assoc)
  then have "{x. usable_page lc (bi_memmap (g_boot_info s)) 0 x \<and> \<not> page_in x (unat k0) (unat k1)} \<subseteq>
    free_pages t \<union> ?B"
    unfolding free by (auto simp: page_in_ceil q)
  from card_mono [OF _ this] show ?thesis
    using card_Un_le [of "free_pages t" ?B] by simp
qed

lemma pmm_init_not_zero:
  assumes "memmap_ok lc (bi_memmap (g_boot_info s))"
    and "kernel_phys_range ls s = (k0, k1)" "unat k0 \<le> unat k1" "unat k1 + 4095 < 2 ^ 64"
    and "aligned 12 (bi_hhdm_offset (g_boot_info s))" "pmm_init lc ls s = Some t"
    and low: "\<And>j e. usable_entry lc (bi_memmap (g_boot_info s)) j e \<Longrightarrow> 4096 \<le> unat (e_base e)"
  shows "0 \<notin> free_pages t"
proof (rule pmm_init_parts [OF assms(1-6)])
  fix b
  assume free: "free_pages t = {x. usable_page lc (bi_memmap (g_boot_info s)) 0 x \<and>
      \<not> page_in x (unat k0) (unat k1) \<and> \<not> page_in x (unat b) (unat b + unat (g_bitmap_bytes t))}"
  show ?thesis
    unfolding free usable_page_def page_in_def using low by (fastforce simp: Suc_le_eq)
qed

section \<open>Allocating runs of pages\<close>

text \<open>Marking a run inside the bitmap is seen by no page that is apart from the bitmap.\<close>

lemma claim_run_keeps:
  assumes "unat r + unat n \<le> unat (g_total_pages s)"
  shows "g_hhdm (claim_run r n s) = g_hhdm s \<and> page_apart (claim_run r n s) = page_apart s \<and>
    (\<forall>q j. page_apart s q \<and> unat j < 512 \<longrightarrow> pt_get (claim_run r n s) q j = pt_get s q j)"
proof -
  let ?P = "\<lambda>t. g_hhdm t = g_hhdm s \<and> g_total_pages t = g_total_pages s \<and> page_apart t = page_apart s \<and>
    (\<forall>q j. page_apart s q \<and> unat j < 512 \<longrightarrow> pt_get t q j = pt_get s q j)"
  have "?P (for_u64 0 n (\<lambda>j s. bitmap_set (r + j) s) s)"
  proof (rule for_u64_inv [where P = "\<lambda>_. ?P"])
    fix j and t :: "'a pmm_state_scheme"
    assume j: "j < n" and t: "?P t"
    have "unat (r + j) = unat r + unat j"
      using assms j unat_less_u64 [of "g_total_pages s"] by (intro unat_add_no_wrap) (simp add: word_less_nat_alt)
    then have "r + j < g_total_pages t" using assms j t by (simp add: word_less_nat_alt)
    then show "?P (bitmap_set (r + j) t)" using t by (simp add: fun_eq_iff pt_get_bitmap_set)
  qed simp_all
  then show ?thesis by (simp add: claim_run_def)
qed

lemma alloc_run_spec:
  assumes "vmm_ready s" "pmm_alloc_pages n s = (p, t)"
  shows "vmm_ready t" "table_page s q \<Longrightarrow> table_page t q"
    "table_page s q \<Longrightarrow> unat j < 512 \<Longrightarrow> pt_get t q j = pt_get s q j"
    "card (free_pages s) \<le> unat n + card (free_pages t)" "free_pages t \<subseteq> free_pages s"
    "g_hhdm t = g_hhdm s" "g_total_pages t = g_total_pages s"
proof -
  have inv: "pmm_inv s" using assms(1) by (simp add: vmm_ready_def)
  consider "t = s" | r where "n \<noteq> 0" "pmm_scan s n 0 0 0 = Some r"
      "t = (claim_run r n s)\<lparr>g_free_bytes := g_free_bytes s - n * PAGE_SIZE\<rparr>"
    using assms(2) by (auto simp: pmm_alloc_pages_eq split: if_splits option.splits)
  then have "vmm_ready t \<and> (\<forall>q. table_page s q \<longrightarrow> table_page t q) \<and>
    (\<forall>q j. table_page s q \<and> unat j < 512 \<longrightarrow> pt_get t q j = pt_get s q j) \<and>
    card (free_pages s) \<le> unat n + card (free_pages t) \<and> free_pages t \<subseteq> free_pages s \<and>
    g_hhdm t = g_hhdm s \<and> g_total_pages t = g_total_pages s"
  proof cases
    case 1
    then show ?thesis using assms(1) by simp
  next
    case 2
    have n: "0 < unat n" using 2(1) by (simp add: unat_gt_0)
    have sub: "{unat r..<unat r + unat n} \<subseteq> free_pages s"
      using first_fit_scan [OF n, of s] 2(2) first_fit_subset by fastforce
    note c = pmm_inv_claim [OF inv sub n, folded 2(3)]
    have k: "g_hhdm t = g_hhdm s" "page_apart t = page_apart s" "g_total_pages t = g_total_pages s"
      "\<And>q j. page_apart s q \<Longrightarrow> unat j < 512 \<Longrightarrow> pt_get t q j = pt_get s q j"
      using claim_run_keeps [OF c(3)] by (simp_all add: 2(3) fun_eq_iff frame_simps)
    have "card (free_pages s) \<le> card {unat r..<unat r + unat n} + card (free_pages t)"
      using card_Un_le [of "{unat r..<unat r + unat n}" "free_pages t"] sub c(2) by (simp add: Un_absorb1 Un_Diff_cancel)
    then show ?thesis
      using assms(1) c(1,2) k by (auto simp: vmm_ready_def table_page_def)
  qed
  then show "vmm_ready t" "table_page s q \<Longrightarrow> table_page t q"
    "table_page s q \<Longrightarrow> unat j < 512 \<Longrightarrow> pt_get t q j = pt_get s q j"
    "card (free_pages s) \<le> unat n + card (free_pages t)" "free_pages t \<subseteq> free_pages s"
    "g_hhdm t = g_hhdm s" "g_total_pages t = g_total_pages s"
    by blast+
qed

text \<open>So an allocation keeps an address space.\<close>

lemma alloc_run_space:
  assumes s: "space_ok A s root" and a: "pmm_alloc_pages n s = (p, t)"
  shows "space_ok A t root" "x \<in> A \<Longrightarrow> translate t root x = translate s root x"
    "x \<in> A \<Longrightarrow> user_open t root x = user_open s root x"
proof -
  from s have r: "vmm_ready s" and t: "tree (paths A) (pt_get s) (table_page s) root" by (simp_all add: space_ok_def)
  note run = alloc_run_spec [OF r a]
  have "tree (paths A) (pt_get t) (table_page t) root"
    by (rule tree_cong [OF t table_at_agree [OF t run(3)] run(2)])
  with run(1) show "space_ok A t root" by (simp add: space_ok_def)
  show "x \<in> A \<Longrightarrow> user_open t root x = user_open s root x" by (rule upper_kept_agree(2) [OF t run(3)])
  show "x \<in> A \<Longrightarrow> translate t root x = translate s root x"
    unfolding translate_def by (rule leaf_at_agree [OF t run(3) path_in_va]) simp_all
qed

section \<open>Witnesses\<close>

theorem pmm_init_vmm_ready_witness:
  "\<exists>t. pmm_init demo_consts demo_links demo_boot = Some t \<and> vmm_ready t"
proof -
  obtain t where t: "pmm_init demo_consts demo_links demo_boot = Some t"
    using demo_init by blast
  have h: "bi_hhdm_offset (g_boot_info demo_boot) = 0"
    by (simp add: demo_boot_def demo_boot_info_def zero_boot_info_def)
  have "vmm_ready t"
    by (rule pmm_init_vmm_ready [OF _ demo_boot_fields(2) _ _ _ t])
      (simp_all add: demo_boot_fields demo_memmap_ok h aligned_def)
  with t show ?thesis by blast
qed

end
