(* ===== verification/Boot_Path.thy ===== *)
theory Boot_Path
  imports Kmain Boot_Space
begin

text \<open>
  All of \<open>kmain\<close> of \<open>kernel/core/kmain.c\<close> in one theorem: from what the boot loader hands over to the
  first user program in ring 3, and what that program then does. The components meet here: the memory
  map becomes the allocator's free set, the boot loader's tables become an address space of the
  kernel's, user memory survives the set-up of threads, interrupts and system calls.
\<close>

section \<open>What the boot loader hands over\<close>

text \<open>
  A memory map of usable ranges above page 0 and below \<open>2 ^ 52\<close>, one of which has room for the bitmap;
  29 free pages beyond the kernel image and the bitmap (ten for stacks, four for user memory, and three for
  the tables of each of the five mappings); page tables that on the paths of \<open>A\<close> form a
  tree in pages that are not usable memory, and that let user mode into the lower half as far as they
  are there; a page-aligned direct map.
\<close>

definition boot_info_of :: "'a boot_state_scheme \<Rightarrow> boot_info" where
  "boot_info_of s = fill_boot_info (limine_requests s) zero_boot_info"

definition room_for :: "limine_consts \<Rightarrow> memmap_response \<Rightarrow> u64 \<Rightarrow> u64 \<Rightarrow> u64 \<Rightarrow> nat \<Rightarrow> bool" where
  "room_for lc mm bytes k0 k1 n \<longleftrightarrow>
     (\<exists>i e. usable_entry lc mm i e \<and> has_room bytes k0 k1 e) \<and>
     n + (unat bytes + 4095) div 4096 \<le> card {x. usable_page lc mm 0 x \<and> \<not> page_in x (unat k0) (unat k1)}"

definition handed_over :: "limine_consts \<Rightarrow> link_symbols \<Rightarrow> u64 set \<Rightarrow> 'a pmm_state_scheme \<Rightarrow> bool" where
  "handed_over lc ls A s \<longleftrightarrow>
     (let mm = bi_memmap (boot_info_of s);
          h = bi_hhdm_offset (boot_info_of s);
          (k0, k1) = kernel_phys_range ls (boot_info_init s)
      in memmap_ok lc mm \<and>
         (\<forall>i e. usable_entry lc mm i e \<longrightarrow> 4096 \<le> unat (e_base e) \<and> e_limit e \<le> 2 ^ 52) \<and>
         unat k0 \<le> unat k1 \<and> unat k1 + 4095 < 2 ^ 64 \<and> aligned 12 h \<and>
         (case find_max_phys lc (boot_info_init s) of
            None \<Rightarrow> False
          | Some maxp \<Rightarrow> room_for lc mm (bitmap_bytes_for maxp) k0 k1 29) \<and>
         tree (paths A) (pt_get (s\<lparr>g_hhdm := h\<rparr>)) (boot_page lc mm) (current_root s) \<and>
         (\<forall>x \<in> A. drop_bit 47 x = 0 \<longrightarrow> user_open (s\<lparr>g_hhdm := h\<rparr>) (current_root s) x))"

section \<open>Up to the memory managers\<close>

text \<open>The state in which \<open>pmm_init\<close> starts: the boot information and the segments are in place.\<close>

definition before_pmm :: "limine_consts \<Rightarrow> cpu_symbols \<Rightarrow> 'a gdt_state_scheme \<Rightarrow> 'a gdt_state_scheme option" where
  "before_pmm lc cs s =
     (case print_boot_info lc (boot_info_init (early_banner s)) of
        Inl e \<Rightarrow> None
      | Inr s \<Rightarrow> Some (kprintln ''[init] pmm'' (gdt_init cs (kprintln ''[init] gdt'' s))))"

text \<open>What these steps leave alone.\<close>

definition boot_part where
  "boot_part s = (mem s, cr3 s, msrs s, limine_requests s, g_head s, gdt_state.more s)"

lemma text_boot_part:
  "boot_part (kprintln str s) = boot_part s" "g_boot_info (kprintln str s) = g_boot_info s"
  "boot_part (early_banner s) = boot_part s"
proof -
  have "boot_part (kprintln x t) = boot_part t \<and> g_boot_info (kprintln x t) = g_boot_info t"
    for x and t :: "'a gdt_state_scheme"
    using text_eq(1) [of x t] by (auto simp: boot_part_def)
  then show "boot_part (kprintln str s) = boot_part s" "g_boot_info (kprintln str s) = g_boot_info s"
    "boot_part (early_banner s) = boot_part s"
    by (simp_all add: early_banner_def)
qed

lemma before_pmm_spec:
  "\<exists>u. before_pmm lc cs s = Some u \<and> boot_part u = boot_part s \<and> g_boot_info u = boot_info_of s"
proof -
  define s1 where "s1 = boot_info_init (early_banner s)"
  have 1: "boot_part s1 = boot_part s" "g_boot_info s1 = boot_info_of s"
    using text_boot_part(3) [of s] by (simp_all add: s1_def boot_info_init_def boot_part_def boot_info_of_def)
  obtain s2 where 2: "print_boot_info lc s1 = Inr s2" "boot_part s2 = boot_part s1" "g_boot_info s2 = g_boot_info s1"
    using print_boot_info_sends [of lc s1] by (auto simp: boot_part_def)
  define s3 where "s3 = gdt_init cs (kprintln ''[init] gdt'' s2)"
  have 3: "boot_part s3 = boot_part s2" "g_boot_info s3 = g_boot_info s2"
    using text_boot_part(1,2) [of "''[init] gdt''" s2]
    by (simp_all add: s3_def gdt_init_def set_gdt_def gdt_set_tss_def gdt_flush_def emit_def Let_def boot_part_def)
  show ?thesis
    using 1 2 3 by (simp add: before_pmm_def text_boot_part flip: s1_def s3_def)
qed

lemma kmain_start_eq:
  "kmain_start lc ls cs s = do {
     u \<leftarrow> before_pmm lc cs s;
     t \<leftarrow> pmm_init lc ls u;
     Some (kprintln ''[init] cpu_local + kernel stack'' (vmm_init (kprintln ''[init] vmm'' t)))
   }"
  by (simp add: kmain_start_def before_pmm_def Let_def split: sum.split)

lemma vmm_init_parts:
  "memory_part (vmm_init s) = memory_part s"
  "gdt_state.more (vmm_init s) = gdt_state.more s" "g_head (vmm_init s) = g_head s" for s :: "'a gdt_state_scheme"
proof -
  obtain tr where "kprint ''[vmm] init ok\<newline>'' (s\<lparr>g_kernel_cr3_phys := read_cr3 s AND NOT 0xfff\<rparr>) =
      s\<lparr>g_kernel_cr3_phys := read_cr3 s AND NOT 0xfff, trace := tr\<rparr>"
    using text_eq(2) by blast
  then show "memory_part (vmm_init s) = memory_part s" "gdt_state.more (vmm_init s) = gdt_state.more s"
    "g_head (vmm_init s) = g_head s"
    by (simp_all add: vmm_init_def memory_part_def)
qed

text \<open>The memory managers are up: an address space on the tables of the boot loader, and free pages.\<close>

lemma kmain_start_spec:
  fixes s :: "'a gdt_state_scheme"
  assumes "handed_over lc ls A s"
  shows "\<exists>t. kmain_start lc ls cs s = Some t \<and> space_ok A t (current_root t) \<and> cr3 t = cr3 s \<and>
    msrs t IA32_APIC_BASE = msrs s IA32_APIC_BASE \<and> g_boot_info t = boot_info_of s \<and>
    gdt_state.more t = gdt_state.more s \<and> g_head t = g_head s \<and>
    29 \<le> card (free_pages t) \<and> 0 \<notin> free_pages t \<and> unat (g_total_pages t) \<le> 2 ^ 40 \<and>
    (\<forall>x \<in> A. drop_bit 47 x = 0 \<longrightarrow> user_open t (current_root t) x)"
proof -
  let ?mm = "bi_memmap (boot_info_of s)" and ?h = "bi_hhdm_offset (boot_info_of s)"
  obtain u where u: "before_pmm lc cs s = Some u" "boot_part u = boot_part s" "g_boot_info u = boot_info_of s"
    using before_pmm_spec by blast
  obtain k0 k1 where k: "kernel_phys_range ls (boot_info_init s) = (k0, k1)" by force
  then have ku: "kernel_phys_range ls u = (k0, k1)"
    using u(3) by (simp add: kernel_phys_range_def boot_info_init_def boot_info_of_def)
  obtain maxp where maxp: "find_max_phys lc (boot_info_init s) = Some maxp" "room_for lc ?mm (bitmap_bytes_for maxp) k0 k1 29"
    and ho: "memmap_ok lc ?mm" "unat k0 \<le> unat k1" "unat k1 + 4095 < 2 ^ 64" "aligned 12 ?h"
    "tree (paths A) (pt_get (s\<lparr>g_hhdm := ?h\<rparr>)) (boot_page lc ?mm) (current_root s)"
    "\<forall>x \<in> A. drop_bit 47 x = 0 \<longrightarrow> user_open (s\<lparr>g_hhdm := ?h\<rparr>) (current_root s) x"
    and range: "\<And>i e. usable_entry lc ?mm i e \<Longrightarrow> 4096 \<le> unat (e_base e) \<and> e_limit e \<le> 2 ^ 52"
    using assms k by (auto simp: handed_over_def Let_def split: option.splits)
  have mu: "find_max_phys lc u = Some maxp"
    using maxp(1) u(3) by (simp add: find_max_phys_def boot_info_init_def boot_info_of_def)
  obtain i e where e: "usable_entry lc ?mm i e" "has_room (bitmap_bytes_for maxp) k0 k1 e"
    and n: "29 + (unat (bitmap_bytes_for maxp) + 4095) div 4096 \<le>
      card {x. usable_page lc ?mm 0 x \<and> \<not> page_in x (unat k0) (unat k1)}"
    using maxp(2) by (auto simp: room_for_def)
  have "memmap_ok lc (bi_memmap (g_boot_info u))" "aligned 12 (bi_hhdm_offset (g_boot_info u))"
    using ho(1,4) u(3) by simp_all
  note pre = this(1) ku ho(2,3) this(2)
  have "e_base e \<noteq> 0" if "usable_entry lc (bi_memmap (g_boot_info u)) j e" for j e
    using range [of j e] that u(3) by auto
  then obtain v where v: "pmm_init lc ls u = Some v"
    using pmm_init_runs [OF pre(1-4) _ mu] e u(3) by metis
  note keep = pmm_init_keeps [OF pre(1) v]
  note room = pmm_init_room [OF pre v] and nz = pmm_init_not_zero [OF pre v]
  obtain maxp' where "find_max_phys lc u = Some maxp'" "unat (g_total_pages v) = (unat maxp' + 4095) div 4096"
    "g_bitmap_bytes v = bitmap_bytes_for maxp'" using keep(4) by blast
  with mu have tot: "unat (g_total_pages v) = (unat maxp + 4095) div 4096" "g_bitmap_bytes v = bitmap_bytes_for maxp"
    by simp_all
  have "unat maxp \<le> 2 ^ 52"
    using find_max_loop_spec [OF ho(1), of 0 0] range maxp(1)
    by (auto simp: find_max_phys_def boot_info_init_def boot_info_of_def)
  then have small: "unat (g_total_pages v) \<le> 2 ^ 40" unfolding tot(1) by simp
  have um: "mem u = mem s" "cr3 u = cr3 s" "msrs u = msrs s" "gdt_state.more u = gdt_state.more s" "g_head u = g_head s"
    using u(2) by (simp_all add: boot_part_def)
  then have same: "pt_get (u\<lparr>g_hhdm := ?h\<rparr>) = pt_get (s\<lparr>g_hhdm := ?h\<rparr>)" "current_root u = current_root s"
    by (intro ext, simp add: pt_get_def pt_virt_add, simp add: read_cr3_def)
  have bt: "tree (paths A) (pt_get (u\<lparr>g_hhdm := bi_hhdm_offset (g_boot_info u)\<rparr>))
      (boot_page lc (bi_memmap (g_boot_info u))) (current_root u)"
    using same ho(5) u(3) by simp
  note space = pmm_init_space [OF pre v bt]
  then have sp: "space_ok A v (current_root u)" by blast
  have op: "\<forall>x \<in> A. drop_bit 47 x = 0 \<longrightarrow> user_open v (current_root u) x"
    using space(3) levels_cong(2) [OF same(1)] same(2) ho(6) u(3) by simp
  define t where "t = kprintln ''[init] cpu_local + kernel stack'' (vmm_init (kprintln ''[init] vmm'' v))"
  have more: "gdt_state.more x = gdt_state.more y \<and> g_head x = g_head y" if "pmm_state.more x = pmm_state.more y"
    for x y :: "'a gdt_state_scheme"
    using that by (cases x; cases y) simp
  have "memory_part t = memory_part v" "gdt_state.more t = gdt_state.more v" "g_head t = g_head v"
    using text_boot_part(1) [of _ "vmm_init (kprintln ''[init] vmm'' v)"] text_boot_part(1) [of "''[init] vmm''" v]
    by (simp_all add: t_def vmm_init_parts boot_part_def)
  note tv = memory_partD [OF this(1)] this(2,3)
  have "kmain_start lc ls cs s = Some t" by (simp add: kmain_start_eq u(1) v t_def)
  moreover have "current_root t = current_root u" "cr3 t = cr3 s" "msrs t IA32_APIC_BASE = msrs s IA32_APIC_BASE"
    "g_boot_info t = boot_info_of s" "gdt_state.more t = gdt_state.more s" "g_head t = g_head s"
    using tv keep(1) um u(3) more [of v u] by (simp_all add: beyond_pmm_def read_cr3_def)
  moreover have "29 \<le> card (free_pages t)" "0 \<notin> free_pages t" "unat (g_total_pages t) \<le> 2 ^ 40"
    using tv room n nz range u(3) small tot(2) by simp_all
  ultimately show ?thesis using sp op tv by auto
qed

section \<open>Stacks and user memory\<close>

definition memory_up :: "u64 set \<Rightarrow> u64 \<Rightarrow> nat \<Rightarrow> 'a pmm_state_scheme \<Rightarrow> bool" where
  "memory_up A root n s \<longleftrightarrow> space_ok A s root \<and> current_root s = root \<and>
     n \<le> card (free_pages s) \<and> 0 \<notin> free_pages s \<and> unat (g_total_pages s) \<le> 2 ^ 40 \<and>
     (\<forall>x \<in> A. drop_bit 47 x = 0 \<longrightarrow> user_open s root x)"

lemma memory_up_part:
  assumes "memory_part t = memory_part s"
  shows "memory_up A root n t = memory_up A root n s"
  by (simp only: memory_up_def memory_partD [OF assms])

text \<open>What lies around memory: where the local controller is and the components above the segments.\<close>

definition around where
  "around s = (cr3 s, msrs s IA32_APIC_BASE, g_boot_info s, g_head s, gdt_state.more s)"

lemma text_around [simp]: "around (kprintln str s) = around s"
  using text_eq(1) [of str s] by (auto simp: around_def)

lemma memory_up_alloc:
  fixes s :: "'a gdt_state_scheme"
  assumes "memory_up A root (n + unat k) s"
  shows "memory_up A root n (snd (pmm_alloc_pages k s))"
    "around (snd (pmm_alloc_pages k s)) = around s"
proof -
  obtain p t where a: "pmm_alloc_pages k s = (p, t)" by force
  have s: "space_ok A s root" "current_root s = root" "n + unat k \<le> card (free_pages s)" "0 \<notin> free_pages s"
    "unat (g_total_pages s) \<le> 2 ^ 40" "\<forall>x \<in> A. drop_bit 47 x = 0 \<longrightarrow> user_open s root x"
    using assms by (simp_all add: memory_up_def)
  then have "vmm_ready s" by (simp add: space_ok_def)
  note run = alloc_run_spec [OF this a]
  have b: "beyond_memory t = beyond_memory s" using beyond_alloc_pages [of k s] a by simp
  have "memory_up A root n t"
    using alloc_run_space(1,3) [OF s(1) a] run(4,5,7) s(2-6) beyond_memoryD(1) [OF b]
    by (auto simp: memory_up_def read_cr3_def)
  moreover have "gdt_state.more t = gdt_state.more s" "g_head t = g_head s"
    using beyond_memoryD(5) [OF b] by (cases s; cases t; simp)+
  then have "around t = around s" using beyond_memoryD [OF b] by (simp add: around_def)
  ultimately show "memory_up A root n (snd (pmm_alloc_pages k s))"
    "around (snd (pmm_alloc_pages k s)) = around s" by (simp_all add: a)
qed

lemma ist_parts:
  "memory_part (gdt_set_ist i v s) = memory_part s" "around (gdt_set_ist i v s) = around s"
  by (simp_all add: gdt_set_ist_def memory_part_def around_def Let_def)

text \<open>One stack: ten pages less after the five of them.\<close>

lemma alloc_stack_up:
  fixes s :: "'a gdt_state_scheme"
  assumes "memory_up A root (n + 2) s" "alloc_stack s = (p, t)"
  shows "memory_up A root n t" "around t = around s"
  using memory_up_alloc [of A root n 2 s] assms by (auto simp: alloc_stack_def split: prod.splits)

lemma kmain_stacks_up:
  fixes s :: "'a gdt_state_scheme"
  assumes s: "memory_up A root 29 s" and run: "kmain_stacks s = (k0, k1, t)"
  shows "memory_up A root 19 t" "around t = around s"
proof -
  note tx = memory_up_part [OF text_memory_part(1)] and ist = memory_up_part [OF ist_parts(1)]
  obtain a1 s1 where 1: "alloc_stack (kprintln ''df_stack'' s) = (a1, s1)" by force
  obtain a2 s2 where 2: "alloc_stack (kprintln ''alloc pf stack'' (gdt_set_ist 1 a1 s1)) = (a2, s2)" by force
  obtain a3 s3 where 3: "alloc_stack (kprintln ''alloc nmi stack'' (gdt_set_ist 2 a2 s2)) = (a3, s3)" by force
  obtain p4 s4 where 4: "pmm_alloc_pages 2 (gdt_set_ist 3 a3 s3) = (p4, s4)" by force
  obtain p5 s5 where 5: "pmm_alloc_pages 2 s4 = (p5, s5)" by force
  have t: "t = s5" using run by (simp add: kmain_stacks_def 1 2 3 4 5 Let_def)
  have "memory_up A root (27 + 2) (kprintln ''df_stack'' s)" using s by (simp add: tx)
  note u1 = alloc_stack_up [OF this 1]
  have "memory_up A root (25 + 2) (kprintln ''alloc pf stack'' (gdt_set_ist 1 a1 s1))" using u1(1) by (simp add: tx ist)
  note u2 = alloc_stack_up [OF this 2]
  have "memory_up A root (23 + 2) (kprintln ''alloc nmi stack'' (gdt_set_ist 2 a2 s2))" using u2(1) by (simp add: tx ist)
  note u3 = alloc_stack_up [OF this 3]
  have "memory_up A root (21 + unat (2 :: u64)) (gdt_set_ist 3 a3 s3)" using u3(1) by (simp add: ist)
  note u4 = memory_up_alloc [OF this, unfolded 4]
  have "memory_up A root (19 + unat (2 :: u64)) s4" using u4(1) by simp
  note u5 = memory_up_alloc [OF this, unfolded 5]
  show "memory_up A root 19 t" "around t = around s"
    using u1(2) u2(2) u3(2) u4(2) u5 t by (simp_all add: ist_parts)
qed

section \<open>The last steps\<close>

text \<open>\<open>syscall_init\<close> and the way into user mode write registers and the trace.\<close>

lemma load_byte_part:
  assumes "memory_part t = memory_part s"
  shows "load_byte t = load_byte s" "user_fetch t = user_fetch s"
proof -
  have "pt_get t = pt_get s" by (intro ext) (rule memory_partD(13) [OF assms])
  then have "access t = access s" by (rule access_cong) (simp_all add: memory_partD [OF assms])
  then show "load_byte t = load_byte s" by (simp add: fun_eq_iff load_byte_def memory_partD [OF assms])
  then show "user_fetch t = user_fetch s"
    unfolding user_fetch_def fun_eq_iff memory_partD(6,17) [OF assms] by simp
qed

definition last_steps :: "cpu_symbols \<Rightarrow> u64 \<Rightarrow> 'a machine_scheme \<Rightarrow> 'a machine_scheme" where
  "last_steps cs flags s =
     enter_user flags user_code0 (user_stack0 + 4096) (syscall_init cs (kprintln ''[init] syscall'' s))"

lemma text_machine:
  "mem (kprintln str s) = mem s" "cr3 (kprintln str s) = cr3 s" "msrs (kprintln str s) = msrs s"
  "machine.more (kprintln str s) = machine.more s"
  "mem (kprint str s) = mem s" "cr3 (kprint str s) = cr3 s" "msrs (kprint str s) = msrs s"
  "machine.more (kprint str s) = machine.more s"
  using text_eq(1) [of str s] text_eq(2) [of str s] by auto

lemma last_steps_machine:
  "mem (last_steps cs flags s) = mem s" "cr3 (last_steps cs flags s) = cr3 s"
  "machine.more (last_steps cs flags s) = machine.more s"
  "msrs (last_steps cs flags s) = msrs (syscall_init cs (kprintln ''[init] syscall'' s))"
  "last (trace (last_steps cs flags s)) =
    EvIretq user_code0 (ucast USER_CS) (flags OR 0x200) (user_stack0 + 4096) (ucast USER_DS)"
  by (simp_all add: last_steps_def enter_user_def emit_def)
    (simp_all only: syscall_init_def Let_def text_machine, simp_all add: wrmsr_def emit_def text_machine)

lemma last_steps_msrs:
  "msrs (last_steps cs flags s) IA32_LSTAR = sym_syscall_entry cs"
  "msrs (last_steps cs flags s) IA32_APIC_BASE = msrs s IA32_APIC_BASE"
  by (simp_all add: last_steps_machine text_machine syscall_init_msrs IA32_APIC_BASE_def IA32_EFER_def IA32_STAR_def IA32_LSTAR_def
      IA32_FMASK_def IA32_GS_BASE_def IA32_KERNEL_GS_BASE_def)

lemma last_steps_parts:
  fixes s :: "'a irq_state_scheme" and cs flags
  defines "t \<equiv> last_steps cs flags s"
  shows "memory_part t = memory_part s" "sched_part t = sched_part s" "g_vector_handlers t = g_vector_handlers s"
    "g_quantum_ns t = g_quantum_ns s" "g_head t = g_head s" "local_part t = local_part s"
proof -
  have f: "mem t = mem s" "cr3 t = cr3 s" "machine.more t = machine.more s"
    "msrs t IA32_APIC_BASE = msrs s IA32_APIC_BASE"
    unfolding t_def by (rule last_steps_machine last_steps_msrs)+
  from f(3) have m: "g_boot_info t = g_boot_info s" "g_hhdm t = g_hhdm s" "g_bitmap t = g_bitmap s"
    "g_total_pages t = g_total_pages s" "g_free_bytes t = g_free_bytes s"
    by (cases t; cases s; simp)+
  show "memory_part t = memory_part s" by (simp add: memory_part_def f m)
  then show "local_part t = local_part s" using f(3) by (cases t; cases s; simp add: local_part_def)
  show "sched_part t = sched_part s" "g_vector_handlers t = g_vector_handlers s" "g_quantum_ns t = g_quantum_ns s"
    "g_head t = g_head s"
    using f(3) by (cases t; cases s; simp add: sched_part_def)+
qed

section \<open>The whole boot path\<close>

lemma more_irq:
  fixes s t :: "'a irq_state_scheme"
  shows "gdt_state.more t = gdt_state.more s \<Longrightarrow> g_lapic_base t = g_lapic_base s"
    "pmm_state.more t = pmm_state.more s \<Longrightarrow> g_lapic_base t = g_lapic_base s \<and> g_head t = g_head s"
  by (cases s; cases t; simp)+

text \<open>The state before the interrupts are set up: two threads, and the program in user memory.\<close>

lemma kmain_prepares:
  fixes s :: "'a irq_state_scheme"
  assumes ho: "handed_over lc ls A s" and user: "{user_code0, user_stack0, user_code1} \<subseteq> A"
    and km: "sym_t0 km \<noteq> 0" "sym_t1 km \<noteq> 0" "sym_t0 km \<noteq> sym_t1 km"
  obtains p k0 k1 s1 s2 s3 s4 where
    "kmain_start lc ls cs s = Some s1" "kmain_stacks s1 = (k0, k1, s2)" "kmain_user_memory s2 = Some (Inr s3)"
    "kmain_threads d km k0 k1 s3 = Some s4" "space_ok A s4 (current_root s4)" "data_page A s4 (current_root s4) p"
    "\<forall>i < length user_blob. mem s4 (phys_to_virt s4 p + of_nat i) = user_blob ! i"
    "\<forall>V \<in> {user_code0, user_stack0, user_code1}. maps_to s4 V p \<and> user_page s4 (current_root s4) V"
    "msrs s4 IA32_APIC_BASE = msrs s IA32_APIC_BASE" "g_boot_info s4 = boot_info_of s" "g_lapic_base s4 = g_lapic_base s"
    "g_head s4 = g_head s" "sched_inv s4 [sym_t0 km, sym_t1 km]" "g_current s4 = sym_t0 km" "rr_next s4 [sym_t0 km, sym_t1 km] = sym_t1 km"
    "t_frame (threads s4 (sym_t0 km)) = start_frame user_code0 (user_stack0 + 4096)"
    "t_frame (threads s4 (sym_t1 km)) = start_frame user_code1 (user_stack1 + 4096)"
    "3 \<le> card (free_pages s4)" "0 \<notin> free_pages s4"
proof -
  obtain s1 where s1: "kmain_start lc ls cs s = Some s1" "memory_up A (current_root s1) 29 s1"
    "msrs s1 IA32_APIC_BASE = msrs s IA32_APIC_BASE" "g_boot_info s1 = boot_info_of s"
    "gdt_state.more s1 = gdt_state.more s" "g_head s1 = g_head s"
    using kmain_start_spec [OF ho, of cs] by (auto simp: memory_up_def)
  define root where "root = current_root s1"
  obtain k0 k1 s2 where s2: "kmain_stacks s1 = (k0, k1, s2)" by (cases "kmain_stacks s1") auto
  note up = kmain_stacks_up [OF s1(2) [folded root_def] s2]
  then have m: "space_ok A s2 root" "root = current_root s2" "3 + 16 \<le> card (free_pages s2)" "0 \<notin> free_pages s2"
    "unat (g_total_pages s2) \<le> 2 ^ 40" "\<forall>x \<in> A. drop_bit 47 x = 0 \<longrightarrow> user_open s2 root x"
    by (simp_all add: memory_up_def)
  obtain p s3 where s3: "kmain_user_memory s2 = Some (Inr s3)" "space_ok A s3 root" "data_page A s3 root p"
    "\<forall>i < length user_blob. mem s3 (phys_to_virt s3 p + of_nat i) = user_blob ! i"
    "\<forall>V \<in> {user_code0, user_stack0, user_code1}. maps_to s3 V p" "beyond_memory s3 = beyond_memory s2"
    "\<forall>V \<in> {user_code0, user_stack0, user_code1}. user_open s2 root V \<longrightarrow> user_page s3 root V"
    "3 \<le> card (free_pages s3)" "0 \<notin> free_pages s3"
    using user_memory_spec [OF m(1-5) user] by blast
  have low: "drop_bit 47 V = 0" if "V \<in> {user_code0, user_stack0, user_code1}" for V
    using that by (auto simp: user_addrs)
  have up3: "\<forall>V \<in> {user_code0, user_stack0, user_code1}. user_page s3 root V"
    using s3(7) m(6) user low by blast
  obtain s4 where s4: "kmain_threads d km k0 k1 s3 = Some s4" "sched_inv s4 [sym_t0 km, sym_t1 km]"
    "g_current s4 = sym_t0 km" "rr_next s4 [sym_t0 km, sym_t1 km] = sym_t1 km"
    "t_frame (threads s4 (sym_t0 km)) = start_frame user_code0 (user_stack0 + 4096)"
    "t_frame (threads s4 (sym_t1 km)) = start_frame user_code1 (user_stack1 + 4096)"
    using kmain_threads_ready [OF km, of d k0 k1 s3] by blast
  note l = local_partD [OF kmain_threads_local_part [OF s4(1)]]
  note mp = memory_partD [OF l(1)] and b = beyond_memoryD [OF s3(6)]
  have r: "current_root s4 = root" using mp(6) b(1) m(2) by (simp add: read_cr3_def)
  have "g_lapic_base s4 = g_lapic_base s" "g_head s4 = g_head s"
    using l(2,3) more_irq(2) [OF b(5)] up(2) s1(5,6) more_irq(1) [of s2 s1] more_irq(1) [of s1 s]
    by (simp_all add: around_def)
  moreover have "msrs s4 IA32_APIC_BASE = msrs s IA32_APIC_BASE" "g_boot_info s4 = boot_info_of s"
    using mp b up(2) s1(3,4) by (simp_all add: around_def)
  moreover have "space_ok A s4 (current_root s4)" "data_page A s4 (current_root s4) p"
    unfolding r using s3(2,3) by (simp_all only: mp)
  moreover have "\<forall>i < length user_blob. mem s4 (phys_to_virt s4 p + of_nat i) = user_blob ! i"
    "\<forall>V \<in> {user_code0, user_stack0, user_code1}. maps_to s4 V p \<and> user_page s4 (current_root s4) V"
    unfolding r mp(4,7,8,17) using s3(4,5) up3 by blast+
  moreover have "3 \<le> card (free_pages s4)" "0 \<notin> free_pages s4" unfolding mp(5) by (rule s3(8), rule s3(9))
  ultimately show thesis using that [OF s1(1) s2 s3(1) s4(1)] s4(2-6) by blast
qed

text \<open>The page where the local controller's registers are mapped.\<close>

definition lapic_page :: "'a boot_state_scheme \<Rightarrow> u64" where
  "lapic_page s = (msrs s IA32_APIC_BASE AND 0xfffff000) + bi_hhdm_offset (boot_info_of s)"

lemma kmain_eq:
  "kmain lc ls cs km d flags s =
     do {
       s \<leftarrow> kmain_start lc ls cs s;
       let (k0, k1, s) = kmain_stacks s;
       r \<leftarrow> kmain_user_memory s;
       case r of
         Inl s \<Rightarrow> Some (Panicked s)
       | Inr s \<Rightarrow> do {
           s \<leftarrow> kmain_threads d km k0 k1 s;
           r \<leftarrow> kmain_interrupts d cs km s;
           case r of Inl s \<Rightarrow> Some (Panicked s) | Inr s \<Rightarrow> Some (InUser (last_steps cs flags s))
         }
     }"
  unfolding kmain_def last_steps_def Let_def by (rule refl)

lemma kmain_spec:
  fixes s :: "'a irq_state_scheme"
  assumes ho: "handed_over lc ls A s" and A: "{user_code0, user_stack0, user_code1, lapic_page s} \<subseteq> A"
    and apart: "\<forall>V \<in> {user_code0, user_stack0, user_code1}. \<not> same_page V (lapic_page s)"
    and base: "g_lapic_base s = 0" "lapic_page s \<noteq> 0" and km: "sym_t0 km \<noteq> 0" "sym_t1 km \<noteq> 0" "sym_t0 km \<noteq> sym_t1 km"
    and cpu: "cpu_has_invariant_tsc d \<noteq> 0" "cpu_has_tsc_deadline d \<noteq> 0" "tsc_hz_from_cpuid d \<noteq> 0"
  obtains p t where "kmain lc ls cs km d flags s = Some (InUser t)"
    "last (trace t) = EvIretq user_code0 (ucast USER_CS) (flags OR 0x200) (user_stack0 + 4096) (ucast USER_DS)"
    "\<forall>V \<in> {user_code0, user_stack0, user_code1}. maps_to t V p \<and> holds_code t V user_blob"
    "sched_inv t [sym_t0 km, sym_t1 km]" "g_current t = sym_t0 km" "rr_next t [sym_t0 km, sym_t1 km] = sym_t1 km"
    "t_frame (threads t (sym_t0 km)) = start_frame user_code0 (user_stack0 + 4096)"
    "t_frame (threads t (sym_t1 km)) = start_frame user_code1 (user_stack1 + 4096)"
    "g_quantum_ns t = 5000000" "g_vector_handlers t 0xf0 = sym_sched_on_tick km"
    "msrs t IA32_LSTAR = sym_syscall_entry cs" "g_head t = g_head s"
    "controller_mapped (current_root t) (msrs s IA32_APIC_BASE AND 0xfffff000) t"
proof (rule kmain_prepares [OF ho _ km, of cs d])
  let ?V = "{user_code0, user_stack0, user_code1}"
  show "?V \<subseteq> A" using A by blast
  fix p k0 k1 s1 s2 s3 s4
  assume run: "kmain_start lc ls cs s = Some s1" "kmain_stacks s1 = (k0, k1, s2)" "kmain_user_memory s2 = Some (Inr s3)"
    "kmain_threads d km k0 k1 s3 = Some s4"
    and sp: "space_ok A s4 (current_root s4)" and p: "data_page A s4 (current_root s4) p"
    and bytes: "\<forall>i < length user_blob. mem s4 (phys_to_virt s4 p + of_nat i) = user_blob ! i"
    and maps: "\<forall>V \<in> ?V. maps_to s4 V p \<and> user_page s4 (current_root s4) V"
    and regs: "msrs s4 IA32_APIC_BASE = msrs s IA32_APIC_BASE" "g_boot_info s4 = boot_info_of s" "g_lapic_base s4 = g_lapic_base s"
      "g_head s4 = g_head s"
    and inv: "sched_inv s4 [sym_t0 km, sym_t1 km]" "g_current s4 = sym_t0 km" "rr_next s4 [sym_t0 km, sym_t1 km] = sym_t1 km"
    and frames: "t_frame (threads s4 (sym_t0 km)) = start_frame user_code0 (user_stack0 + 4096)"
    "t_frame (threads s4 (sym_t1 km)) = start_frame user_code1 (user_stack1 + 4096)"
    and free: "3 \<le> card (free_pages s4)" "0 \<notin> free_pages s4"
  have L: "lapic_page s = (msrs s4 IA32_APIC_BASE AND 0xfffff000) + bi_hhdm_offset (g_boot_info s4)" "lapic_page s \<in> A"
    using regs A by (simp_all add: lapic_page_def)
  obtain s5 where s5: "kmain_interrupts d cs km s4 = Some (Inr s5)" "sched_inv s5 [sym_t0 km, sym_t1 km]"
    "g_current s5 = g_current s4" "threads s5 = threads s4" "g_quantum_ns s5 = 5000000"
    "g_vector_handlers s5 0xf0 = sym_sched_on_tick km" "keeps_space A (current_root s4) (lapic_page s) s4 s5"
    "g_head s5 = g_head s4" "controller_mapped (current_root s4) (msrs s4 IA32_APIC_BASE AND 0xfffff000) s5"
    using kmain_interrupts_spec [OF inv(1) sp refl _ L base(2) free cpu] regs(3) base(1) by auto
  define t where "t = last_steps cs flags s5"
  note parts = last_steps_parts [of cs flags s5, folded t_def]
  note sd = sched_partD [OF parts(2)]
  have user: "maps_to t V p \<and> holds_code t V user_blob" if "V \<in> ?V" for V
  proof -
    have V: "maps_to s4 V p" "V \<in> A" "\<not> same_page V (lapic_page s)" "length user_blob \<le> 4096"
      "user_page s4 (current_root s4) V"
      using that maps A apart by (auto simp: lengths)
    note k = keeps_space_bytes [OF s5(7) p V(1-3) refl bytes V(4)]
    have "current_root s5 = current_root s4" using s5(7) by (simp add: keeps_space_def)
    with k(3) [OF V(5)] have "user_page s5 (current_root s5) V" by simp
    from holds_code_page [OF k(1) this V(4) k(2)] k(1) show ?thesis
      using load_byte_part(2) [OF parts(1)] by (simp add: memory_partD [OF parts(1)] holds_code_def)
  qed
  have "kmain lc ls cs km d flags s = Some (InUser t)"
    by (simp add: kmain_eq run s5(1) t_def)
  moreover have "sched_inv t q = sched_inv s5 q" "rr_next t q = rr_next s4 q" for q
    by (simp_all add: sched_inv_def ring_def rr_next_def sd s5(3,4) split: option.split)
  then have "sched_inv t [sym_t0 km, sym_t1 km]" "rr_next t [sym_t0 km, sym_t1 km] = sym_t1 km"
    using s5(2) inv(3) by metis+
  moreover have "current_root t = current_root s4"
    using s5(7) memory_partD(6) [OF parts(1)] by (simp add: keeps_space_def)
  then have "controller_mapped (current_root t) (msrs s IA32_APIC_BASE AND 0xfffff000) t"
    using s5(9) controller_mapped_part [OF parts(6)] regs(1) by simp
  ultimately show thesis
    using that [of t p] user frames inv(2) s5(3-6,8) regs(4) last_steps_machine(5) [of cs flags s5] last_steps_msrs(1) [of cs flags s5]
    by (simp add: sd parts flip: t_def)
qed

text \<open>
  C2: From what the boot loader hands over, \<open>kmain\<close> comes to the \<open>iretq\<close> into user mode, on a processor
  with an invariant time-stamp counter, TSC deadlines and a frequency that \<open>cpuid\<close> tells: at the
  first program with its stack, in ring 3 with interrupts enabled. Then two threads are in the ring, the
  first running and the second next, the registers of the local controller are mapped, timer interrupts
  go to the scheduler every five milliseconds and system calls to the assembly stub.
\<close>

theorem kmain_reaches_user:
  assumes "handed_over lc ls A s" "{user_code0, user_stack0, user_code1, lapic_page s} \<subseteq> A"
    and "\<forall>V \<in> {user_code0, user_stack0, user_code1}. \<not> same_page V (lapic_page s)" "g_lapic_base s = 0" "lapic_page s \<noteq> 0"
    and "sym_t0 km \<noteq> 0" "sym_t1 km \<noteq> 0" "sym_t0 km \<noteq> sym_t1 km"
    and "cpu_has_invariant_tsc d \<noteq> 0" "cpu_has_tsc_deadline d \<noteq> 0" "tsc_hz_from_cpuid d \<noteq> 0"
  shows "\<exists>t. kmain lc ls cs km d flags s = Some (InUser t) \<and>
    last (trace t) = EvIretq user_code0 (ucast USER_CS) (flags OR 0x200) (user_stack0 + 4096) (ucast USER_DS) \<and>
    sched_inv t [sym_t0 km, sym_t1 km] \<and> g_current t = sym_t0 km \<and> rr_next t [sym_t0 km, sym_t1 km] = sym_t1 km \<and>
    t_frame (threads t (sym_t1 km)) = start_frame user_code1 (user_stack1 + 4096) \<and>
    g_quantum_ns t = 5000000 \<and> g_vector_handlers t 0xf0 = sym_sched_on_tick km \<and>
    msrs t IA32_LSTAR = sym_syscall_entry cs \<and>
    controller_mapped (current_root t) (msrs s IA32_APIC_BASE AND 0xfffff000) t"
  by (rule kmain_spec [OF assms, of cs flags]) blast

text \<open>
  Where \<open>kmain\<close> ends, user mode may execute both programs at their addresses, and the first one,
  started there and left alone by the timer, prints its message exactly once and then loops.
\<close>

lemma kmain_first_program_prints:
  assumes "handed_over lc ls A s" "{user_code0, user_stack0, user_code1, lapic_page s} \<subseteq> A"
    and "\<forall>V \<in> {user_code0, user_stack0, user_code1}. \<not> same_page V (lapic_page s)" "g_lapic_base s = 0" "lapic_page s \<noteq> 0"
    and "sym_t0 km \<noteq> 0" "sym_t1 km \<noteq> 0" "sym_t0 km \<noteq> sym_t1 km"
    and "cpu_has_invariant_tsc d \<noteq> 0" "cpu_has_tsc_deadline d \<noteq> 0" "tsc_hz_from_cpuid d \<noteq> 0"
    and "u_rip c = user_code0"
  shows "\<exists>t. kmain lc ls cs km d flags s = Some (InUser t) \<and>
    holds_code t user_code0 user_blob \<and> holds_code t user_code1 user_blob \<and>
    (\<forall>n. \<exists>c'. u_rip c' = user_code0 + 19 \<and>
       user_run junk (4 + n) c t = Some (c', put_text (''hello from user'' @ [CHR 0x0A]) t))"
proof (rule kmain_spec [OF assms(1-11), of cs flags])
  fix p t
  assume run: "kmain lc ls cs km d flags s = Some (InUser t)"
    and user: "\<forall>V \<in> {user_code0, user_stack0, user_code1}. maps_to t V p \<and> holds_code t V user_blob"
  then have "holds_code t user_code0 user_blob" "holds_code t user_code1 user_blob" by simp_all
  moreover have "progress user_code0 0 c" using assms(12) by (simp add: progress_def)
  have "\<exists>c'. u_rip c' = user_code0 + 19 \<and> user_run junk (4 + n) c t = Some (c', put_text user_text t)" for n
    using progress_run [OF \<open>holds_code t user_code0 user_blob\<close> \<open>progress user_code0 0 c\<close>, of junk "4 + n"]
    by (auto simp: progress_def)
  ultimately show ?thesis using run unfolding user_text_def by blast
qed

section \<open>A machine that boots\<close>

text \<open>
  64 pages of usable memory from page 1 on, the kernel image in page 3, an empty root table above
  usable memory, the local controller where processors have it.
\<close>

definition boot_memmap :: memmap_response where
  "boot_memmap =
    \<lparr>mm_revision = 0, entry_count = 1,
     entries = Some (\<lambda>i. if i = 0
       then Some \<lparr>e_base = 0x1000, e_length = 0x40000, e_type = 0\<rparr> else None)\<rparr>"

definition boot_links :: link_symbols where
  "boot_links = \<lparr>sym_kernel_start = 0xffffffff80000000, sym_kernel_end = 0xffffffff80001000\<rparr>"

definition boot_machine :: irq_state where
  "boot_machine = demo_irq\<lparr>mem := \<lambda>_. 0, cr3 := 0x100000, msrs := (\<lambda>_. 0)(IA32_APIC_BASE := 0xfee00900),
     g_lapic_base := 0,
     limine_requests := initial_requests\<lparr>
       rq_memmap := Some boot_memmap,
       rq_hhdm := Some \<lparr>hhdm_revision = 0, hhdm_resp_offset = 0xffff800000000000\<rparr>,
       rq_executable_address :=
         Some \<lparr>ea_revision = 0, physical_base = 0x3000, virtual_base = 0xffffffff80000000\<rparr>\<rparr>\<rparr>"

lemma boot_machine_info:
  "bi_memmap (boot_info_of boot_machine) = boot_memmap"
  "bi_hhdm_offset (boot_info_of boot_machine) = 0xffff800000000000"
  "kernel_phys_range boot_links (boot_info_init boot_machine) = (0x3000, 0x4000)"
  "lapic_page boot_machine = 0xffff8000fee00000"
  by (simp_all add: boot_info_of_def boot_machine_def fill_boot_info_def take_response_def initial_requests_def
      boot_info_init_def kernel_phys_range_def boot_links_def lapic_page_def zero_boot_info_def)

lemma boot_usable:
  "usable_entry demo_consts boot_memmap i e \<longleftrightarrow>
    i = 0 \<and> e = \<lparr>e_base = 0x1000, e_length = 0x40000, e_type = 0\<rparr>"
  by (auto simp: usable_entry_def demo_consts_def boot_memmap_def memmap_entry_def)

lemma boot_usable_page: "usable_page demo_consts boot_memmap 0 x \<longleftrightarrow> 1 \<le> x \<and> x < 65"
  by (auto simp: usable_page_def boot_usable page_in_def e_limit_def)

lemma boot_room: "room_for demo_consts boot_memmap (bitmap_bytes_for 0x41000) 0x3000 0x4000 29"
proof -
  have "has_room (bitmap_bytes_for 0x41000) 0x3000 0x4000 \<lparr>e_base = 0x1000, e_length = 0x40000, e_type = 0\<rparr>"
    by code_simp
  moreover have "unat (bitmap_bytes_for 0x41000) = 9" by code_simp
  moreover have "{x. usable_page demo_consts boot_memmap 0 x \<and> \<not> page_in x 0x3000 0x4000} = {1..<65} - {3}"
    by (auto simp: boot_usable_page page_in_def)
  ultimately show ?thesis by (auto simp: room_for_def boot_usable)
qed

lemma boot_handed_over: "handed_over demo_consts boot_links A boot_machine"
proof -
  let ?rd = "pt_get (boot_machine\<lparr>g_hhdm := 0xffff800000000000\<rparr>)"
  have "memmap_ok demo_consts boot_memmap"
    unfolding memmap_ok_def boot_usable
    by (auto simp: e_limit_def boot_memmap_def memmap_entry_def)
  moreover have "find_max_phys demo_consts (boot_info_init boot_machine) = Some 0x41000"
  proof -
    have "find_max_loop demo_consts boot_memmap 0 0 = Some 0x41000"
      by (simp add: find_max_loop.simps boot_memmap_def memmap_entry_def demo_consts_def)
    then show ?thesis
      using boot_machine_info(1) by (simp add: find_max_phys_def boot_info_init_def boot_info_of_def)
  qed
  moreover have "rd64 (\<lambda>_. 0) a = 0" for a by (simp add: rd64_def)
  then have "?rd p i = 0" for p i by (simp add: pt_get_def boot_machine_def)
  then have "table_at ?rd r (i # is) = None" for r i "is" by simp
  then have "table_at ?rd r ps = Some q \<longleftrightarrow> ps = [] \<and> q = r" for r ps q by (cases ps) auto
  then have "tree (paths A) ?rd (boot_page demo_consts boot_memmap) 0x100000"
    by (simp add: tree_def boot_page_def aligned_unat boot_usable_page)
  moreover have "user_open (boot_machine\<lparr>g_hhdm := 0xffff800000000000\<rparr>) 0x100000 x" for x
  proof -
    have "level_entry (boot_machine\<lparr>g_hhdm := 0xffff800000000000\<rparr>) 0x100000 x k = None" for k
      using \<open>\<And>p i. ?rd p i = 0\<close> by (auto simp: level_entry_def leaf_at_def split: option.split)
    then show ?thesis by (simp add: user_open_def)
  qed
  moreover have "current_root boot_machine = 0x100000" by (simp add: boot_machine_def read_cr3_def)
  ultimately show ?thesis
    using boot_room by (simp add: handed_over_def boot_machine_info boot_usable e_limit_def aligned_unat)
qed

lemma boot_apart: "\<forall>V \<in> {user_code0, user_stack0, user_code1}. \<not> same_page V (lapic_page boot_machine)"
  by (simp add: boot_machine_info same_page_def user_addrs)

lemma boot_symbols: "sym_t0 demo_kmain \<noteq> 0" "sym_t1 demo_kmain \<noteq> 0" "sym_t0 demo_kmain \<noteq> sym_t1 demo_kmain"
  by (simp_all add: demo_kmain_def)

lemma boot_cpu: "cpu_has_invariant_tsc (demo_cpu 0x1000000) \<noteq> 0" "cpu_has_tsc_deadline (demo_cpu 0x1000000) \<noteq> 0"
  "tsc_hz_from_cpuid (demo_cpu 0x1000000) \<noteq> 0"
  by (simp_all add: demo_cpu_features)

lemma boot_base: "g_lapic_base boot_machine = 0" "lapic_page boot_machine \<noteq> 0"
  by (simp add: boot_machine_def, simp add: boot_machine_info)

theorem kmain_reaches_user_witness:
  "\<exists>t. kmain demo_consts boot_links demo_symbols demo_kmain (demo_cpu 0x1000000) 2 boot_machine = Some (InUser t) \<and>
    last (trace t) = EvIretq 0x400000 0x23 0x202 0x701000 0x1b \<and> sched_inv t [0x8000, 0x9000]"
  using kmain_reaches_user [OF boot_handed_over [of UNIV] subset_UNIV boot_apart boot_base boot_symbols boot_cpu,
      of demo_symbols 2]
  by (auto simp: user_addrs demo_kmain_def selectors)

lemma kmain_first_program_prints_witness:
  "\<exists>t c'. kmain demo_consts boot_links demo_symbols demo_kmain (demo_cpu 0x1000000) 2 boot_machine = Some (InUser t) \<and>
    user_run (\<lambda>_ c. c) 4 \<lparr>u_rip = user_code0, u_rax = 0, u_rdi = 0, u_rsi = 0\<rparr> t =
      Some (c', put_text (''hello from user'' @ [CHR 0x0A]) t)"
proof -
  let ?c = "\<lparr>u_rip = user_code0, u_rax = 0, u_rdi = 0, u_rsi = 0\<rparr>"
  have "u_rip ?c = user_code0" by simp
  from kmain_first_program_prints [OF boot_handed_over [of UNIV] subset_UNIV boot_apart boot_base boot_symbols boot_cpu
      this, of demo_symbols 2 "\<lambda>_ c. c"] obtain t where
    "kmain demo_consts boot_links demo_symbols demo_kmain (demo_cpu 0x1000000) 2 boot_machine = Some (InUser t)"
    "\<forall>n. \<exists>c'. u_rip c' = user_code0 + 19 \<and> user_run (\<lambda>_ c. c) (4 + n) ?c t = Some (c', put_text (''hello from user'' @ [CHR 0x0A]) t)"
    by blast
  then show ?thesis by (metis add_0_right)
qed

end
