(* ===== verification/Time_Sharing.thy ===== *)
theory Time_Sharing
  imports Boot_Path
begin

text \<open>
  The two user programs under the scheduler. The registers of user mode are an interrupt frame, which
  the stub of the timer interrupt pushes for \<open>irq_common_handler\<close> and pops afterwards; a move is one
  instruction of the running program or a timer interrupt before its next one. Whatever the order of the
  moves, no program notices the others: a switch changes no register, and each prints its message once.
\<close>

section \<open>Moves\<close>

definition cpu_of :: "isr_frame \<Rightarrow> user_cpu" where
  "cpu_of f = \<lparr>u_rip = f_rip f, u_rax = f_rax f, u_rdi = f_rdi f, u_rsi = f_rsi f\<rparr>"

definition load_cpu :: "user_cpu \<Rightarrow> isr_frame \<Rightarrow> isr_frame" where
  "load_cpu c f = f\<lparr>f_rip := u_rip c, f_rax := u_rax c, f_rdi := u_rdi c, f_rsi := u_rsi c\<rparr>"

lemma cpu_of_load [simp]: "cpu_of (load_cpu c f) = c"
  by (simp add: cpu_of_def load_cpu_def)

text \<open>
  What a system call may leave in the registers that neither the stub nor the compiled dispatcher
  restores: arbitrary values, from a frame \<open>g\<close>.
\<close>

definition clobber :: "isr_frame \<Rightarrow> isr_frame \<Rightarrow> isr_frame" where
  "clobber g f = f\<lparr>f_rcx := f_rcx g, f_rdx := f_rdx g, f_r8 := f_r8 g, f_r9 := f_r9 g, f_r10 := f_r10 g, f_r11 := f_r11 g\<rparr>"

lemma cpu_of_clobber [simp]: "cpu_of (clobber g f) = cpu_of f"
  by (simp add: cpu_of_def clobber_def)

type_synonym call_clobber = "hw_event list \<Rightarrow> isr_frame \<Rightarrow> isr_frame"

definition at_syscall :: "'a pmm_state_scheme \<Rightarrow> isr_frame \<Rightarrow> bool" where
  "at_syscall s f \<longleftrightarrow> (case user_step (user_fetch s) (cpu_of f) of Some (Syscall c) \<Rightarrow> True | _ \<Rightarrow> False)"

text \<open>The registers of user mode, and those of them that the program does not write and a call keeps.\<close>

definition user_regs :: "isr_frame \<Rightarrow> isr_frame" where
  "user_regs f = f\<lparr>f_error := 0, f_vector := 0\<rparr>"

definition kept_regs :: "isr_frame \<Rightarrow> isr_frame" where
  "kept_regs f = user_regs (clobber zero_frame (load_cpu \<lparr>u_rip = 0, u_rax = 0, u_rdi = 0, u_rsi = 0\<rparr> f))"

lemma kept_regs_simps [simp]:
  "kept_regs (load_cpu c f) = kept_regs f" "kept_regs (clobber g f) = kept_regs f"
  by (simp_all add: kept_regs_def user_regs_def clobber_def load_cpu_def)

lemma user_regs_eq:
  assumes "user_regs g = user_regs f"
  shows "cpu_of g = cpu_of f" "kept_regs g = kept_regs f"
proof -
  have "cpu_of x = cpu_of (user_regs x)" "kept_regs x = kept_regs (user_regs x)" for x
    by (simp_all add: cpu_of_def kept_regs_def user_regs_def clobber_def load_cpu_def)
  then show "cpu_of g = cpu_of f" "kept_regs g = kept_regs f" using assms by metis+
qed

datatype move = Instruction | Timer_Interrupt

text \<open>The stub \<open>irq_240\<close> pushes a zero for the error code and the number of its vector.\<close>

definition timer_interrupt ::
    "'a handler_call \<Rightarrow> isr_frame \<Rightarrow> 'a irq_state_scheme \<Rightarrow> (isr_frame \<times> 'a irq_state_scheme) option" where
  "timer_interrupt call f s = irq_common_handler call (f\<lparr>f_error := 0, f_vector := 0xf0\<rparr>) s"

definition user_move ::
    "call_junk \<Rightarrow> call_clobber \<Rightarrow> 'a handler_call \<Rightarrow> move \<Rightarrow> isr_frame \<times> 'a irq_state_scheme \<Rightarrow>
      (isr_frame \<times> 'a irq_state_scheme) option" where
  "user_move junk clob call m fs =
     (case fs of (f, s) \<Rightarrow>
       (case m of
          Instruction \<Rightarrow>
            (let g = (if at_syscall s f then clobber (clob (trace s) f) f else f)
             in map_option (\<lambda>(c, s). (load_cpu c g, s)) (user_instr junk (cpu_of f) s))
        | Timer_Interrupt \<Rightarrow> timer_interrupt call f s))"

primrec user_moves ::
    "call_junk \<Rightarrow> call_clobber \<Rightarrow> 'a handler_call \<Rightarrow> move list \<Rightarrow> isr_frame \<times> 'a irq_state_scheme \<Rightarrow>
      (isr_frame \<times> 'a irq_state_scheme) option" where
  "user_moves junk clob call [] fs = Some fs"
| "user_moves junk clob call (m # ms) fs =
     (case user_move junk clob call m fs of None \<Rightarrow> None | Some fs \<Rightarrow> user_moves junk clob call ms fs)"

text \<open>How many instructions thread \<open>th\<close> gets in a run.\<close>

primrec turns ::
    "call_junk \<Rightarrow> call_clobber \<Rightarrow> 'a handler_call \<Rightarrow> move list \<Rightarrow> isr_frame \<times> 'a irq_state_scheme \<Rightarrow> u64 \<Rightarrow> nat" where
  "turns junk clob call [] fs th = 0"
| "turns junk clob call (m # ms) fs th =
     (if m = Instruction \<and> g_current (snd fs) = th then 1 else 0) +
     (case user_move junk clob call m fs of None \<Rightarrow> 0 | Some fs \<Rightarrow> turns junk clob call ms fs th)"

section \<open>A timer interrupt is not noticed\<close>

text \<open>The registers of a thread: those of the processor, or the saved ones.\<close>

definition regs_of :: "isr_frame \<Rightarrow> 'a sched_state_scheme \<Rightarrow> u64 \<Rightarrow> isr_frame" where
  "regs_of f s th = (if th = g_current s then f else t_frame (threads s th))"

text \<open>What a tick leaves alone besides the scheduler's own state.\<close>

definition outside_part where
  "outside_part s = (local_part s, serial_out s, sched_state.more s)"

lemma serial_out_emit: "serial_out (emit e s) = serial_out s @ serial_event e"
  by (simp add: serial_out_def emit_def)

lemma timer_outside [simp]:
  "outside_part (timer_stop s) = outside_part s" "outside_part (timer_oneshot_ns d ns s) = outside_part s"
  "outside_part (snd (timer_now_ns d s)) = outside_part s" "outside_part (s\<lparr>g_slice_end_ns := v\<rparr>) = outside_part s"
proof -
  have "serial_out (timer_stop s) = serial_out s" "serial_out (timer_oneshot_ns d ns s) = serial_out s"
    "serial_out (snd (timer_now_ns d s)) = serial_out s"
    by (simp_all add: timer_stop_def timer_oneshot_ns_def timer_now_ns_def
        lapic_timer_stop_def lapic_timer_set_tsc_deadline_def lapic_timer_oneshot_def lapic_write_def
        mmio_write32_def wrmsr_def rdtsc_ordered_def rdtsc_def emit_def Let_def serial_out_def serial_event_def)
  then show "outside_part (timer_stop s) = outside_part s" "outside_part (timer_oneshot_ns d ns s) = outside_part s"
    "outside_part (snd (timer_now_ns d s)) = outside_part s"
    by (simp_all add: outside_part_def sched_partD(7) [OF timer_parts(1)] sched_partD(7) [OF timer_parts(3)]
        sched_partD(7) [OF timer_parts(5)])
  show "outside_part (s\<lparr>g_slice_end_ns := v\<rparr>) = outside_part s"
    by (simp add: outside_part_def serial_out_def)
qed

lemma arm_outside: "sched_arm_timer d s = Some t \<Longrightarrow> outside_part t = outside_part s"
  using timer_outside(3) [of d s]
  by (auto simp: sched_arm_timer_def sched_next_deadline_def Let_def case_prod_beta bind_eq_Some_conv split: if_splits)

lemma switch_outside:
  "outside_part (set_thread t g s) = outside_part s" "outside_part (snd (switch_to n f s)) = outside_part s"
  by (simp_all add: switch_to_def set_thread_def gdt_set_kernel_stack_def outside_part_def local_part_def
      memory_part_def serial_out_def Let_def)

lemma tick_outside:
  assumes "sched_on_tick d run_cb f s = Some (f', t)" "g_head s = 0"
  shows "outside_part t = outside_part s"
proof -
  obtain now u where now: "timer_now_ns d s = (now, u)" by force
  have u: "outside_part u = outside_part s" "g_head u = 0"
    using timer_outside(3) [of d s] now assms(2) by (simp_all add: outside_part_def local_part_def)
  show ?thesis
    using assms(1) u(1) run_expired_empty [OF u(2), of run_cb now]
    by (auto simp: sched_on_tick_def now Let_def case_prod_beta bind_eq_Some_conv switch_outside split: if_splits
        dest!: arm_outside)
qed

lemma eoi_outside: "outside_part (lapic_eoi s) = outside_part s"
  by (simp add: lapic_eoi_def lapic_write_def mmio_write32_def emit_def outside_part_def local_part_def
      memory_part_def serial_out_def serial_event_def)

text \<open>With an empty queue no callback runs, so it does not matter what callbacks do.\<close>

lemma tick_callbacks:
  assumes "g_head s = 0"
  shows "sched_on_tick d run_cb f s = sched_on_tick d (\<lambda>_ _. Some) f s"
proof -
  have "g_head (snd (timer_now_ns d s)) = 0" using assms queue_partD(1) [OF timer_parts(6), of d s] by simp
  then show ?thesis
    by (simp add: sched_on_tick_def case_prod_beta Let_def run_expired_empty)
qed

text \<open>A tick gives every thread its registers back: it saves, switches and loads, but changes none.\<close>

lemma tick_registers:
  assumes inv: "sched_inv s q" and empty: "g_head s = 0"
  shows "\<exists>f' t q'. sched_on_tick d run_cb f s = Some (f', t) \<and> sched_inv t q' \<and> set q' = set q \<and>
    outside_part t = outside_part s \<and> (\<forall>th. regs_of f' t th = regs_of f s th)"
proof -
  have es: "queued s []" using empty by (simp add: queued_Nil)
  have cb: "callbacks_quiet (\<lambda>_ _. Some)" "callbacks_ok (fst (timer_now_ns d s)) (\<lambda>_ _. Some)"
    by (auto simp: callbacks_ok_def callbacks_quiet_def)
  obtain f' t where t: "sched_on_tick d (\<lambda>_ _. Some) f s = Some (f', t)"
    "if slice_over d f s
     then sched_inv t (rotate_to (rr_next s q) q) \<and> threads t = switched f (rr_next s q) s \<and>
       g_current t = rr_next s q \<and>
       f' = (if rr_next s q = g_current s then f else t_frame (threads s (rr_next s q)))
     else sched_inv t q \<and> threads t = threads s \<and> g_current t = g_current s \<and> f' = f"
    using sched_on_tick_spec [OF inv es cb, of f] by blast
  have "outside_part t = outside_part s" by (rule tick_outside [OF t(1) empty])
  moreover have "regs_of f' t th = regs_of f s th" for th
    using t(2) by (auto simp: regs_of_def switched_def Let_def split: if_splits)
  moreover have "\<exists>q'. sched_inv t q' \<and> set q' = set q" using t(2) by (auto split: if_splits)
  ultimately show ?thesis using t(1) tick_callbacks [OF empty, of d run_cb f] by auto
qed

lemma timer_interrupt_registers:
  assumes inv: "sched_inv s q" and empty: "g_head s = 0"
    and h: "g_vector_handlers s 0xf0 = tick" "tick \<noteq> 0"
  shows "\<exists>f' t q'. timer_interrupt (timer_call d run_cb tick) f s = Some (f', t) \<and> sched_inv t q' \<and> set q' = set q \<and>
    outside_part t = outside_part s \<and> (\<forall>th. user_regs (regs_of f' t th) = user_regs (regs_of f s th))"
proof -
  let ?f = "f\<lparr>f_error := 0, f_vector := 0xf0\<rparr>"
  obtain f' u q' where u: "sched_on_tick d run_cb ?f s = Some (f', u)" "sched_inv u q'" "set q' = set q"
    "outside_part u = outside_part s" "\<forall>th. regs_of f' u th = regs_of ?f s th"
    using tick_registers [OF inv empty, of d run_cb ?f] by blast
  define t where "t = (if lapic_is_enabled u then lapic_eoi u else u)"
  have run: "timer_interrupt (timer_call d run_cb tick) f s = Some (f', t)"
    using u(1) h by (simp add: timer_interrupt_def irq_common_handler_def IRQ_BASE_def timer_call_def t_def
        LAPIC_SPURIOUS_VECTOR_def)
  have part: "sched_part t = sched_part u" by (simp add: t_def lapic_eoi_parts)
  note sp = sched_partD [OF part]
  have "sched_inv t q'" using u(2) sp by (simp add: sched_inv_def ring_def)
  moreover have "outside_part t = outside_part s" using u(4) by (simp add: t_def eoi_outside)
  moreover have "user_regs (regs_of f' t th) = user_regs (regs_of f s th)" for th
  proof -
    have "regs_of f' t th = regs_of f' u th" by (simp add: regs_of_def sp(1,2))
    then have "regs_of f' t th = regs_of ?f s th" using u(5) by simp
    then show ?thesis by (simp add: regs_of_def user_regs_def)
  qed
  ultimately show ?thesis using run u(3) by blast
qed

section \<open>Programs side by side\<close>

text \<open>
  The threads of \<open>ts\<close> run the program at their addresses \<open>prog\<close>, thread \<open>th\<close> has got \<open>n th\<close> instructions,
  its other registers are those of \<open>k th\<close>, and the console shows what was there before and one message for each program that is past its call.
\<close>

definition sharing ::
    "(u64 \<Rightarrow> u64) \<Rightarrow> u64 set \<Rightarrow> (u64 \<Rightarrow> isr_frame) \<Rightarrow> string \<Rightarrow> u64 \<Rightarrow> (u64 \<Rightarrow> nat) \<Rightarrow> isr_frame \<Rightarrow> 'a irq_state_scheme \<Rightarrow> bool" where
  "sharing prog ts k out tick n f s \<longleftrightarrow>
     (\<exists>q. sched_inv s q \<and> set q = ts) \<and> g_head s = 0 \<and> g_vector_handlers s 0xf0 = tick \<and>
     (\<forall>th \<in> ts. holds_code s (prog th) user_blob \<and> progress (prog th) (n th) (cpu_of (regs_of f s th)) \<and>
       kept_regs (regs_of f s th) = kept_regs (k th)) \<and>
     serial_out s = out @ concat (replicate (card {th \<in> ts. 4 \<le> n th}) user_text)"

text \<open>Printing is not seen by the scheduler.\<close>

lemma put_text_sched:
  fixes s :: "'a irq_state_scheme"
  shows "sched_inv (put_text str s) q = sched_inv s q" "g_head (put_text str s) = g_head s"
    "g_vector_handlers (put_text str s) = g_vector_handlers s" "regs_of f (put_text str s) th = regs_of f s th"
    "g_current (put_text str s) = g_current s"
proof -
  obtain tr where "put_text str s = s\<lparr>trace := tr\<rparr>" using put_text_trace by blast
  then show "sched_inv (put_text str s) q = sched_inv s q" "g_head (put_text str s) = g_head s"
    "g_vector_handlers (put_text str s) = g_vector_handlers s" "regs_of f (put_text str s) th = regs_of f s th"
    "g_current (put_text str s) = g_current s"
    by (simp_all add: sched_inv_def ring_def regs_of_def)
qed

text \<open>One more thread past its call.\<close>

lemma card_past:
  assumes "finite ts" "c \<in> ts"
  shows "card {th \<in> ts. 4 \<le> (n(c := Suc (n c))) th} = card {th \<in> ts. 4 \<le> n th} + (if n c = 3 then 1 else (0 :: nat))"
proof (cases "n c = 3")
  case True
  then have "{th \<in> ts. 4 \<le> (n(c := Suc (n c))) th} = insert c {th \<in> ts. 4 \<le> n th}" "c \<notin> {th \<in> ts. 4 \<le> n th}"
    using assms(2) by auto
  with True assms(1) show ?thesis by simp
next
  case False
  then have "{th \<in> ts. 4 \<le> (n(c := Suc (n c))) th} = {th \<in> ts. 4 \<le> n th}" by auto
  with False show ?thesis by simp
qed

lemma sharing_instruction:
  assumes "sharing prog ts k out tick n f s"
  shows "\<exists>f' t. user_move junk clob call Instruction (f, s) = Some (f', t) \<and>
    sharing prog ts k out tick (n(g_current s := Suc (n (g_current s)))) f' t"
proof -
  let ?c = "g_current s" and ?n = "n(g_current s := Suc (n (g_current s)))"
  obtain q where q: "sched_inv s q" "set q = ts" using assms by (auto simp: sharing_def)
  then have c: "?c \<in> ts" "finite ts" unfolding sched_inv_def by (auto elim: ring_cases)
  have code: "holds_code s (prog th) user_blob" and pr: "progress (prog th) (n th) (cpu_of (regs_of f s th))"
    and kept: "kept_regs (regs_of f s th) = kept_regs (k th)"
    if "th \<in> ts" for th
    using assms that by (simp_all add: sharing_def)
  have "regs_of f s ?c = f" by (simp add: regs_of_def)
  with pr [OF c(1)] have "progress (prog ?c) (n ?c) (cpu_of f)" by simp
  from progress_step [OF code [OF c(1)] this, of junk] obtain cpu where
    cpu: "user_instr junk (cpu_of f) s = Some (cpu, if n ?c = 3 then put_text user_text s else s)"
    "progress (prog ?c) (Suc (n ?c)) cpu" by blast
  define t where "t = (if n ?c = 3 then put_text user_text s else s)"
  have t: "sched_inv t q = sched_inv s q" "g_head t = g_head s" "g_vector_handlers t = g_vector_handlers s"
    "regs_of g t th = regs_of g s th" "holds_code t P bs = holds_code s P bs" for g th P bs
    by (simp_all add: t_def put_text_sched)
  define g where "g = (if at_syscall s f then clobber (clob (trace s) f) f else f)"
  have "regs_of (load_cpu cpu g) s th = (if th = ?c then load_cpu cpu g else regs_of f s th)" for th
    by (simp add: regs_of_def)
  moreover have "kept_regs g = kept_regs (k ?c)"
    using kept [OF c(1)] \<open>regs_of f s ?c = f\<close> by (simp add: g_def)
  ultimately have "\<forall>th \<in> ts. holds_code t (prog th) user_blob \<and>
      progress (prog th) (?n th) (cpu_of (regs_of (load_cpu cpu g) t th)) \<and>
      kept_regs (regs_of (load_cpu cpu g) t th) = kept_regs (k th)"
    using cpu(2) code pr kept by (simp add: t)
  moreover have "serial_out t = out @ concat (replicate (card {th \<in> ts. 4 \<le> ?n th}) user_text)"
  proof -
    have "serial_out t = serial_out s @ concat (replicate (if n ?c = 3 then 1 else 0) user_text)" by (simp add: t_def)
    also have "\<dots> = out @ concat (replicate (card {th \<in> ts. 4 \<le> ?n th}) user_text)"
      using assms unfolding card_past [OF c(2,1)] replicate_add by (simp add: sharing_def)
    finally show ?thesis .
  qed
  moreover have "\<exists>q. sched_inv t q \<and> set q = ts" using q t(1) by blast
  ultimately have "sharing prog ts k out tick ?n (load_cpu cpu g) t"
    using assms unfolding sharing_def t(2,3) by blast
  then show ?thesis using cpu(1) by (simp add: user_move_def t_def g_def Let_def)
qed

lemma outside_partD:
  assumes "outside_part t = outside_part s"
  shows "user_fetch t = user_fetch s" "g_head t = g_head s" "serial_out t = serial_out s"
    "sched_state.more t = sched_state.more s"
  using assms local_partD [of t s] load_byte_part(2) [of t s] by (simp_all add: outside_part_def)

lemma sharing_timer:
  fixes s :: "'a irq_state_scheme"
  assumes sh: "sharing prog ts k out tick n f s" and tick: "tick \<noteq> 0"
  shows "\<exists>f' t. user_move junk clob (timer_call d run_cb tick) Timer_Interrupt (f, s) = Some (f', t) \<and>
    sharing prog ts k out tick n f' t \<and> (\<forall>th. user_regs (regs_of f' t th) = user_regs (regs_of f s th))"
proof -
  obtain q where q: "sched_inv s q" "set q = ts" and e: "g_head s = 0" and h: "g_vector_handlers s 0xf0 = tick"
    using sh by (auto simp: sharing_def)
  obtain f' t q' where t: "timer_interrupt (timer_call d run_cb tick) f s = Some (f', t)" "sched_inv t q'"
    "set q' = set q" "outside_part t = outside_part s" "\<forall>th. user_regs (regs_of f' t th) = user_regs (regs_of f s th)"
    using timer_interrupt_registers [OF q(1) e h tick, of d run_cb f] by blast
  note out = outside_partD [OF t(4)]
  have "g_vector_handlers t = g_vector_handlers s" using out(4) by (cases s; cases t) simp
  moreover have "cpu_of (regs_of f' t th) = cpu_of (regs_of f s th)" "kept_regs (regs_of f' t th) = kept_regs (regs_of f s th)" for th
    by (rule user_regs_eq [OF spec [OF t(5)]])+
  ultimately have "sharing prog ts k out tick n f' t"
    using sh t(2,3) q(2) by (auto simp: sharing_def holds_code_def out)
  then show ?thesis using t(1,5) by (simp add: user_move_def)
qed

text \<open>So whatever the moves, the programs get on by the instructions they are given.\<close>

lemma sharing_moves:
  assumes "sharing prog ts k out tick n (fst fs) (snd fs)" "tick \<noteq> 0" and call: "call = timer_call d run_cb tick"
  shows "\<exists>f' t. user_moves junk clob call ms fs = Some (f', t) \<and>
    sharing prog ts k out tick (\<lambda>th. n th + turns junk clob call ms fs th) f' t"
  using assms(1)
proof (induction ms arbitrary: n fs)
  case Nil
  then show ?case by (intro exI [of _ "fst fs"] exI [of _ "snd fs"]) simp
next
  case (Cons m ms)
  let ?n = "if m = Instruction then n(g_current (snd fs) := Suc (n (g_current (snd fs)))) else n"
  obtain f s where fs: "fs = (f, s)" by force
  obtain f' t where t: "user_move junk clob call m fs = Some (f', t)" "sharing prog ts k out tick ?n f' t"
    using sharing_instruction [of prog ts k out tick n f s junk clob call]
      sharing_timer [of prog ts k out tick n f s junk clob d run_cb] Cons.prems assms(2)
    by (cases m) (auto simp: fs call)
  obtain g u where u: "user_moves junk clob call ms (f', t) = Some (g, u)"
    "sharing prog ts k out tick (\<lambda>th. ?n th + turns junk clob call ms (f', t) th) g u"
    using Cons.IH [of ?n "(f', t)"] t(2) by auto
  have "(\<lambda>th. ?n th + turns junk clob call ms (f', t) th) = (\<lambda>th. n th + turns junk clob call (m # ms) fs th)"
    using t(1) by (auto simp: fun_eq_iff)
  with u t(1) show ?case by auto
qed

section \<open>After booting\<close>

text \<open>The programs at the two addresses, for any registers but the instruction pointer.\<close>

lemma kmain_sharing:
  fixes s :: "'a irq_state_scheme"
  assumes "handed_over lc ls A s" "{user_code0, user_stack0, user_code1, lapic_page s} \<subseteq> A"
    and "\<forall>V \<in> {user_code0, user_stack0, user_code1}. \<not> same_page V (lapic_page s)" "g_lapic_base s = 0" "lapic_page s \<noteq> 0"
    and "sym_t0 km \<noteq> 0" "sym_t1 km \<noteq> 0" "sym_t0 km \<noteq> sym_t1 km"
    and "cpu_has_invariant_tsc d \<noteq> 0" "cpu_has_tsc_deadline d \<noteq> 0" "tsc_hz_from_cpuid d \<noteq> 0"
    and "g_head s = 0" "f_rip f = user_code0"
  defines "prog \<equiv> \<lambda>th. if th = sym_t0 km then user_code0 else user_code1"
  obtains t k where "kmain lc ls cs km d flags s = Some (InUser t)"
    "k (sym_t0 km) = f" "k (sym_t1 km) = start_frame user_code1 (user_stack1 + 4096)"
    "sharing prog {sym_t0 km, sym_t1 km} k (serial_out t) (sym_sched_on_tick km) (\<lambda>_. 0) f t"
proof (rule kmain_spec [OF assms(1-11), of cs flags])
  fix p t
  assume run: "kmain lc ls cs km d flags s = Some (InUser t)"
    and user: "\<forall>V \<in> {user_code0, user_stack0, user_code1}. maps_to t V p \<and> holds_code t V user_blob"
    and inv: "sched_inv t [sym_t0 km, sym_t1 km]" "g_current t = sym_t0 km"
    and frame: "t_frame (threads t (sym_t1 km)) = start_frame user_code1 (user_stack1 + 4096)"
    and h: "g_vector_handlers t 0xf0 = sym_sched_on_tick km" "g_head t = g_head s"
  let ?k = "\<lambda>th. regs_of f t th"
  have k: "?k (sym_t0 km) = f" "?k (sym_t1 km) = start_frame user_code1 (user_stack1 + 4096)"
    using inv(2) frame assms(8) by (simp_all add: regs_of_def)
  have "progress (prog th) 0 (cpu_of (regs_of f t th)) \<and> holds_code t (prog th) user_blob"
    if "th \<in> {sym_t0 km, sym_t1 km}" for th
    using that assms(8,13) inv(2) frame user
    by (auto simp: prog_def progress_def cpu_of_def regs_of_def start_frame_def)
  moreover have "\<exists>q. sched_inv t q \<and> set q = {sym_t0 km, sym_t1 km}" using inv(1) by fastforce
  ultimately have "sharing prog {sym_t0 km, sym_t1 km} ?k (serial_out t) (sym_sched_on_tick km) (\<lambda>_. 0) f t"
    using h assms(12) by (simp add: sharing_def)
  then show thesis using run k that [of t ?k] by blast
qed

text \<open>
  C5: Where \<open>kmain\<close> ends, on a processor with an invariant time-stamp counter, TSC deadlines and a frequency that
  \<open>cpuid\<close> tells, the two programs run side by side for as long as one likes, with timer interrupts
  in between at any point and the scheduler doing whatever it does then. There is no fault. Wherever a
  further interrupt comes, switch or not, no register of any thread is changed by it. Each program
  that got four instructions has printed its message, exactly once, and stays at its last instruction;
  and registers that neither the program nor a call writes hold what they held at the start.
\<close>

theorem kmain_programs_share:
  assumes "handed_over lc ls A s" "{user_code0, user_stack0, user_code1, lapic_page s} \<subseteq> A"
    and "\<forall>V \<in> {user_code0, user_stack0, user_code1}. \<not> same_page V (lapic_page s)" "g_lapic_base s = 0" "lapic_page s \<noteq> 0"
    and "sym_t0 km \<noteq> 0" "sym_t1 km \<noteq> 0" "sym_t0 km \<noteq> sym_t1 km"
    and "cpu_has_invariant_tsc d \<noteq> 0" "cpu_has_tsc_deadline d \<noteq> 0" "tsc_hz_from_cpuid d \<noteq> 0"
    and "g_head s = 0" "f_rip f = user_code0" "sym_sched_on_tick km \<noteq> 0"
    and call: "call = timer_call d run_cb (sym_sched_on_tick km)"
  shows "\<exists>t. kmain lc ls cs km d flags s = Some (InUser t) \<and>
    (\<forall>ms. \<exists>f' u. user_moves junk clob call ms (f, t) = Some (f', u) \<and>
      (\<exists>g v. user_move junk clob call Timer_Interrupt (f', u) = Some (g, v) \<and>
         (\<forall>th. user_regs (regs_of g v th) = user_regs (regs_of f' u th))) \<and>
      serial_out u = serial_out t @
        concat (map (\<lambda>th. if 4 \<le> turns junk clob call ms (f, t) th then ''hello from user'' @ [CHR 0x0A] else [])
          [sym_t0 km, sym_t1 km]) \<and>
      (4 \<le> turns junk clob call ms (f, t) (sym_t0 km) \<longrightarrow> f_rip (regs_of f' u (sym_t0 km)) = user_code0 + 19) \<and>
      (4 \<le> turns junk clob call ms (f, t) (sym_t1 km) \<longrightarrow> f_rip (regs_of f' u (sym_t1 km)) = user_code1 + 19) \<and>
      kept_regs (regs_of f' u (sym_t0 km)) = kept_regs f \<and>
      kept_regs (regs_of f' u (sym_t1 km)) = kept_regs (start_frame user_code1 (user_stack1 + 4096)))"
proof (rule kmain_sharing [OF assms(1-13), of cs flags])
  fix t k
  let ?prog = "\<lambda>th. if th = sym_t0 km then user_code0 else user_code1" and ?ts = "{sym_t0 km, sym_t1 km}"
  assume run: "kmain lc ls cs km d flags s = Some (InUser t)"
    and k: "k (sym_t0 km) = f" "k (sym_t1 km) = start_frame user_code1 (user_stack1 + 4096)"
    and sh: "sharing ?prog ?ts k (serial_out t) (sym_sched_on_tick km) (\<lambda>_. 0) f t"
  have "\<exists>f' u. user_moves junk clob call ms (f, t) = Some (f', u) \<and>
      (\<exists>g v. user_move junk clob call Timer_Interrupt (f', u) = Some (g, v) \<and>
         (\<forall>th. user_regs (regs_of g v th) = user_regs (regs_of f' u th))) \<and>
      serial_out u = serial_out t @ concat (map (\<lambda>th. if 4 \<le> turns junk clob call ms (f, t) th then user_text else [])
        [sym_t0 km, sym_t1 km]) \<and>
      (\<forall>th \<in> ?ts. (4 \<le> turns junk clob call ms (f, t) th \<longrightarrow> f_rip (regs_of f' u th) = ?prog th + 19) \<and>
        kept_regs (regs_of f' u th) = kept_regs (k th))" for ms
  proof -
    let ?n = "turns junk clob call ms (f, t)"
    obtain f' u where u: "user_moves junk clob call ms (f, t) = Some (f', u)"
      "sharing ?prog ?ts k (serial_out t) (sym_sched_on_tick km) ?n f' u"
      using sharing_moves [of ?prog ?ts k "serial_out t" "sym_sched_on_tick km" "\<lambda>_. 0" "(f, t)", OF _ assms(14) call,
        of junk clob ms] sh by auto
    have sw: "\<exists>g v. user_move junk clob call Timer_Interrupt (f', u) = Some (g, v) \<and>
        (\<forall>th. user_regs (regs_of g v th) = user_regs (regs_of f' u th))"
      using sharing_timer [OF u(2) assms(14), of junk clob d run_cb] unfolding call by blast
    have "{th \<in> ?ts. 4 \<le> ?n th} = (if 4 \<le> ?n (sym_t0 km) then {sym_t0 km} else {}) \<union>
        (if 4 \<le> ?n (sym_t1 km) then {sym_t1 km} else {})" by auto
    then have "serial_out u = serial_out t @ concat (map (\<lambda>th. if 4 \<le> ?n th then user_text else [])
        [sym_t0 km, sym_t1 km])"
      using u(2) assms(8) by (simp add: sharing_def numeral_2_eq_2)
    moreover have "f_rip (regs_of f' u th) = ?prog th + 19" if "th \<in> ?ts" "4 \<le> ?n th" for th
    proof -
      have "progress (?prog th) (?n th) (cpu_of (regs_of f' u th))"
        using u(2) that(1) unfolding sharing_def by blast
      then show ?thesis using that(2) by (simp add: progress_def cpu_of_def)
    qed
    moreover have "kept_regs (regs_of f' u th) = kept_regs (k th)" if "th \<in> ?ts" for th
      using u(2) that unfolding sharing_def by blast
    ultimately show ?thesis using u(1) sw by blast
  qed
  with run assms(8) k show ?thesis unfolding user_text_def by fastforce
qed

section \<open>Witnesses\<close>

theorem kmain_programs_share_witness:
  "\<exists>t f' u. kmain demo_consts boot_links demo_symbols demo_kmain (demo_cpu 0x1000000) 2 boot_machine = Some (InUser t) \<and>
    user_moves (\<lambda>_ c. c) (\<lambda>_ f. f) (timer_call (demo_cpu 0x1000000) (\<lambda>_ _ _. None) 0x80004000)
      [Instruction, Timer_Interrupt, Instruction, Timer_Interrupt, Instruction]
      (start_frame user_code0 (user_stack0 + 4096), t) = Some (f', u)"
proof -
  have "g_head boot_machine = 0" by (simp add: boot_machine_def demo_irq_fields)
  moreover have "f_rip (start_frame user_code0 (user_stack0 + 4096)) = user_code0" by (simp add: start_frame_def)
  moreover have "sym_sched_on_tick demo_kmain \<noteq> 0" by (simp add: demo_kmain_def)
  moreover have "timer_call (demo_cpu 0x1000000) (\<lambda>_ _ _. None) 0x80004000 =
      timer_call (demo_cpu 0x1000000) (\<lambda>_ _ _. None) (sym_sched_on_tick demo_kmain)" by (simp add: demo_kmain_def)
  ultimately show ?thesis
    using kmain_programs_share [OF boot_handed_over [of UNIV] subset_UNIV boot_apart boot_base boot_symbols boot_cpu,
        of "start_frame user_code0 (user_stack0 + 4096)"
          "timer_call (demo_cpu 0x1000000) (\<lambda>_ _ _. None) 0x80004000" "\<lambda>_ _ _. None"
          demo_symbols 2 "\<lambda>_ c. c" "\<lambda>_ f. f"]
    by blast
qed

end
