(* ===== verification/Mem_String.thy ===== *)
theory Mem_String
  imports Machine
begin

text \<open>
  The byte operations of \<open>kernel/core/string.c\<close> on the memory of the machine. \<open>copied\<close>
  and \<open>filled\<close> are what they promise: the destination range holds the old contents of
  the source range (or the fill byte) and every other byte is unchanged.
\<close>

section \<open>Operations\<close>

definition put_byte :: "u64 \<Rightarrow> u8 \<Rightarrow> 'a machine_scheme \<Rightarrow> 'a machine_scheme" where
  "put_byte a b s = s\<lparr>mem := (mem s)(a := b)\<rparr>"

definition memcpy :: "u64 \<Rightarrow> u64 \<Rightarrow> u64 \<Rightarrow> 'a machine_scheme \<Rightarrow> u64 \<times> 'a machine_scheme" where
  "memcpy dst src n s =
     (dst, for_u64 0 n (\<lambda>i s. put_byte (dst + i) (mem s (src + i)) s) s)"

text \<open>\<open>for (size_t i = n; i != 0; i--)\<close>\<close>

function for_down :: "u64 \<Rightarrow> (u64 \<Rightarrow> 's \<Rightarrow> 's) \<Rightarrow> 's \<Rightarrow> 's" where
  "for_down i f s = (if i \<noteq> 0 then for_down (i - 1) f (f i s) else s)"
  by pat_completeness auto
termination
  by (relation "measure (\<lambda>(i, f, s). unat i)") (auto simp: unat_minus_one unat_gt_0)

declare for_down.simps [simp del]

definition memmove :: "u64 \<Rightarrow> u64 \<Rightarrow> u64 \<Rightarrow> 'a machine_scheme \<Rightarrow> u64 \<times> 'a machine_scheme" where
  "memmove dst src n s =
     (dst,
      if dst < src then for_u64 0 n (\<lambda>i s. put_byte (dst + i) (mem s (src + i)) s) s
      else if src < dst then
        for_down n (\<lambda>i s. put_byte (dst + (i - 1)) (mem s (src + (i - 1))) s) s
      else s)"

definition memset :: "u64 \<Rightarrow> u32 \<Rightarrow> u64 \<Rightarrow> 'a machine_scheme \<Rightarrow> u64 \<times> 'a machine_scheme" where
  "memset dst c n s = (dst, for_u64 0 n (\<lambda>i s. put_byte (dst + i) (ucast c) s) s)"

section \<open>What they promise\<close>

definition copied :: "u64 \<Rightarrow> u64 \<Rightarrow> u64 \<Rightarrow> (u64 \<Rightarrow> u8) \<Rightarrow> (u64 \<Rightarrow> u8)" where
  "copied dst src n m = (\<lambda>x. if x - dst < n then m (src + (x - dst)) else m x)"

definition filled :: "u64 \<Rightarrow> u8 \<Rightarrow> u64 \<Rightarrow> (u64 \<Rightarrow> u8) \<Rightarrow> (u64 \<Rightarrow> u8)" where
  "filled dst b n m = (\<lambda>x. if x - dst < n then b else m x)"

text \<open>A range that does not run past the end of the address space.\<close>

definition range_ok :: "u64 \<Rightarrow> u64 \<Rightarrow> bool" where
  "range_ok a n \<longleftrightarrow> unat a + unat n \<le> 2 ^ 64"

lemma put_byte_copied:
  assumes "i < n" "\<not> src + i - dst < i"
  shows "(copied dst src i m)(dst + i := copied dst src i m (src + i)) = copied dst src (i + 1) m"
proof
  fix x
  have "x = dst + i \<longleftrightarrow> x - dst = i" by (auto simp: algebra_simps)
  then show "((copied dst src i m)(dst + i := copied dst src i m (src + i))) x =
      copied dst src (i + 1) m x"
    using assms by (auto simp: copied_def less_Suc_word)
qed

lemma forward_copy:
  assumes "\<And>i. i < n \<Longrightarrow> \<not> src + i - dst < i"
  shows "mem (for_u64 0 n (\<lambda>i s. put_byte (dst + i) (mem s (src + i)) s) s) =
    copied dst src n (mem s)"
proof (rule for_u64_inv [where P = "\<lambda>i t. mem t = copied dst src i (mem s)"])
  show "mem s = copied dst src 0 (mem s)" by (simp add: copied_def)
next
  fix j t
  assume "j < n" "mem t = copied dst src j (mem s)"
  then show "mem (put_byte (dst + j) (mem t (src + j)) t) = copied dst src (j + 1) (mem s)"
    using put_byte_copied [OF \<open>j < n\<close> assms, of "mem s"] by (simp add: put_byte_def)
qed simp

text \<open>Reading ahead of the write position: the source is above the destination.\<close>

lemma forward_safe:
  assumes "dst \<le> src" "range_ok src n" "i < n"
  shows "\<not> src + i - dst < i"
proof -
  have "unat src + unat i < 2 ^ 64"
    using assms(2,3) by (simp add: range_ok_def word_less_nat_alt)
  then have "unat (src + i) = unat src + unat i" by (rule unat_add_no_wrap)
  moreover from this assms(1) have "dst \<le> src + i" by (simp add: word_le_nat_alt)
  ultimately show ?thesis
    using assms(1) by (simp add: word_less_nat_alt word_le_nat_alt unat_sub_le)
qed

lemma disjoint_safe:
  assumes "unat dst + unat n \<le> unat src \<or> unat src + unat n \<le> unat dst"
    "range_ok src n" "range_ok dst n" "i < n"
  shows "\<not> src + i - dst < i"
proof (cases "dst \<le> src")
  case True
  then show ?thesis using forward_safe assms by blast
next
  case False
  have si: "unat (src + i) = unat src + unat i"
    using assms(2,4) by (intro unat_add_no_wrap) (simp add: range_ok_def word_less_nat_alt)
  have "unat (src + i - dst) = 2 ^ 64 + unat (src + i) - unat dst"
    using False assms(1,4) si
    by (simp add: unat_sub_if' word_le_nat_alt word_less_nat_alt)
  then show ?thesis
    using assms(3,4) si by (simp add: range_ok_def word_less_nat_alt)
qed

text \<open>
  The backward copy: once the loop counter is down to \<open>i\<close>, the bytes from index \<open>i\<close> on
  have been moved and the source bytes below are still intact.
\<close>

lemma for_down_inv:
  assumes "P i s" "\<And>j s. 0 < j \<Longrightarrow> j \<le> i \<Longrightarrow> P j s \<Longrightarrow> P (j - 1) (f j s)"
  shows "P 0 (for_down i f s)"
  using assms
proof (induction i f s rule: for_down.induct)
  case (1 i f s)
  show ?case
  proof (cases "i = 0")
    case True
    with 1(2) show ?thesis by (simp add: for_down.simps)
  next
    case False
    then have le: "i - 1 \<le> i" and "0 < i"
      by (auto simp: word_le_nat_alt unat_minus_one word_greater_zero_iff)
    have "P 0 (for_down (i - 1) f (f i s))"
    proof (rule 1(1) [OF False])
      show "P (i - 1) (f i s)" using 1(2,3) \<open>0 < i\<close> by blast
    next
      fix j t
      assume "0 < j" "j \<le> i - 1" "P j t"
      then show "P (j - 1) (f j t)" using 1(3) le by (meson order_trans)
    qed
    with False show ?thesis by (simp add: for_down.simps [of i f s])
  qed
qed

definition moved_from :: "u64 \<Rightarrow> u64 \<Rightarrow> u64 \<Rightarrow> u64 \<Rightarrow> (u64 \<Rightarrow> u8) \<Rightarrow> (u64 \<Rightarrow> u8)" where
  "moved_from i dst src n m =
     (\<lambda>x. if i \<le> x - dst \<and> x - dst < n then m (src + (x - dst)) else m x)"

lemma backward_safe:
  assumes "src < dst" "range_ok dst n" "0 < j" "j \<le> n"
  shows "\<not> (j \<le> src + (j - 1) - dst \<and> src + (j - 1) - dst < n)"
proof -
  have j1: "unat (j - 1) = unat j - 1" using assms(3) by (simp add: unat_minus_one word_gt_0)
  have n: "unat j \<le> unat n" "0 < unat j" "unat src < unat dst" "unat dst + unat n \<le> 2 ^ 64"
    using assms by (simp_all add: word_le_nat_alt word_less_nat_alt range_ok_def)
  then have s: "unat (src + (j - 1)) = unat src + (unat j - 1)"
    using j1 by (subst unat_add_no_wrap) linarith+
  show ?thesis
    using n s unat_less_u64 [of dst]
    by (auto simp: unat_sub_if' word_le_nat_alt word_less_nat_alt split: if_splits)
qed

lemma put_byte_moved:
  assumes "src < dst" "range_ok dst n" "0 < j" "j \<le> n"
  shows "(moved_from j dst src n m)(dst + (j - 1) := moved_from j dst src n m (src + (j - 1))) =
    moved_from (j - 1) dst src n m"
proof
  fix x
  have "j \<noteq> 0" using assms(3) by auto
  then have j1: "unat (j - 1) = unat j - 1" "0 < unat j" "unat j \<le> unat n"
    using assms(4) by (simp_all add: unat_minus_one unat_gt_0 word_le_nat_alt)
  have x: "x = dst + (j - 1) \<longleftrightarrow> x - dst = j - 1" by (auto simp: algebra_simps)
  have "j - 1 \<le> k \<longleftrightarrow> k = j - 1 \<or> j \<le> k" for k
    using j1 by (auto simp: word_le_nat_alt word_unat_eq_iff)
  moreover have "j - 1 < n" using j1 by (simp add: word_less_nat_alt)
  ultimately show "((moved_from j dst src n m)
      (dst + (j - 1) := moved_from j dst src n m (src + (j - 1)))) x =
    moved_from (j - 1) dst src n m x"
    using backward_safe [OF assms] x by (auto simp: moved_from_def)
qed

lemma backward_copy:
  assumes "src < dst" "range_ok dst n"
  shows "mem (for_down n (\<lambda>i s. put_byte (dst + (i - 1)) (mem s (src + (i - 1))) s) s) =
    copied dst src n (mem s)"
proof -
  have "mem (for_down n (\<lambda>i s. put_byte (dst + (i - 1)) (mem s (src + (i - 1))) s) s) =
    moved_from 0 dst src n (mem s)"
  proof (rule for_down_inv [where P = "\<lambda>i t. mem t = moved_from i dst src n (mem s)"])
    show "mem s = moved_from n dst src n (mem s)"
      by (rule ext) (auto simp: moved_from_def dest: leD)
  next
    fix j t
    assume j: "0 < j" "j \<le> n" and t: "mem t = moved_from j dst src n (mem s)"
    then show "mem (put_byte (dst + (j - 1)) (mem t (src + (j - 1))) t) =
        moved_from (j - 1) dst src n (mem s)"
      using put_byte_moved [OF assms j, of "mem s"] by (simp add: put_byte_def)
  qed
  then show ?thesis by (simp add: moved_from_def copied_def)
qed

section \<open>Correctness\<close>

text \<open>
  C21: \<open>memmove\<close> is correct for every overlap of source and destination: afterwards the
  destination holds the old contents of the source, and no other byte has changed.
\<close>

theorem memmove_correct:
  assumes "range_ok src n" "range_ok dst n"
  shows "fst (memmove dst src n s) = dst \<and>
    mem (snd (memmove dst src n s)) = copied dst src n (mem s)"
proof -
  consider "dst < src" | "src < dst" | "src = dst" by force
  then show ?thesis
  proof cases
    case 1
    then show ?thesis
      using forward_copy [of n src dst s] forward_safe [OF _ assms(1)]
      by (simp add: memmove_def order_less_imp_le)
  next
    case 2
    then have "\<not> dst < src" by simp
    with 2 show ?thesis using backward_copy [OF 2 assms(2), of s] by (simp add: memmove_def)
  next
    case 3
    then show ?thesis by (auto simp: memmove_def copied_def)
  qed
qed

theorem memmove_correct_witness:
  "mem (snd (memmove 0x1002 0x1000 4
      \<lparr>trace = [], mem = (\<lambda>x. ucast x), cr3 = 0, msrs = \<lambda>_. 0\<rparr>)) 0x1005 = 3"
  using memmove_correct [of "0x1000" 4 "0x1002"
      "\<lparr>trace = [], mem = (\<lambda>x. ucast x), cr3 = 0, msrs = \<lambda>_. 0\<rparr>"]
  by (simp add: range_ok_def copied_def)

text \<open>
  \<open>memcpy\<close> copies correctly whenever the destination does not start inside the source: the
  ranges are disjoint, or the destination is at or below the source.
\<close>

theorem memcpy_correct:
  assumes "range_ok src n" "range_ok dst n"
    and "unat dst \<le> unat src \<or> unat src + unat n \<le> unat dst"
  shows "fst (memcpy dst src n s) = dst \<and>
    mem (snd (memcpy dst src n s)) = copied dst src n (mem s)"
proof -
  have "\<not> src + i - dst < i" if "i < n" for i
  proof (cases "dst \<le> src")
    case True
    then show ?thesis using forward_safe [OF _ assms(1) that] by blast
  next
    case False
    then show ?thesis
      using disjoint_safe [OF _ assms(1,2) that] assms(3) by (simp add: word_le_nat_alt)
  qed
  then show ?thesis using forward_copy [of n src dst s] by (simp add: memcpy_def)
qed

theorem memcpy_correct_witness:
  "mem (snd (memcpy 0x2000 0x1000 4
      \<lparr>trace = [], mem = (\<lambda>x. ucast x), cr3 = 0, msrs = \<lambda>_. 0\<rparr>)) 0x2003 = 3"
  using memcpy_correct [of "0x1000" 4 "0x2000"
      "\<lparr>trace = [], mem = (\<lambda>x. ucast x), cr3 = 0, msrs = \<lambda>_. 0\<rparr>"]
  by (simp add: range_ok_def copied_def)

text \<open>
  \<open>memset\<close> stores the low byte of its argument in exactly the \<open>n\<close> bytes from \<open>dst\<close> on.
\<close>

theorem memset_correct:
  "fst (memset dst c n s) = dst \<and> mem (snd (memset dst c n s)) = filled dst (ucast c) n (mem s)"
proof -
  let ?f = "\<lambda>i s. put_byte (dst + i) (ucast c) s"
  have "mem (for_u64 0 n ?f s) = filled dst (ucast c) n (mem s)"
  proof (rule for_u64_inv [where P = "\<lambda>i t. mem t = filled dst (ucast c) i (mem s)"])
    show "mem s = filled dst (ucast c) 0 (mem s)" by (simp add: filled_def)
  next
    fix j t
    assume "j < n" "mem t = filled dst (ucast c) j (mem s)"
    moreover have "x = dst + j \<longleftrightarrow> x - dst = j" for x by (auto simp: algebra_simps)
    ultimately show "mem (put_byte (dst + j) (ucast c) t) = filled dst (ucast c) (j + 1) (mem s)"
      by (auto simp: put_byte_def filled_def less_Suc_word fun_eq_iff)
  qed simp
  then show ?thesis by (simp add: memset_def)
qed

end
