(* ===== verification/Spec2Isabelle.thy ===== *)
theory Spec2Isabelle
  imports Time_Sharing Print_Typed Mem_String
begin

text \<open>
  A verification library for mCincOS, an x86_64 kernel in C that the Limine protocol boots. The kernel
  takes over memory from the boot loader, sets up segments, interrupts and a one-shot timer, puts a
  small program into user memory and schedules two user threads on one processor. Its C code is
  modelled function by function; the theorems say what each part guarantees, and two of
  them follow \<^verbatim>\<open>kmain\<close> from the boot loader's answers to the messages of the two user programs.

  \<^bold>\<open>State.\<close> The static variables of the C files are fields of one record, which grows along the import
  order of the theories: \<^verbatim>\<open>machine\<close> (trace, memory, CR3, model-specific registers), \<^verbatim>\<open>boot_state\<close> (requests,
  boot information), \<^verbatim>\<open>pmm_state\<close>, \<^verbatim>\<open>vmm_state\<close>, \<^verbatim>\<open>timerq_state\<close>, \<^verbatim>\<open>gdt_state\<close>, \<^verbatim>\<open>idt_state\<close>, \<^verbatim>\<open>relax_state\<close>,
  \<^verbatim>\<open>lapic_state\<close>, \<^verbatim>\<open>timer_state\<close>, \<^verbatim>\<open>sched_state\<close> and \<^verbatim>\<open>irq_state\<close>. An operation is a function on the scheme of the
  record it needs, so it applies to every later one; its frame lemmas say which fields it leaves. Memory
  is one byte per address of the kernel's half of the address space; bitmap and page tables live in it.
  Threads and timer events are typed heaps indexed by their address. Every access to a device, and
  every privileged instruction, appends an event to the trace.

  \<^bold>\<open>Results.\<close> Integers have the width of the C types and wrap. Loops over an index are \<^verbatim>\<open>for_u64\<close> or functions
  with a measure; a loop that C code could run for ever is a \<^verbatim>\<open>partial_function\<close> in the option monad, so
  that \<^verbatim>\<open>None\<close> is a run that does not return (or reaches a halt loop), and returning is always a theorem of
  its own. There is no fuel anywhere but the number of steps of a user program in \<^verbatim>\<open>user_run\<close> and the list of
  moves in \<^verbatim>\<open>user_moves\<close>, for which the theorems hold at every number and every list. The formatter and the boot report have a sum type whose left values
  are the faults of C: reading behind a string, a missing argument, signed overflow, a NULL pointer.

  \<^bold>\<open>Theories and sources\<close>, the latter under \<^verbatim>\<open>src/kernel\<close>:

  \<^item> \<^verbatim>\<open>Prelude\<close>: word, alignment and loop lemmas. \<^verbatim>\<open>Chains\<close>: linked structures. \<^verbatim>\<open>Bitset\<close>, \<^verbatim>\<open>Page_Tables\<close>:
    the interfaces of a bitmap, of a store of tables and of an allocator of tables.
  \<^item> \<^verbatim>\<open>Machine\<close>: \<^verbatim>\<open>arch/x86_64/cpu/io.h\<close>, \<^verbatim>\<open>msr.h\<close>, \<^verbatim>\<open>cpuid.h\<close>, \<^verbatim>\<open>tsc.h\<close>, the accessors of \<^verbatim>\<open>mm/mmio.h\<close>.
  \<^item> \<^verbatim>\<open>Print\<close>, \<^verbatim>\<open>Print_Typed\<close>: \<^verbatim>\<open>core/print.c\<close>, \<^verbatim>\<open>core/panic.c\<close>, \<^verbatim>\<open>arch/x86_64/cpu/arch.c\<close>.
    What a format prints, which calls are well typed, numbers that read back.
  \<^item> \<^verbatim>\<open>Mem_String\<close>: \<^verbatim>\<open>core/string.c\<close>, against the bytes copied or set.
  \<^item> \<^verbatim>\<open>Boot_Info\<close>, \<^verbatim>\<open>Boot_Print\<close>: \<^verbatim>\<open>boot/boot_info.h\<close>, \<^verbatim>\<open>boot/boot_info.c\<close>, \<^verbatim>\<open>arch/x86_64/boot/limine.c\<close>.
    The report returns for all answers and only prints.
  \<^item> \<^verbatim>\<open>Pmm\<close>, \<^verbatim>\<open>Pmm_Init\<close>: \<^verbatim>\<open>mm/pmm.c\<close>. First fit on the set of free pages, exact accounting, what
    initialisation makes free and what it leaves alone.
  \<^item> \<^verbatim>\<open>Vmm\<close>, \<^verbatim>\<open>Vmm_Correct\<close>: \<^verbatim>\<open>mm/vmm.c\<close>. Mapping and unmapping change one translation; spaces with disjoint
    tables are isolated; new spaces share the kernel half. \<^verbatim>\<open>User_Pages\<close>: which pages user mode may read
    and execute, and what a mapping adds to them. \<^verbatim>\<open>User_Access\<close>: access through the tables, data pages. \<^verbatim>\<open>Boot_Space\<close>: taking over the boot loader's tables.
  \<^item> \<^verbatim>\<open>Mmio\<close>: \<^verbatim>\<open>mm/mmio.c\<close>, ranges mapped uncached into the direct map.
  \<^item> \<^verbatim>\<open>Timerq\<close>: \<^verbatim>\<open>core/timerq.c\<close>, refining sorted lists of deadlines.
  \<^item> \<^verbatim>\<open>Gdt\<close>, \<^verbatim>\<open>Idt\<close>, \<^verbatim>\<open>Pic_Pit\<close>, \<^verbatim>\<open>Relax\<close>, \<^verbatim>\<open>Lapic\<close>, \<^verbatim>\<open>Timer\<close>: the files of these names in
    \<^verbatim>\<open>arch/x86_64/cpu\<close>. Descriptors decode to what was encoded, the port writes drive a model of the chips
    into the intended state, waiting loops end while the counters advance, times are converted exactly.
  \<^item> \<^verbatim>\<open>Sched\<close>: \<^verbatim>\<open>core/sched.c\<close>, \<^verbatim>\<open>cpu/cpu_local.c\<close>. The ring of threads, round robin, one running thread in
    every reachable state. \<^verbatim>\<open>Interrupts\<close>: \<^verbatim>\<open>cpu/irq.c\<close>, \<^verbatim>\<open>cpu/idt_handler.c\<close>. \<^verbatim>\<open>Syscall\<close>: \<^verbatim>\<open>cpu/syscall.c\<close>.
  \<^item> \<^verbatim>\<open>User_Program\<close>, \<^verbatim>\<open>Kmain\<close>, \<^verbatim>\<open>Boot_Path\<close>: \<^verbatim>\<open>core/kmain.c\<close>. User memory and the program in it; the order
    of initialisation; the whole boot path. \<^verbatim>\<open>Time_Sharing\<close>: both programs and timer interrupts in any order.

  \<^bold>\<open>How the parts interact.\<close> The boot information gives the physical memory manager its memory map and the
  offset of the direct map. The virtual memory manager allocates its tables there and reaches them through
  the direct map; \<^verbatim>\<open>vmm_ready\<close> is what it needs of the allocator, and \<^verbatim>\<open>pmm_init\<close> establishes it. \<^verbatim>\<open>mmio_map\<close>
  maps the registers of the local controller, which \<^verbatim>\<open>timer_init\<close> then uses; the scheduler arms the timer
  for the next deadline of the queue or the end of the slice, and \<^verbatim>\<open>irq_common_handler\<close> hands it the
  interrupts. The frame in \<^verbatim>\<open>Kmain\<close> (\<^verbatim>\<open>memory_part\<close>, \<^verbatim>\<open>local_part\<close>, \<^verbatim>\<open>keeps_space\<close>) carries user memory through all
  later steps.

  \<^bold>\<open>Interfaces.\<close> \<^verbatim>\<open>bitset\<close>, interpreted by the bitmap of the physical memory manager; \<^verbatim>\<open>quad_store\<close>, by memory;
  \<^verbatim>\<open>table_store\<close> and its extension \<^verbatim>\<open>table_alloc\<close>, by the pages that the allocator hands out, from which
  \<^verbatim>\<open>Vmm_Correct\<close> has its lemmas on trees of tables; \<^verbatim>\<open>codec\<close>, by segment, task state and gate descriptors;
  \<^verbatim>\<open>guarded_system\<close>, by the steps of the scheduler.

  \<^bold>\<open>The invariant of an address space.\<close> \<^verbatim>\<open>space_ok A s root\<close> says that the tables on the paths of the addresses
  of \<^verbatim>\<open>A\<close> form a tree of allocated pages. The set is there because the boot loader may map the rest of the
  space with large pages, which the kernel's walk would take for tables. A theorem about an address needs
  it in \<^verbatim>\<open>A\<close> and speaks about the translations of \<^verbatim>\<open>A\<close>; with \<^verbatim>\<open>A = UNIV\<close> all of the space is meant.
  \<^verbatim>\<open>handed_over\<close> in \<^verbatim>\<open>Boot_Path\<close> is the contract with the boot loader that the boot path rests on: a
  memory map of usable ranges above page 0, 29 pages beyond kernel and bitmap (ten for five stacks, four for
  user memory, at most twelve for its tables and three for those of the local controller's page), and
  tables outside usable memory whose entries on lower-half paths, as far as they are present, have the
  user bit and are no large pages. The boot path is followed on a processor with an invariant time-stamp
  counter, TSC deadlines and a frequency that \<^verbatim>\<open>cpuid\<close> tells; \<^verbatim>\<open>Timer\<close> has the other processors.

  \<^bold>\<open>Parameters.\<close> \<^verbatim>\<open>devices\<close> gives what ports, device registers, the time-stamp counter and \<^verbatim>\<open>cpuid\<close> answer, as
  a function of the trace; theorems that need more of them name it (a counter that advances, interrupt
  controllers as documented, an interval timer whose polling ends). \<^verbatim>\<open>limine_consts\<close> are the constants of the protocol header; \<^verbatim>\<open>link_symbols\<close>,
  \<^verbatim>\<open>cpu_symbols\<close> and \<^verbatim>\<open>kmain_symbols\<close> are addresses that the linker chooses; callbacks of timer events and
  handlers of interrupts are functions, the timer's being instantiated with the scheduler.

  \<^bold>\<open>What modelling showed.\<close> Several theorems state behaviour that the code does not intend: a page
  that is mapped for user mode under an entry without the user bit stays out of its reach
  (\<^verbatim>\<open>User_Pages\<close>), the first user stack lies in the page of the program (\<^verbatim>\<open>User_Program\<close>), in local timer mode
  every timer fires about a thousand times too early (\<^verbatim>\<open>Timer\<close>), a range that wraps around is
  reported as mapped (\<^verbatim>\<open>Mmio\<close>), a failure to map the local controller is a page fault (\<^verbatim>\<open>lapic_init_base\<close>
  in \<^verbatim>\<open>Lapic\<close>), the non-maskable interrupt shares its stack with the double fault (\<^verbatim>\<open>Idt\<close>), freeing a free
  page spoils the accounting (\<^verbatim>\<open>Pmm\<close>).

  \<^bold>\<open>Not modelled.\<close>
  \<^item> The assembly stubs (\<^verbatim>\<open>isr.S\<close>, \<^verbatim>\<open>syscall_entry.S\<close> and others) and the linker script: their entry points are
    parameters, and the handlers are modelled on the frames that the stubs pass.
  \<^item> The header of the Limine protocol, a submodule that is not in the tree; the branches for other
    processors than x86_64, which are not compiled.
  \<^item> Write permission, and the kernel's own: instructions of the user program are fetched through
    \<^verbatim>\<open>user_fetch\<close>, which looks at the user and no-execute bits of every level, but an access of the kernel
    through a pointer that is given to it (\<^verbatim>\<open>access\<close>) looks at the present bits only. The kernel's own data,
    its page tables and its bitmap are read and written at their addresses, which the boot loader has
    mapped; the registers of the local controller are not (\<^verbatim>\<open>lapic_store\<close>). The translation caches of the
    processor are not there either; \<^verbatim>\<open>invlpg\<close> and CR3 writes are events.
  \<^item> Interrupts arrive only where a theorem delivers one: in \<^verbatim>\<open>user_moves\<close> at any instruction of a user program,
    not inside the kernel, which a timer interrupt only enters from user mode there. When the timer fires
    is left open.
  \<^item> The two messages and the idle loop at the end of \<^verbatim>\<open>kmain\<close>, behind two calls that do not return.
\<close>

end
